(* ===== verification/Sherlock_Prelude.thy ===== *)
theory Sherlock_Prelude
  imports Main "HOL-Library.Word"
begin

text \<open>
  The prelude of the development: names for the C integer types, the results of a C
  computation that may leave the defined behaviour of the language or call \<open>exit\<close>,
  bounded array reads and writes, the little-endian byte images of machine integers
  (\<open>memcpy\<close> on the x86 hosts the tools are built for), and the generic lemmas on lists
  and words that the component theories share.
\<close>

unbundle bit_operations_syntax

named_theorems sl_defs \<open>definitions the component proofs unfold\<close>
named_theorems sl_frame \<open>what an operation leaves unchanged\<close>

section \<open>Machine integers\<close>

type_synonym u8 = "8 word"
type_synonym u16 = "16 word"
type_synonym u32 = "32 word"
type_synonym u64 = "64 word"
type_synonym bytes = "8 word list"

section \<open>Results: defined value, undefined behaviour, or exit\<close>

text \<open>
  \<open>Undefined\<close> is what C leaves undefined and the code does not guard against (an index
  outside an array, a null pointer that is read, an over-long shift). \<open>Exit n\<close> is a call
  of \<open>exit (n)\<close>.
\<close>

datatype stop = Undefined | Exit nat

type_synonym 'a result = "stop + 'a"

abbreviation Ok :: "'a \<Rightarrow> 'a result" where
  "Ok \<equiv> Inr"

abbreviation Stop :: "stop \<Rightarrow> 'a result" where
  "Stop \<equiv> Inl"

definition bind_result :: "'a result \<Rightarrow> ('a \<Rightarrow> 'b result) \<Rightarrow> 'b result" where
  "bind_result r f = (case r of Inl e \<Rightarrow> Inl e | Inr x \<Rightarrow> f x)"

lemma bind_result_simps [simp]:
  "bind_result (Inl e) f = Inl e"
  "bind_result (Inr x) f = f x"
  by (simp_all add: bind_result_def)

lemma bind_result_eq_Ok [simp]:
  "bind_result r f = Inr y \<longleftrightarrow> (\<exists>x. r = Inr x \<and> f x = Inr y)"
  by (cases r) simp_all

lemma bind_result_cong [fundef_cong]:
  "r = r' \<Longrightarrow> (\<And>x. r' = Inr x \<Longrightarrow> f x = f' x) \<Longrightarrow> bind_result r f = bind_result r' f'"
  by (cases r') auto

text \<open>A loop over a list that threads a state and stops at the first stop.\<close>

fun fold_result :: "('a \<Rightarrow> 's \<Rightarrow> 's result) \<Rightarrow> 'a list \<Rightarrow> 's \<Rightarrow> 's result" where
  "fold_result f [] s = Ok s"
| "fold_result f (x # xs) s = bind_result (f x s) (fold_result f xs)"

lemma fold_result_append [simp]:
  "fold_result f (xs @ ys) s = bind_result (fold_result f xs s) (fold_result f ys)"
  by (induction xs arbitrary: s) (auto simp: bind_result_def split: sum.splits)

lemma fold_result_cong:
  "(\<And>x. x \<in> set xs \<Longrightarrow> f x = g x) \<Longrightarrow> fold_result f xs = fold_result g xs"
proof (induction xs)
  case (Cons x xs)
  then have "fold_result f xs = fold_result g xs" by simp
  with Cons.prems show ?case by (intro ext) simp
qed (simp add: fun_eq_iff)

lemma fold_result_invariant:
  assumes "\<And>x s s'. x \<in> set xs \<Longrightarrow> P s \<Longrightarrow> f x s = Ok s' \<Longrightarrow> P s'"
    and "P s" and "fold_result f xs s = Ok s'"
  shows "P s'"
  using assms by (induction xs arbitrary: s) auto

section \<open>Arrays\<close>

text \<open>Reading or writing outside an array is undefined.\<close>

definition arr_get :: "'a list \<Rightarrow> nat \<Rightarrow> 'a result" where
  "arr_get xs i = (if i < length xs then Ok (xs ! i) else Stop Undefined)"

definition arr_set :: "'a list \<Rightarrow> nat \<Rightarrow> 'a \<Rightarrow> 'a list result" where
  "arr_set xs i v = (if i < length xs then Ok (xs[i := v]) else Stop Undefined)"

lemma arr_get_Ok [simp]: "arr_get xs i = Inr v \<longleftrightarrow> i < length xs \<and> v = xs ! i"
  by (auto simp: arr_get_def)

lemma arr_set_Ok [simp]: "arr_set xs i v = Inr ys \<longleftrightarrow> i < length xs \<and> ys = xs[i := v]"
  by (auto simp: arr_set_def)

section \<open>Byte images of integers\<close>

fun nat_le :: "nat \<Rightarrow> nat \<Rightarrow> bytes" where
  "nat_le 0 x = []"
| "nat_le (Suc n) x = word_of_nat x # nat_le n (x div 256)"

fun le_nat :: "bytes \<Rightarrow> nat" where
  "le_nat [] = 0"
| "le_nat (b # bs) = unat b + 256 * le_nat bs"

lemma length_nat_le [simp]: "length (nat_le n x) = n"
  by (induction n arbitrary: x) auto

lemma le_nat_bound: "le_nat bs < 256 ^ length bs"
proof (induction bs)
  case Nil
  then show ?case by simp
next
  case (Cons b bs)
  have "unat b < 256" using unsigned_less [of b, where ?'a = nat] by simp
  with Cons show ?case by simp
qed

lemma le_nat_nth: "k < length bs \<Longrightarrow> le_nat bs div 256 ^ k mod 256 = unat (bs ! k)"
proof (induction bs arbitrary: k)
  case Nil
  then show ?case by simp
next
  case (Cons b bs)
  have b: "unat b < 256" using unsigned_less [of b, where ?'a = nat] by simp
  show ?case
  proof (cases k)
    case 0
    then show ?thesis using b by simp
  next
    case (Suc j)
    have "(unat b + 256 * le_nat bs) div (256 * 256 ^ j) = le_nat bs div 256 ^ j"
      using b by (simp add: div_mult2_eq)
    then show ?thesis using Cons Suc by simp
  qed
qed

lemma le_nat_nat_le: "le_nat (nat_le n x) = x mod 256 ^ n"
proof (induction n arbitrary: x)
  case 0
  then show ?case by simp
next
  case (Suc n)
  have "le_nat (nat_le (Suc n) x) = x mod 256 + 256 * (x div 256 mod 256 ^ n)"
    by (simp add: Suc unat_of_nat)
  also have "\<dots> = x mod (256 * 256 ^ n)"
    by (simp add: mod_mult2_eq)
  finally show ?case by simp
qed

lemma nat_le_le_nat: "nat_le (length bs) (le_nat bs) = bs"
proof (induction bs)
  case Nil
  then show ?case by simp
next
  case (Cons b bs)
  have b: "unat b < 256" using unsigned_less [of b, where ?'a = nat] by simp
  then have "(unat b + 256 * le_nat bs) div 256 = le_nat bs" by simp
  moreover have "word_of_nat (unat b + 256 * le_nat bs) = b"
  proof -
    have "(256 :: u8) = 0" by simp
    then have "256 * word_of_nat (le_nat bs) = (0 :: u8)" by (metis mult_zero_left)
    then show ?thesis by simp
  qed
  ultimately show ?case using Cons by simp
qed

definition le16 :: "u16 \<Rightarrow> bytes" where "le16 w = nat_le 2 (unat w)"
definition le32 :: "u32 \<Rightarrow> bytes" where "le32 w = nat_le 4 (unat w)"
definition le64 :: "u64 \<Rightarrow> bytes" where "le64 w = nat_le 8 (unat w)"

definition un_le16 :: "bytes \<Rightarrow> u16" where "un_le16 bs = word_of_nat (le_nat (take 2 bs))"
definition un_le32 :: "bytes \<Rightarrow> u32" where "un_le32 bs = word_of_nat (le_nat (take 4 bs))"
definition un_le64 :: "bytes \<Rightarrow> u64" where "un_le64 bs = word_of_nat (le_nat (take 8 bs))"

lemma length_le [simp]: "length (le16 a) = 2" "length (le32 b) = 4" "length (le64 c) = 8"
  by (simp_all add: le16_def le32_def le64_def)

lemma un_le16_le16 [simp]: "un_le16 (le16 w @ rest) = w"
  using unsigned_less [of w, where ?'a = nat] by (simp add: un_le16_def le16_def le_nat_nat_le)

lemma un_le32_le32 [simp]: "un_le32 (le32 w @ rest) = w"
  using unsigned_less [of w, where ?'a = nat] by (simp add: un_le32_def le32_def le_nat_nat_le)

lemma un_le64_le64 [simp]: "un_le64 (le64 w @ rest) = w"
  using unsigned_less [of w, where ?'a = nat] by (simp add: un_le64_def le64_def le_nat_nat_le)

section \<open>Strings as bytes\<close>

definition str :: "string \<Rightarrow> bytes" where
  "str s = map of_char s"

lemma length_str [simp]: "length (str s) = length s"
  by (simp add: str_def)

section \<open>Words\<close>

lemma unat_u8_less [simp]: "unat (b :: u8) < 256"
  using unsigned_less [of b, where ?'a = nat] by simp

lemma word_and_mask_less:
  "unat (w AND 15 :: u32) < 16"
proof -
  have "w AND 15 \<le> (15 :: u32)" by (rule word_and_le1)
  then show ?thesis by (simp add: word_le_nat_alt)
qed

section \<open>Bit fields and packed structures\<close>

text \<open>Consecutive bit fields, the first one in the low bits: a list of widths and values.\<close>

fun pack_bits :: "(nat \<times> nat) list \<Rightarrow> nat" where
  "pack_bits [] = 0"
| "pack_bits ((w, v) # fs) = v + 2 ^ w * pack_bits fs"

fun unpack_bits :: "nat list \<Rightarrow> nat \<Rightarrow> nat list" where
  "unpack_bits [] n = []"
| "unpack_bits (w # ws) n = n mod 2 ^ w # unpack_bits ws (n div 2 ^ w)"

lemma unpack_pack: "\<forall>(w, v)\<in>set fs. v < 2 ^ w \<Longrightarrow> unpack_bits (map fst fs) (pack_bits fs) = map snd fs"
  by (induction fs rule: pack_bits.induct) auto

lemma pack_bits_less: "\<forall>(w, v)\<in>set fs. v < 2 ^ w \<Longrightarrow> pack_bits fs < 2 ^ sum_list (map fst fs)"
proof (induction fs rule: pack_bits.induct)
  case 1
  then show ?case by simp
next
  case (2 w v fs)
  have "pack_bits fs + 1 \<le> 2 ^ sum_list (map fst fs)" "v < 2 ^ w" using 2 by auto
  then have "2 ^ w * (pack_bits fs + 1) \<le> 2 ^ w * 2 ^ sum_list (map fst fs)" by (intro mult_le_mono2)
  then show ?case using \<open>v < 2 ^ w\<close> by (simp add: power_add)
qed

text \<open>Arrays of equally large elements, one image after the other.\<close>

definition enc_list :: "('a \<Rightarrow> bytes) \<Rightarrow> 'a list \<Rightarrow> bytes" where
  "enc_list enc xs = concat (map enc xs)"

fun dec_list :: "(bytes \<Rightarrow> 'a) \<Rightarrow> nat \<Rightarrow> nat \<Rightarrow> bytes \<Rightarrow> 'a list" where
  "dec_list dec sz 0 bs = []"
| "dec_list dec sz (Suc n) bs = dec bs # dec_list dec sz n (drop sz bs)"

text \<open>The contract of a type that is copied to and from a byte buffer by \<open>memcpy\<close>.\<close>

locale packed =
  fixes enc :: "'a \<Rightarrow> bytes" and dec :: "bytes \<Rightarrow> 'a" and sz :: nat
  assumes length_enc: "length (enc x) = sz"
    and dec_enc: "dec (enc x @ rest) = x"
begin

lemma enc_inject: "enc x = enc y \<Longrightarrow> x = y"
  using dec_enc [of x "[]"] dec_enc [of y "[]"] by simp

lemma length_enc_list: "length (enc_list enc xs) = sz * length xs"
  by (induction xs) (simp_all add: enc_list_def length_enc)

lemma dec_list_enc_list: "dec_list dec sz (length xs) (enc_list enc xs @ rest) = xs"
  by (induction xs) (simp_all add: enc_list_def dec_enc length_enc)

lemma drop_enc: "drop sz (enc x @ rest) = rest"
  by (simp add: length_enc)

end

interpretation word16: packed le16 un_le16 2
  by unfold_locales simp_all

interpretation word32: packed le32 un_le32 4
  by unfold_locales simp_all

interpretation word64: packed le64 un_le64 8
  by unfold_locales simp_all

end
