(* ===== verification/Core_Cpu.thy ===== *)
theory Core_Cpu
  imports Sherlock_Prelude
begin

text \<open>
  The processor model of the analysis core: \<open>tool/sherlock/src/core/core_cpu.c\<close> and
  \<open>tool/sherlock/include/core_cpu.h\<close>, in the configuration of the reverse debugger
  (\<open>REG_METADATA\<close> and \<open>CPU_METADATA\<close> of \<open>src/delorean/cfg.h\<close>: every register
  remembers the node of the execution graph that wrote it last). Pointers to nodes are
  natural numbers, the null pointer is \<open>None\<close>. The ARM register banks are arrays, and
  an index outside them is undefined.
\<close>

section \<open>Data\<close>

type_synonym node_ptr = "nat option"

record reg_t =
  r_data :: u32
  r_last_write :: node_ptr

definition ARM_CPU_MODE_USR :: u32 where "ARM_CPU_MODE_USR = 0x10"
definition ARM_CPU_MODE_FIQ :: u32 where "ARM_CPU_MODE_FIQ = 0x11"
definition ARM_CPU_MODE_IRQ :: u32 where "ARM_CPU_MODE_IRQ = 0x12"
definition ARM_CPU_MODE_SVC :: u32 where "ARM_CPU_MODE_SVC = 0x13"
definition ARM_CPU_MODE_ABT :: u32 where "ARM_CPU_MODE_ABT = 0x17"
definition ARM_CPU_MODE_UND :: u32 where "ARM_CPU_MODE_UND = 0x1b"
definition ARM_CPU_MODE_SYS :: u32 where "ARM_CPU_MODE_SYS = 0x1f"

lemmas arm_mode_defs =
  ARM_CPU_MODE_USR_def ARM_CPU_MODE_FIQ_def ARM_CPU_MODE_IRQ_def ARM_CPU_MODE_SVC_def
  ARM_CPU_MODE_ABT_def ARM_CPU_MODE_UND_def ARM_CPU_MODE_SYS_def

definition USER_REGS :: u32 where "USER_REGS = 0x10"
definition FIQ_MODE :: u32 where "FIQ_MODE = 0x20"
definition REGID_CPSR :: u32 where "REGID_CPSR = 0xFF"
definition REGID_SPSR :: u32 where "REGID_SPSR = 0xFE"
definition CPSR_MODE :: u32 where "CPSR_MODE = 0x1f"

lemmas regid_defs =
  USER_REGS_def FIQ_MODE_def REGID_CPSR_def REGID_SPSR_def CPSR_MODE_def

record cpu_t =
  c_comp_type :: u8
  c_id :: u8
  c_mode :: u32
  c_regs :: "reg_t list"
  c_cpsr :: reg_t
  c_spsr :: reg_t
  c_banked_spsr :: "reg_t list"
  c_banked_r13 :: "reg_t list"
  c_banked_r14 :: "reg_t list"
  c_usr_regs :: "reg_t list"
  c_fiq_regs :: "reg_t list"
  c_last_exec :: node_ptr
  c_next_exec :: node_ptr

record exec_reg_t =
  x_nreg :: u32
  x_id :: "u32 list"
  x_data :: "u32 list"

definition wf_cpu :: "cpu_t \<Rightarrow> bool" where
  "wf_cpu c \<longleftrightarrow> length (c_regs c) = 16 \<and> length (c_banked_spsr c) = 6
     \<and> length (c_banked_r13 c) = 6 \<and> length (c_banked_r14 c) = 6
     \<and> length (c_usr_regs c) = 5 \<and> length (c_fiq_regs c) = 5"

section \<open>Operations\<close>

definition zero_reg :: reg_t where
  "zero_reg = \<lparr>r_data = 0, r_last_write = None\<rparr>"

text \<open>\<open>cpu_create\<close>: a \<open>calloc\<close>ed processor in supervisor mode, with the device id of the event.\<close>

definition cpu_create :: "u8 \<Rightarrow> cpu_t" where
  "cpu_create devid =
     \<lparr>c_comp_type = 0, c_id = devid, c_mode = 0, c_regs = replicate 16 zero_reg,
      c_cpsr = zero_reg\<lparr>r_data := 0x400001C0 OR ARM_CPU_MODE_SVC\<rparr>, c_spsr = zero_reg,
      c_banked_spsr = replicate 6 zero_reg, c_banked_r13 = replicate 6 zero_reg,
      c_banked_r14 = replicate 6 zero_reg, c_usr_regs = replicate 5 zero_reg,
      c_fiq_regs = replicate 5 zero_reg, c_last_exec = None, c_next_exec = None\<rparr>"

text \<open>\<open>cpu_bank\<close> prints an error and returns \<open>-1\<close> (as a \<open>uint32_t\<close>) for an unknown mode.\<close>

definition cpu_bank :: "u32 \<Rightarrow> u32" where
  "cpu_bank mode =
     (if mode = ARM_CPU_MODE_USR \<or> mode = ARM_CPU_MODE_SYS then 0
      else if mode = ARM_CPU_MODE_SVC then 1
      else if mode = ARM_CPU_MODE_ABT then 2
      else if mode = ARM_CPU_MODE_UND then 3
      else if mode = ARM_CPU_MODE_IRQ then 4
      else if mode = ARM_CPU_MODE_FIQ then 5
      else - 1)"

text \<open>The two \<open>memcpy\<close>s of five registers from and to \<open>regs + 8\<close>.\<close>

definition get_r8_r12 :: "reg_t list \<Rightarrow> reg_t list" where
  "get_r8_r12 rs = take 5 (drop 8 rs)"

definition put_r8_r12 :: "reg_t list \<Rightarrow> reg_t list \<Rightarrow> reg_t list" where
  "put_r8_r12 blk rs = take 8 rs @ take 5 blk @ drop 13 rs"

definition set_data :: "u32 \<Rightarrow> reg_t \<Rightarrow> reg_t" where
  "set_data v r = r\<lparr>r_data := v\<rparr>"

definition arr_set_data :: "reg_t list \<Rightarrow> nat \<Rightarrow> u32 \<Rightarrow> reg_t list result" where
  "arr_set_data rs i v = bind_result (arr_get rs i) (\<lambda>r. arr_set rs i (set_data v r))"

text \<open>The FIQ block of \<open>switch_mode\<close>.\<close>

definition switch_fiq :: "u32 \<Rightarrow> u32 \<Rightarrow> cpu_t \<Rightarrow> cpu_t" where
  "switch_fiq old_mode mode cpu =
     (if old_mode = ARM_CPU_MODE_FIQ then
        cpu\<lparr>c_fiq_regs := get_r8_r12 (c_regs cpu),
            c_regs := put_r8_r12 (c_usr_regs cpu) (c_regs cpu)\<rparr>
      else if mode = ARM_CPU_MODE_FIQ then
        cpu\<lparr>c_usr_regs := get_r8_r12 (c_regs cpu),
            c_regs := put_r8_r12 (c_fiq_regs cpu) (c_regs cpu)\<rparr>
      else cpu)"

text \<open>Saving \<open>r13\<close>, \<open>r14\<close> and \<open>spsr\<close> in a bank: the data only, as in the source.\<close>

definition save_bank :: "nat \<Rightarrow> cpu_t \<Rightarrow> cpu_t result" where
  "save_bank bank cpu =
     bind_result (arr_get (c_regs cpu) 13) (\<lambda>r13.
     bind_result (arr_set_data (c_banked_r13 cpu) bank (r_data r13)) (\<lambda>b13.
     bind_result (arr_get (c_regs cpu) 14) (\<lambda>r14.
     bind_result (arr_set_data (c_banked_r14 cpu) bank (r_data r14)) (\<lambda>b14.
     bind_result (arr_set_data (c_banked_spsr cpu) bank (r_data (c_spsr cpu))) (\<lambda>bs.
       Ok (cpu\<lparr>c_banked_r13 := b13, c_banked_r14 := b14, c_banked_spsr := bs\<rparr>))))))"

text \<open>Loading them back: \<open>r13\<close> and \<open>r14\<close> the data only, \<open>spsr\<close> the whole register.\<close>

definition load_bank :: "nat \<Rightarrow> cpu_t \<Rightarrow> cpu_t result" where
  "load_bank bank cpu =
     bind_result (arr_get (c_banked_r13 cpu) bank) (\<lambda>b13.
     bind_result (arr_set_data (c_regs cpu) 13 (r_data b13)) (\<lambda>rs.
     bind_result (arr_get (c_banked_r14 cpu) bank) (\<lambda>b14.
     bind_result (arr_set_data rs 14 (r_data b14)) (\<lambda>rs'.
     bind_result (arr_get (c_banked_spsr cpu) bank) (\<lambda>bs.
       Ok (cpu\<lparr>c_regs := rs', c_spsr := bs\<rparr>))))))"

definition switch_mode :: "cpu_t \<Rightarrow> u32 \<Rightarrow> cpu_t result" where
  "switch_mode cpu mode =
     (let old_mode = r_data (c_cpsr cpu) AND CPSR_MODE in
      if mode = old_mode then Ok cpu
      else
        bind_result (save_bank (unat (cpu_bank (old_mode AND CPSR_MODE)))
                       (switch_fiq old_mode mode cpu))
          (load_bank (unat (cpu_bank (mode AND CPSR_MODE)))))"

text \<open>The body of the loop of \<open>cpu_exec\<close>, for one register of the instruction.\<close>

definition cpu_exec_reg :: "u32 \<Rightarrow> u32 \<Rightarrow> cpu_t \<Rightarrow> cpu_t result" where
  "cpu_exec_reg rid v cpu =
     (if rid < 16 then
        bind_result (arr_set_data (c_regs cpu) (unat rid) v) (\<lambda>rs. Ok (cpu\<lparr>c_regs := rs\<rparr>))
      else if rid = REGID_CPSR then
        bind_result (switch_mode cpu (v AND 0x1f))
          (\<lambda>cpu'. Ok (cpu'\<lparr>c_cpsr := set_data v (c_cpsr cpu')\<rparr>))
      else if rid = REGID_SPSR then Ok (cpu\<lparr>c_spsr := set_data v (c_spsr cpu)\<rparr>)
      else if rid AND USER_REGS \<noteq> 0 then
        (let reg_id = rid AND 0x0F in
         if reg_id = 13 then
           bind_result (arr_set_data (c_banked_r13 cpu) 0 v) (\<lambda>b. Ok (cpu\<lparr>c_banked_r13 := b\<rparr>))
         else if reg_id = 14 then
           bind_result (arr_set_data (c_banked_r14 cpu) 0 v) (\<lambda>b. Ok (cpu\<lparr>c_banked_r14 := b\<rparr>))
         else if 8 \<le> reg_id \<and> rid AND FIQ_MODE \<noteq> 0 then
           bind_result (arr_set_data (c_usr_regs cpu) (unat reg_id - 8) v)
             (\<lambda>b. Ok (cpu\<lparr>c_usr_regs := b\<rparr>))
         else
           bind_result (arr_set_data (c_regs cpu) (unat reg_id) v) (\<lambda>b. Ok (cpu\<lparr>c_regs := b\<rparr>)))
      else Ok cpu)"

fun cpu_exec_from :: "nat \<Rightarrow> nat \<Rightarrow> exec_reg_t \<Rightarrow> cpu_t \<Rightarrow> cpu_t result" where
  "cpu_exec_from i 0 regs cpu = Ok cpu"
| "cpu_exec_from i (Suc n) regs cpu =
     bind_result (arr_get (x_id regs) i) (\<lambda>rid.
     bind_result (arr_get (x_data regs) i) (\<lambda>v.
     bind_result (cpu_exec_reg rid v cpu) (cpu_exec_from (Suc i) n regs)))"

definition cpu_exec :: "cpu_t \<Rightarrow> exec_reg_t \<Rightarrow> cpu_t result" where
  "cpu_exec cpu regs = cpu_exec_from 0 (unat (x_nreg regs)) regs cpu"

section \<open>The banks\<close>

definition valid_mode :: "u32 \<Rightarrow> bool" where
  "valid_mode m \<longleftrightarrow> m \<in> {ARM_CPU_MODE_USR, ARM_CPU_MODE_FIQ, ARM_CPU_MODE_IRQ,
     ARM_CPU_MODE_SVC, ARM_CPU_MODE_ABT, ARM_CPU_MODE_UND, ARM_CPU_MODE_SYS}"

lemma valid_mode_mask: "valid_mode m \<Longrightarrow> m AND CPSR_MODE = m"
  by (auto simp: valid_mode_def arm_mode_defs CPSR_MODE_def)

lemma cpu_bank_valid: "valid_mode m \<longleftrightarrow> unat (cpu_bank m) < 6"
  by (auto simp: valid_mode_def cpu_bank_def arm_mode_defs unsigned_minus_1_eq_mask
      mask_eq_exp_minus_1)

lemma cpu_bank_invalid: "\<not> valid_mode m \<Longrightarrow> cpu_bank m = - 1"
  by (simp add: valid_mode_def cpu_bank_def)

lemma arr_set_data_eq [simp]:
  "i < length rs \<Longrightarrow> arr_set_data rs i v = Ok (rs[i := set_data v (rs ! i)])"
  by (simp add: arr_set_data_def arr_get_def arr_set_def)

lemma arr_set_data_out: "\<not> i < length rs \<Longrightarrow> arr_set_data rs i v = Stop Undefined"
  by (simp add: arr_set_data_def arr_get_def)

lemma set_data_simps [simp]:
  "r_data (set_data v r) = v" "r_last_write (set_data v r) = r_last_write r"
  "set_data v (set_data w r) = set_data v r"
  by (simp_all add: set_data_def)

lemma set_data_id: "set_data (r_data r) r = r"
  by (simp add: set_data_def)

lemma length_get_r8_r12 [simp]: "length rs = 16 \<Longrightarrow> length (get_r8_r12 rs) = 5"
  by (simp add: get_r8_r12_def)

lemma length_put_r8_r12 [simp]:
  "length rs = 16 \<Longrightarrow> length blk = 5 \<Longrightarrow> length (put_r8_r12 blk rs) = 16"
  by (simp add: put_r8_r12_def)

lemma nth_put_r8_r12:
  "length rs = 16 \<Longrightarrow> length blk = 5 \<Longrightarrow> i < 16 \<Longrightarrow>
     put_r8_r12 blk rs ! i = (if 8 \<le> i \<and> i < 13 then blk ! (i - 8) else rs ! i)"
  by (auto simp: put_r8_r12_def nth_append min_def)

lemma nth_get_r8_r12: "length rs = 16 \<Longrightarrow> i < 5 \<Longrightarrow> get_r8_r12 rs ! i = rs ! (i + 8)"
  by (simp add: get_r8_r12_def add.commute)

lemma wf_cpu_create: "wf_cpu (cpu_create devid)"
  by (simp add: wf_cpu_def cpu_create_def)

lemma wf_switch_fiq [simp]: "wf_cpu cpu \<Longrightarrow> wf_cpu (switch_fiq old m cpu)"
  by (simp add: wf_cpu_def switch_fiq_def)

lemma switch_fiq_frame [simp]:
  "c_cpsr (switch_fiq old m cpu) = c_cpsr cpu" "c_spsr (switch_fiq old m cpu) = c_spsr cpu"
  "c_banked_r13 (switch_fiq old m cpu) = c_banked_r13 cpu"
  "c_banked_r14 (switch_fiq old m cpu) = c_banked_r14 cpu"
  "c_banked_spsr (switch_fiq old m cpu) = c_banked_spsr cpu"
  by (simp_all add: switch_fiq_def)

definition saved :: "nat \<Rightarrow> cpu_t \<Rightarrow> cpu_t" where
  "saved b cpu = cpu
     \<lparr>c_banked_r13 := (c_banked_r13 cpu)[b := set_data (r_data (c_regs cpu ! 13)) (c_banked_r13 cpu ! b)],
      c_banked_r14 := (c_banked_r14 cpu)[b := set_data (r_data (c_regs cpu ! 14)) (c_banked_r14 cpu ! b)],
      c_banked_spsr := (c_banked_spsr cpu)[b := set_data (r_data (c_spsr cpu)) (c_banked_spsr cpu ! b)]\<rparr>"

definition loaded :: "nat \<Rightarrow> cpu_t \<Rightarrow> cpu_t" where
  "loaded b cpu = cpu
     \<lparr>c_regs := (c_regs cpu)[13 := set_data (r_data (c_banked_r13 cpu ! b)) (c_regs cpu ! 13),
                            14 := set_data (r_data (c_banked_r14 cpu ! b)) (c_regs cpu ! 14)],
      c_spsr := c_banked_spsr cpu ! b\<rparr>"

lemma save_bank_eq: "wf_cpu cpu \<Longrightarrow> b < 6 \<Longrightarrow> save_bank b cpu = Ok (saved b cpu)"
  by (simp add: save_bank_def wf_cpu_def saved_def arr_get_def)

lemma load_bank_eq: "wf_cpu cpu \<Longrightarrow> b < 6 \<Longrightarrow> load_bank b cpu = Ok (loaded b cpu)"
  by (simp add: load_bank_def wf_cpu_def loaded_def arr_get_def)

lemma save_bank_out: "wf_cpu cpu \<Longrightarrow> \<not> b < 6 \<Longrightarrow> save_bank b cpu = Stop Undefined"
  by (simp add: save_bank_def wf_cpu_def arr_get_def arr_set_data_out)

lemma load_bank_out: "wf_cpu cpu \<Longrightarrow> \<not> b < 6 \<Longrightarrow> load_bank b cpu = Stop Undefined"
  by (simp add: load_bank_def wf_cpu_def arr_get_def)

lemma wf_saved [simp]: "wf_cpu cpu \<Longrightarrow> wf_cpu (saved b cpu)"
  by (simp add: wf_cpu_def saved_def)

lemma wf_loaded [simp]: "wf_cpu cpu \<Longrightarrow> wf_cpu (loaded b cpu)"
  by (simp add: wf_cpu_def loaded_def)

section \<open>Changing mode\<close>

abbreviation cpu_mode :: "cpu_t \<Rightarrow> u32" where
  "cpu_mode cpu \<equiv> r_data (c_cpsr cpu) AND CPSR_MODE"

definition switched :: "u32 \<Rightarrow> cpu_t \<Rightarrow> cpu_t" where
  "switched m cpu = (if m = cpu_mode cpu then cpu
     else loaded (unat (cpu_bank m))
            (saved (unat (cpu_bank (cpu_mode cpu))) (switch_fiq (cpu_mode cpu) m cpu)))"

lemma switch_mode_eq:
  assumes "wf_cpu cpu" "valid_mode (cpu_mode cpu)" "valid_mode m"
  shows "switch_mode cpu m = Ok (switched m cpu)"
  using assms cpu_bank_valid [of m] cpu_bank_valid [of "cpu_mode cpu"]
  by (simp add: switch_mode_def switched_def Let_def save_bank_eq load_bank_eq valid_mode_mask)

lemma switch_mode_undefined:
  assumes "wf_cpu cpu" "m AND CPSR_MODE = m" "m \<noteq> cpu_mode cpu"
    "\<not> (valid_mode (cpu_mode cpu) \<and> valid_mode m)"
  shows "switch_mode cpu m = Stop Undefined"
proof (cases "valid_mode (cpu_mode cpu)")
  case True
  then have "unat (cpu_bank (cpu_mode cpu)) < 6" "\<not> unat (cpu_bank m) < 6"
    using assms(4) cpu_bank_valid by auto
  then show ?thesis
    using assms True by (simp add: switch_mode_def Let_def save_bank_eq load_bank_out valid_mode_mask)
next
  case False
  then have "\<not> unat (cpu_bank (cpu_mode cpu)) < 6"
    using cpu_bank_valid by auto
  then show ?thesis
    using assms by (simp add: switch_mode_def Let_def save_bank_out and.assoc)
qed

lemma wf_switched [simp]: "wf_cpu cpu \<Longrightarrow> wf_cpu (switched m cpu)"
  by (simp add: switched_def)

lemma loaded_frame [simp]: "c_cpsr (loaded b cpu) = c_cpsr cpu"
  by (simp add: loaded_def)

lemma saved_frame [simp]: "c_cpsr (saved b cpu) = c_cpsr cpu"
  by (simp add: saved_def)

lemma switched_cpsr [simp]: "c_cpsr (switched m cpu) = c_cpsr cpu"
  by (simp add: switched_def)

text \<open>The registers a program can name: the sixteen general ones and the saved status.\<close>

definition visible :: "cpu_t \<Rightarrow> u32 list \<times> u32" where
  "visible cpu = (map r_data (c_regs cpu), r_data (c_spsr cpu))"

lemma visible_eqI:
  assumes "length (c_regs a) = 16" "length (c_regs b) = 16"
    "\<And>i. i < 16 \<Longrightarrow> r_data (c_regs a ! i) = r_data (c_regs b ! i)"
    "r_data (c_spsr a) = r_data (c_spsr b)"
  shows "visible a = visible b"
  using assms by (auto simp: visible_def intro!: nth_equalityI)

lemma switched_back_regs:
  assumes "wf_cpu cpu" "valid_mode (cpu_mode cpu)" "valid_mode m" "m \<noteq> cpu_mode cpu" "i < 16"
    and c1: "c1 = switched m cpu\<lparr>c_cpsr := r\<rparr>" and r: "r_data r AND CPSR_MODE = m"
  shows "r_data (c_regs (switched (cpu_mode cpu) c1) ! i) = r_data (c_regs cpu ! i)"
proof -
  have b: "unat (cpu_bank m) < 6" "unat (cpu_bank (cpu_mode cpu)) < 6"
    using assms(2,3) cpu_bank_valid by auto
  have len: "length (c_regs cpu) = 16" "length (c_banked_r13 cpu) = 6" "length (c_banked_r14 cpu) = 6"
    "length (c_usr_regs cpu) = 5" "length (c_fiq_regs cpu) = 5"
    using assms(1) by (auto simp: wf_cpu_def)
  show ?thesis
    using b len assms(4,5) r
    by (auto simp: c1 switched_def loaded_def saved_def switch_fiq_def nth_list_update
        nth_put_r8_r12 nth_get_r8_r12)
qed

lemma switched_back_spsr:
  assumes "wf_cpu cpu" "valid_mode (cpu_mode cpu)" "valid_mode m" "m \<noteq> cpu_mode cpu"
    and c1: "c1 = switched m cpu\<lparr>c_cpsr := r\<rparr>" and r: "r_data r AND CPSR_MODE = m"
  shows "r_data (c_spsr (switched (cpu_mode cpu) c1)) = r_data (c_spsr cpu)"
proof -
  have b: "unat (cpu_bank m) < 6" "unat (cpu_bank (cpu_mode cpu)) < 6"
    using assms(2,3) cpu_bank_valid by auto
  have len: "length (c_banked_spsr cpu) = 6"
    using assms(1) by (auto simp: wf_cpu_def)
  show ?thesis
    using b len assms(4) r
    by (auto simp: c1 switched_def loaded_def saved_def nth_list_update)
qed

section \<open>Executing one register write\<close>

definition reg_ok :: "u32 \<Rightarrow> u32 \<Rightarrow> cpu_t \<Rightarrow> bool" where
  "reg_ok rid v cpu \<longleftrightarrow>
     (if rid = REGID_CPSR then
        v AND CPSR_MODE = cpu_mode cpu \<or> valid_mode (cpu_mode cpu) \<and> valid_mode (v AND CPSR_MODE)
      else \<not> (16 \<le> rid \<and> rid \<noteq> REGID_SPSR \<and> rid AND USER_REGS \<noteq> 0
                \<and> rid AND 0x0F = 15 \<and> rid AND FIQ_MODE \<noteq> 0))"

lemma reg_low_cases:
  fixes rid :: u32
  assumes "\<not> (rid AND 15 = 13)" "\<not> (rid AND 15 = 14)" "8 \<le> rid AND 15"
  shows "rid AND 15 = 15 \<or> unat (rid AND 15) - 8 < 5"
proof -
  have "unat (rid AND 15) < 16" "8 \<le> unat (rid AND 15)"
    using word_and_mask_less [of rid] assms(3) by (auto simp: word_le_nat_alt)
  moreover have "unat (rid AND 15) \<noteq> 13" "unat (rid AND 15) \<noteq> 14"
    using assms(1,2) by (auto simp: word_unat_eq_iff)
  ultimately show ?thesis
    by (auto simp: word_unat_eq_iff)
qed

lemma cpu_exec_reg_cpsr:
  assumes "wf_cpu cpu" "reg_ok REGID_CPSR v cpu"
  shows "cpu_exec_reg REGID_CPSR v cpu =
    Ok (switched (v AND CPSR_MODE) cpu\<lparr>c_cpsr := set_data v (c_cpsr cpu)\<rparr>)"
proof (cases "v AND CPSR_MODE = cpu_mode cpu")
  case True
  then show ?thesis
    by (simp add: cpu_exec_reg_def REGID_CPSR_def switch_mode_def switched_def Let_def
        CPSR_MODE_def)
next
  case False
  then show ?thesis
    using assms switch_mode_eq [of cpu "v AND CPSR_MODE"]
    by (simp add: cpu_exec_reg_def REGID_CPSR_def reg_ok_def CPSR_MODE_def)
qed

lemma cpu_exec_reg_ok:
  assumes "wf_cpu cpu" "reg_ok rid v cpu"
  shows "\<exists>cpu'. cpu_exec_reg rid v cpu = Ok cpu' \<and> wf_cpu cpu'
     \<and> c_cpsr cpu' = (if rid = REGID_CPSR then set_data v (c_cpsr cpu) else c_cpsr cpu)"
proof (cases "rid = REGID_CPSR")
  case True
  have "wf_cpu (switched (v AND CPSR_MODE) cpu)" using assms(1) by simp
  then show ?thesis
    using True assms cpu_exec_reg_cpsr [of cpu v] by (simp add: wf_cpu_def)
next
  case False
  then show ?thesis
    using assms reg_low_cases [of rid] word_and_mask_less [of rid]
    by (auto simp: cpu_exec_reg_def reg_ok_def wf_cpu_def Let_def word_less_nat_alt word_le_nat_alt not_less
        split: if_splits)
qed

lemma cpu_exec_reg_not_ok:
  assumes "wf_cpu cpu" "\<not> reg_ok rid v cpu"
  shows "cpu_exec_reg rid v cpu = Stop Undefined"
proof (cases "rid = REGID_CPSR")
  case True
  have "switch_mode cpu (v AND CPSR_MODE) = Stop Undefined"
    using assms True by (intro switch_mode_undefined) (auto simp: reg_ok_def and.assoc)
  then show ?thesis
    using True by (simp add: cpu_exec_reg_def REGID_CPSR_def CPSR_MODE_def)
next
  case False
  then show ?thesis
    using assms
    by (auto simp: cpu_exec_reg_def reg_ok_def wf_cpu_def Let_def not_less arr_set_data_out
        split: if_splits)
qed

section \<open>Executing an instruction\<close>

definition reg_writes :: "exec_reg_t \<Rightarrow> (u32 \<times> u32) list" where
  "reg_writes regs = take (unat (x_nreg regs)) (zip (x_id regs) (x_data regs))"

definition wf_exec_reg :: "exec_reg_t \<Rightarrow> bool" where
  "wf_exec_reg regs \<longleftrightarrow>
     unat (x_nreg regs) \<le> length (x_id regs) \<and> unat (x_nreg regs) \<le> length (x_data regs)"

lemma cpu_exec_from_fold:
  "i + n \<le> length (x_id regs) \<Longrightarrow> i + n \<le> length (x_data regs) \<Longrightarrow>
     cpu_exec_from i n regs cpu =
     fold_result (\<lambda>(rid, v). cpu_exec_reg rid v) (take n (drop i (zip (x_id regs) (x_data regs)))) cpu"
proof (induction n arbitrary: i cpu)
  case 0
  then show ?case by simp
next
  case (Suc n)
  have "drop i (zip (x_id regs) (x_data regs)) =
      (x_id regs ! i, x_data regs ! i) # drop (Suc i) (zip (x_id regs) (x_data regs))"
    using Suc.prems by (subst Cons_nth_drop_Suc [symmetric]) auto
  moreover have "cpu_exec_from (Suc i) n regs =
      fold_result (\<lambda>(rid, v). cpu_exec_reg rid v) (take n (drop (Suc i) (zip (x_id regs) (x_data regs))))"
    using Suc.IH [of "Suc i"] Suc.prems by (intro ext) simp
  ultimately show ?case
    using Suc.prems by (simp add: arr_get_def)
qed

lemma cpu_exec_fold:
  "wf_exec_reg regs \<Longrightarrow>
     cpu_exec cpu regs = fold_result (\<lambda>(rid, v). cpu_exec_reg rid v) (reg_writes regs) cpu"
  by (simp add: cpu_exec_def cpu_exec_from_fold wf_exec_reg_def reg_writes_def)

text \<open>The register writes the code can execute whatever the processor's mode.\<close>

definition safe_write :: "u32 \<times> u32 \<Rightarrow> bool" where
  "safe_write rv \<longleftrightarrow> (case rv of (rid, v) \<Rightarrow>
     if rid = REGID_CPSR then valid_mode (v AND CPSR_MODE)
     else \<not> (16 \<le> rid \<and> rid \<noteq> REGID_SPSR \<and> rid AND USER_REGS \<noteq> 0
                \<and> rid AND 0x0F = 15 \<and> rid AND FIQ_MODE \<noteq> 0))"

lemma reg_ok_safe: "valid_mode (cpu_mode cpu) \<Longrightarrow> reg_ok rid v cpu \<longleftrightarrow> safe_write (rid, v)"
  by (auto simp: reg_ok_def safe_write_def)

lemma fold_exec_safe:
  assumes "wf_cpu cpu" "valid_mode (cpu_mode cpu)"
  shows "if \<forall>w\<in>set ws. safe_write w
         then \<exists>cpu'. fold_result (\<lambda>(rid, v). cpu_exec_reg rid v) ws cpu = Ok cpu' \<and> wf_cpu cpu'
                 \<and> valid_mode (cpu_mode cpu')
         else fold_result (\<lambda>(rid, v). cpu_exec_reg rid v) ws cpu = Stop Undefined"
  using assms
proof (induction ws arbitrary: cpu)
  case Nil
  then show ?case by simp
next
  case (Cons w ws)
  obtain rid v where w: "w = (rid, v)" by (cases w)
  show ?case
  proof (cases "safe_write w")
    case True
    then obtain cpu' where *: "cpu_exec_reg rid v cpu = Ok cpu'" "wf_cpu cpu'"
        "c_cpsr cpu' = (if rid = REGID_CPSR then set_data v (c_cpsr cpu) else c_cpsr cpu)"
      using cpu_exec_reg_ok reg_ok_safe Cons.prems w by blast
    then have "valid_mode (cpu_mode cpu')"
      using True Cons.prems w by (auto simp: safe_write_def split: if_splits)
    then show ?thesis
      using Cons.IH [of cpu'] * True w by simp
  next
    case False
    then have "cpu_exec_reg rid v cpu = Stop Undefined"
      using cpu_exec_reg_not_ok Cons.prems reg_ok_safe w by blast
    then show ?thesis
      using False w by simp
  qed
qed

text \<open>C1: Executing the register list of an instruction on a well-formed processor in an
  architectural mode is defined exactly when every write of the list is one the register
  banks have room for (no change to a mode that is not architectural, no user-bank \<open>r15\<close>
  from FIQ mode); the processor is then well-formed and again in an architectural mode.\<close>

theorem cpu_exec_defined_iff:
  assumes "wf_cpu cpu" "valid_mode (cpu_mode cpu)" "wf_exec_reg regs"
  shows "if \<forall>w\<in>set (reg_writes regs). safe_write w
         then \<exists>cpu'. cpu_exec cpu regs = Ok cpu' \<and> wf_cpu cpu' \<and> valid_mode (cpu_mode cpu')
         else cpu_exec cpu regs = Stop Undefined"
  using fold_exec_safe [OF assms(1,2)] cpu_exec_fold [OF assms(3)] by simp

definition demo_regs :: exec_reg_t where
  "demo_regs = \<lparr>x_nreg = 3, x_id = [0, REGID_CPSR, 13], x_data = [7, ARM_CPU_MODE_IRQ, 0x8000]\<rparr>"

theorem cpu_exec_defined_iff_witness:
  "\<exists>cpu'. cpu_exec (cpu_create 0) demo_regs = Ok cpu' \<and> wf_cpu cpu' \<and> valid_mode (cpu_mode cpu')"
proof -
  have "valid_mode (cpu_mode (cpu_create 0))"
    by (simp add: valid_mode_def cpu_create_def zero_reg_def arm_mode_defs CPSR_MODE_def)
  moreover have "wf_exec_reg demo_regs" "\<forall>w\<in>set (reg_writes demo_regs). safe_write w"
    by (simp_all add: wf_exec_reg_def demo_regs_def reg_writes_def safe_write_def regid_defs
        arm_mode_defs valid_mode_def)
  ultimately show ?thesis
    using cpu_exec_defined_iff [of "cpu_create 0" demo_regs] wf_cpu_create by simp
qed

text \<open>C2: Mode changes keep the register banks apart. Writing a status word with another
  architectural mode and then the old status word gives back every register the program can
  see (\<open>r0\<close> to \<open>r15\<close>, the saved status) and the status register.\<close>

theorem mode_round_trip:
  assumes "wf_cpu cpu" "valid_mode (cpu_mode cpu)" "valid_mode (v AND CPSR_MODE)"
  shows "\<exists>c1 c2. cpu_exec_reg REGID_CPSR v cpu = Ok c1
    \<and> cpu_exec_reg REGID_CPSR (r_data (c_cpsr cpu)) c1 = Ok c2
    \<and> visible c2 = visible cpu \<and> c_cpsr c2 = c_cpsr cpu"
proof -
  define c1 where "c1 = switched (v AND CPSR_MODE) cpu\<lparr>c_cpsr := set_data v (c_cpsr cpu)\<rparr>"
  define c2 where "c2 = switched (cpu_mode cpu) c1\<lparr>c_cpsr := c_cpsr cpu\<rparr>"
  have wf: "wf_cpu c1" using assms(1) wf_switched [of cpu] by (simp add: c1_def wf_cpu_def)
  have m1: "cpu_mode c1 = v AND CPSR_MODE" by (simp add: c1_def)
  have e1: "cpu_exec_reg REGID_CPSR v cpu = Ok c1"
    using assms by (simp add: c1_def cpu_exec_reg_cpsr reg_ok_def)
  have e2: "cpu_exec_reg REGID_CPSR (r_data (c_cpsr cpu)) c1 = Ok c2"
    using assms wf m1 by (simp add: cpu_exec_reg_cpsr reg_ok_def) (simp add: c1_def c2_def set_data_id)
  have "visible (switched (cpu_mode cpu) c1) = visible cpu"
  proof (cases "v AND CPSR_MODE = cpu_mode cpu")
    case True
    then have "switched (cpu_mode cpu) c1 = c1" "visible c1 = visible cpu"
      using m1 by (simp_all add: switched_def c1_def visible_def)
    then show ?thesis by simp
  next
    case False
    have "length (c_regs (switched (cpu_mode cpu) c1)) = 16" "length (c_regs cpu) = 16"
      using wf_switched [OF wf] assms(1) by (simp_all add: wf_cpu_def)
    then show ?thesis
      using False assms
      by (intro visible_eqI) (simp_all add: switched_back_regs [OF _ _ _ _ _ c1_def]
          switched_back_spsr [OF _ _ _ _ c1_def])
  qed
  then have "visible c2 = visible cpu" by (simp add: c2_def visible_def)
  then show ?thesis using e1 e2 c2_def by auto
qed

theorem mode_round_trip_witness:
  "\<exists>c1 c2. cpu_exec_reg REGID_CPSR ARM_CPU_MODE_FIQ (cpu_create 0) = Ok c1
    \<and> cpu_exec_reg REGID_CPSR (r_data (c_cpsr (cpu_create 0))) c1 = Ok c2
    \<and> visible c2 = visible (cpu_create 0) \<and> c_cpsr c2 = c_cpsr (cpu_create 0)"
proof -
  have "valid_mode (cpu_mode (cpu_create 0))" "valid_mode (ARM_CPU_MODE_FIQ AND CPSR_MODE)"
    by (simp_all add: valid_mode_def cpu_create_def zero_reg_def arm_mode_defs CPSR_MODE_def)
  then show ?thesis
    using mode_round_trip [of "cpu_create 0" ARM_CPU_MODE_FIQ] wf_cpu_create by simp
qed

end
