(* ===== verification/Core_Mem.thy ===== *)
theory Core_Mem
  imports Sherlock_Prelude
begin

text \<open>
  The memory of the analysis core: the hash table of \<open>tool/sherlock/src/core/util_hash.c\<close>
  and the accesses of \<open>tool/sherlock/src/core/core_mem.c\<close>.

  The table is an array of 257 Judy arrays. Judy is a library outside the repository, so its
  operations are a parameter of the model (\<open>judy\<close>), with the documented behaviour of
  \<open>JLG\<close> and \<open>JLI\<close> as the hypothesis \<open>judy_ok\<close>. Items live in a heap of
  cells, a pointer to an item is the index of its cell. The metadata that a plugin keeps for each
  address is the type parameter of \<open>sl_addr_t\<close>. A cell has room for a whole \<open>item_t\<close>.
\<close>

section \<open>Data\<close>

record 'm sl_addr_t =
  sa_value :: u32
  sa_meta :: 'm

record 'm item_t =
  i_key :: u32
  i_data :: "'m sl_addr_t"

text \<open>The Judy operations: \<open>j_get\<close> is the content of the slot that \<open>JLG\<close> finds,
  \<open>j_put a k p\<close> the array after \<open>JLI\<close> of \<open>k\<close> and a store of \<open>p\<close> in the slot.\<close>

record 'j judy =
  j_null :: 'j
  j_get :: "'j \<Rightarrow> nat \<Rightarrow> nat option"
  j_put :: "'j \<Rightarrow> nat \<Rightarrow> nat \<Rightarrow> 'j"

definition judy_ok :: "'j judy \<Rightarrow> bool" where
  "judy_ok J \<longleftrightarrow> (\<forall>k. j_get J (j_null J) k = None)
     \<and> (\<forall>a k p k'. j_get J (j_put J a k p) k' = (if k = k' then Some p else j_get J a k'))"

record ('j, 'm) ht =
  ht_judy :: "'j judy"
  ht_zero :: 'm
  ht_table :: "'j list"
  ht_items :: "'m item_t list"

definition HASHSIZE :: nat where "HASHSIZE = 257"

section \<open>The hash table\<close>

definition ht_init :: "'j judy \<Rightarrow> 'm \<Rightarrow> ('j, 'm) ht" where
  "ht_init J z = \<lparr>ht_judy = J, ht_zero = z, ht_table = replicate HASHSIZE (j_null J), ht_items = []\<rparr>"

definition zero_addr :: "'m \<Rightarrow> 'm sl_addr_t" where
  "zero_addr z = \<lparr>sa_value = 0, sa_meta = z\<rparr>"

text \<open>\<open>ht_item_init\<close> callocs an item and its data (\<open>z\<close> is the all-zero metadata).\<close>

definition ht_item_init :: "'m \<Rightarrow> 'm item_t" where
  "ht_item_init z = \<lparr>i_key = 0, i_data = zero_addr z\<rparr>"

text \<open>\<open>ht_put\<close> followed by the store through the pointer it returns.\<close>

definition ht_put :: "u32 \<Rightarrow> nat \<Rightarrow> ('j, 'm) ht \<Rightarrow> ('j, 'm) ht" where
  "ht_put key p h = h\<lparr>ht_table := (ht_table h)[unat key mod HASHSIZE :=
     j_put (ht_judy h) (ht_table h ! (unat key mod HASHSIZE)) (unat key div HASHSIZE) p]\<rparr>"

definition ht_get :: "u32 \<Rightarrow> ('j, 'm) ht \<Rightarrow> nat \<times> ('j, 'm) ht" where
  "ht_get key h =
     (case j_get (ht_judy h) (ht_table h ! (unat key mod HASHSIZE)) (unat key div HASHSIZE) of
        Some p \<Rightarrow> (p, h)
      | None \<Rightarrow>
          (let p = length (ht_items h);
               h' = h\<lparr>ht_items := ht_items h @ [(ht_item_init (ht_zero h))\<lparr>i_key := key\<rparr>]\<rparr>
           in (p, ht_put key p h')))"

text \<open>Reading and writing through \<open>item->data\<close> of the item that \<open>ht_get\<close> returns.\<close>

definition ht_read :: "u32 \<Rightarrow> ('j, 'm) ht \<Rightarrow> 'm sl_addr_t \<times> ('j, 'm) ht" where
  "ht_read key h = (let (p, h') = ht_get key h in (i_data (ht_items h' ! p), h'))"

definition ht_modify :: "u32 \<Rightarrow> ('m sl_addr_t \<Rightarrow> 'm sl_addr_t) \<Rightarrow> ('j, 'm) ht \<Rightarrow> ('j, 'm) ht" where
  "ht_modify key f h =
     (let (p, h') = ht_get key h;
          item = ht_items h' ! p
      in h'\<lparr>ht_items := (ht_items h')[p := item\<lparr>i_data := f (i_data item)\<rparr>]\<rparr>)"

section \<open>Accesses\<close>

definition ALIGN_32BIT :: u32 where "ALIGN_32BIT = 3"
definition ALIGN_32BIT_SHIFT :: nat where "ALIGN_32BIT_SHIFT = 2"

definition mem_key :: "u32 \<Rightarrow> u32" where
  "mem_key addr = drop_bit ALIGN_32BIT_SHIFT addr"

text \<open>The new value of the word, on both branches of \<open>mem_exec\<close>. \<open>d\<close> is the
  32-bit load from \<open>data\<close>.\<close>

definition mem_merge :: "u32 \<Rightarrow> u32 \<Rightarrow> u32 \<Rightarrow> u32 \<Rightarrow> u32" where
  "mem_merge addr width d v =
     (if addr AND ALIGN_32BIT = 0 then
        (let mask = (if width = 1 then NOT 0xFF else if width = 2 then NOT 0xFFFF
                     else if width = 3 then NOT 0xFFFFFF else 0)
         in (v AND mask) OR (d AND NOT mask))
      else
        (let byte = unat (addr AND ALIGN_32BIT);
             mask = (if width = 1 then NOT (push_bit (8 * byte) 0xFF)
                     else if width = 2 then NOT (push_bit (8 * byte) 0xFFFF)
                     else if width = 3 then NOT (push_bit (4 * byte) 0xFFFFFF)
                     else 0);
             tmp = push_bit (8 * byte) d AND NOT mask
         in (v AND mask) OR tmp))"

definition mem_exec :: "u32 \<Rightarrow> bytes \<Rightarrow> u32 \<Rightarrow> ('j, 'm) ht \<Rightarrow> ('j, 'm) ht result" where
  "mem_exec addr data width h =
     (if length data < 4 then Stop Undefined
      else Ok (ht_modify (mem_key addr)
             (\<lambda>a. a\<lparr>sa_value := mem_merge addr width (un_le32 data) (sa_value a)\<rparr>) h))"

definition mem_get_addr :: "u32 \<Rightarrow> ('j, 'm) ht \<Rightarrow> 'm sl_addr_t \<times> ('j, 'm) ht" where
  "mem_get_addr addr h = ht_read addr h"

definition mem_get_addr_value :: "u32 \<Rightarrow> ('j, 'm) ht \<Rightarrow> u32 \<times> ('j, 'm) ht" where
  "mem_get_addr_value addr h = (let (a, h') = ht_read addr h in (sa_value a, h'))"

text \<open>\<open>mem_create\<close> reads the file \<open>mem_init\<close>. Its contents are an argument:
  \<open>None\<close> when it cannot be opened, else the number of sections and, for each header that
  \<open>fscanf\<close> reads, its fields and the buffer after \<open>malloc\<close> and \<open>fread\<close>. The
  remaining fields of the \<open>malloc\<close>ed device keep the contents \<open>junk\<close>.\<close>

record mem_t =
  m_id :: u32
  m_last_exec :: "nat option"
  m_next_exec :: "nat option"

record section_t =
  sec_cur :: u32
  sec_size :: u32
  sec_ofs :: u32
  sec_buf :: bytes

fun fill_section :: "u32 \<Rightarrow> bytes \<Rightarrow> ('j, 'm) ht \<Rightarrow> ('j, 'm) ht" where
  "fill_section a [] h = h"
| "fill_section a (b # bs) h =
     fill_section (a + 1) bs (if b \<noteq> 0 then ht_modify a (\<lambda>d. d\<lparr>sa_value := ucast b\<rparr>) h else h)"

fun load_sections :: "nat \<Rightarrow> section_t list \<Rightarrow> ('j, 'm) ht \<Rightarrow> ('j, 'm) ht result" where
  "load_sections 0 ss h = Ok h"
| "load_sections (Suc n) [] h = Stop (Exit 1)"
| "load_sections (Suc n) (s # ss) h =
     (if length (sec_buf s) < unat (sec_size s) then Stop Undefined
      else load_sections n ss
             (fill_section (sec_ofs s) (take (unat (sec_size s)) (sec_buf s)) h))"

definition mem_create ::
  "u8 \<Rightarrow> mem_t \<Rightarrow> (u32 \<times> section_t list) option \<Rightarrow> ('j, 'm) ht \<Rightarrow> (mem_t \<times> ('j, 'm) ht) result" where
  "mem_create devid junk file h =
     (case file of None \<Rightarrow> Stop (Exit 1)
      | Some (n, ss) \<Rightarrow>
          bind_result (load_sections (unat n) ss h) (\<lambda>h'. Ok (junk\<lparr>m_id := ucast devid\<rparr>, h')))"

section \<open>The table implements a memory\<close>

definition ht_lookup :: "('j, 'm) ht \<Rightarrow> u32 \<Rightarrow> nat option" where
  "ht_lookup h key = j_get (ht_judy h) (ht_table h ! (unat key mod HASHSIZE)) (unat key div HASHSIZE)"

definition ht_wf :: "('j, 'm) ht \<Rightarrow> bool" where
  "ht_wf h \<longleftrightarrow> judy_ok (ht_judy h) \<and> length (ht_table h) = HASHSIZE
     \<and> (\<forall>key p. ht_lookup h key = Some p \<longrightarrow> p < length (ht_items h) \<and> i_key (ht_items h ! p) = key)"

text \<open>The contents of an address: zero until the first access creates its item.\<close>

definition ht_abs :: "('j, 'm) ht \<Rightarrow> u32 \<Rightarrow> 'm sl_addr_t" where
  "ht_abs h key = (case ht_lookup h key of None \<Rightarrow> zero_addr (ht_zero h)
                    | Some p \<Rightarrow> i_data (ht_items h ! p))"

lemma key_split:
  "unat (k :: u32) mod HASHSIZE = unat k' mod HASHSIZE \<and> unat k div HASHSIZE = unat k' div HASHSIZE
     \<longleftrightarrow> k = k'"
  by (metis word_unat_eq_iff div_mult_mod_eq)

lemma ht_lookup_put:
  assumes "judy_ok (ht_judy h)" "length (ht_table h) = HASHSIZE"
  shows "ht_lookup (ht_put key p h) key' = (if key = key' then Some p else ht_lookup h key')"
proof (cases "unat key mod HASHSIZE = unat key' mod HASHSIZE")
  case True
  have "unat key' mod HASHSIZE < length (ht_table h)" using assms by (simp add: HASHSIZE_def)
  then show ?thesis
    using True assms key_split [of key key'] by (simp add: ht_lookup_def ht_put_def judy_ok_def)
next
  case False
  then show ?thesis by (auto simp: ht_lookup_def ht_put_def)
qed

lemma ht_lookup_frame [simp]: "ht_lookup (h\<lparr>ht_items := xs\<rparr>) key = ht_lookup h key"
  by (simp add: ht_lookup_def)

lemma ht_put_frame [simp]:
  "ht_judy (ht_put key p h) = ht_judy h" "ht_zero (ht_put key p h) = ht_zero h"
  "ht_items (ht_put key p h) = ht_items h" "length (ht_table (ht_put key p h)) = length (ht_table h)"
  by (simp_all add: ht_put_def)

lemma ht_init_wf: "judy_ok J \<Longrightarrow> ht_wf (ht_init J z)"
  by (simp add: ht_wf_def ht_init_def ht_lookup_def judy_ok_def HASHSIZE_def)

lemma ht_init_abs: "judy_ok J \<Longrightarrow> ht_abs (ht_init J z) key = zero_addr z"
  by (simp add: ht_abs_def ht_init_def ht_lookup_def judy_ok_def HASHSIZE_def)

lemma ht_get_spec:
  assumes wf: "ht_wf h" and get: "ht_get key h = (p, h')"
  shows "ht_wf h'" "ht_abs h' = ht_abs h" "ht_lookup h' key = Some p" "ht_judy h' = ht_judy h"
    "ht_zero h' = ht_zero h"
proof -
  have J: "judy_ok (ht_judy h)" "length (ht_table h) = HASHSIZE"
    using wf by (auto simp: ht_wf_def)
  have "ht_wf h' \<and> ht_abs h' = ht_abs h \<and> ht_lookup h' key = Some p \<and> ht_judy h' = ht_judy h
      \<and> ht_zero h' = ht_zero h"
  proof (cases "ht_lookup h key")
    case None
    define g where "g = h\<lparr>ht_items := ht_items h @ [(ht_item_init (ht_zero h))\<lparr>i_key := key\<rparr>]\<rparr>"
    have eq: "p = length (ht_items h)" "h' = ht_put key p g"
      using get None by (auto simp: ht_get_def ht_lookup_def g_def Let_def)
    have look: "ht_lookup h' k = (if key = k then Some p else ht_lookup h k)" for k
      using eq J ht_lookup_put [of g key p k] by (simp add: g_def)
    have "ht_wf h'"
      using wf look eq unfolding ht_wf_def by (auto simp: g_def nth_append less_SucI)
    moreover have "ht_abs h' k = ht_abs h k" for k
      using look None eq wf
      by (auto simp: ht_abs_def ht_wf_def g_def ht_item_init_def nth_append split: option.splits)
    ultimately show ?thesis
      using look eq by (auto simp: g_def)
  next
    case (Some q)
    then show ?thesis
      using get wf by (simp add: ht_get_def ht_lookup_def)
  qed
  then show "ht_wf h'" "ht_abs h' = ht_abs h" "ht_lookup h' key = Some p" "ht_judy h' = ht_judy h"
    "ht_zero h' = ht_zero h" by auto
qed

lemma ht_modify_wf: "ht_wf h \<Longrightarrow> ht_wf (ht_modify key f h)"
  using ht_get_spec [of h key "fst (ht_get key h)" "snd (ht_get key h)"]
  by (auto simp: ht_modify_def Let_def ht_wf_def nth_list_update split: prod.splits)

lemma ht_modify_abs:
  assumes "ht_wf h"
  shows "ht_abs (ht_modify key f h) = (ht_abs h)(key := f (ht_abs h key))"
proof -
  obtain p h' where g: "ht_get key h = (p, h')" by fastforce
  note spec = ht_get_spec [OF assms g]
  have inj: "ht_lookup h' k \<noteq> Some p" if "k \<noteq> key" for k
    using spec(1,3) that by (auto simp: ht_wf_def)
  have "p < length (ht_items h')" using spec(1,3) by (simp add: ht_wf_def)
  then have "ht_abs (ht_modify key f h) k = (if k = key then f (ht_abs h' key) else ht_abs h' k)" for k
    using g spec(3) inj [of k]
    by (cases "k = key"; cases "ht_lookup h' k")
      (auto simp: ht_modify_def ht_abs_def Let_def nth_list_update)
  then show ?thesis using spec(2) by auto
qed

lemma ht_read_spec:
  assumes "ht_wf h" "ht_read key h = (a, h')"
  shows "a = ht_abs h key" "ht_wf h'" "ht_abs h' = ht_abs h"
proof -
  obtain p g where g: "ht_get key h = (p, g)" by fastforce
  note spec = ht_get_spec [OF assms(1) g]
  have "h' = g" "a = i_data (ht_items g ! p)" using assms(2) g by (auto simp: ht_read_def)
  then show "ht_wf h'" "ht_abs h' = ht_abs h" using spec by auto
  have "a = ht_abs g key" using spec(3) \<open>a = _\<close> by (simp add: ht_abs_def)
  then show "a = ht_abs h key" using spec(2) by simp
qed

text \<open>The interface of a memory that is accessed by key. Clients of the table use these laws only.\<close>

locale addr_store =
  fixes inv :: "'s \<Rightarrow> bool"
    and peek :: "'s \<Rightarrow> u32 \<Rightarrow> 'm sl_addr_t"
    and poke :: "u32 \<Rightarrow> ('m sl_addr_t \<Rightarrow> 'm sl_addr_t) \<Rightarrow> 's \<Rightarrow> 's"
  assumes inv_poke: "inv s \<Longrightarrow> inv (poke k f s)"
    and peek_poke: "inv s \<Longrightarrow> peek (poke k f s) = (peek s)(k := f (peek s k))"
begin

lemma fold_inv: "inv s \<Longrightarrow> inv (fold (\<lambda>x. poke (k x) (f x)) xs s)"
  by (induction xs arbitrary: s) (auto simp: inv_poke)

lemma peek_fold:
  "inv s \<Longrightarrow> peek (fold (\<lambda>x. poke (k x) (f x)) xs s) =
     fold (\<lambda>x m. m(k x := f x (m (k x)))) xs (peek s)"
  by (induction xs arbitrary: s) (auto simp: inv_poke peek_poke)

lemma peek_fold_notin:
  "inv s \<Longrightarrow> a \<notin> k ` set xs \<Longrightarrow> peek (fold (\<lambda>x. poke (k x) (f x)) xs s) a = peek s a"
  by (induction xs arbitrary: s) (auto simp: inv_poke peek_poke)

end

interpretation hash_table: addr_store ht_wf ht_abs ht_modify
  by unfold_locales (simp_all add: ht_modify_wf ht_modify_abs)

section \<open>Bytes of a word\<close>

definition wbyte :: "u32 \<Rightarrow> nat \<Rightarrow> u8" where
  "wbyte w k = ucast (drop_bit (8 * k) w)"

lemma bit_wbyte: "k < 4 \<Longrightarrow> bit (wbyte w k) n \<longleftrightarrow> n < 8 \<and> bit w (8 * k + n)"
  by (auto simp: wbyte_def bit_simps)

lemma wbyte_eqI: "k < 4 \<Longrightarrow> (\<And>n. n < 8 \<Longrightarrow> bit v (8 * k + n) = bit (w :: u32) (8 * j + n)) \<Longrightarrow> j < 4
    \<Longrightarrow> wbyte v k = wbyte w j"
  by (rule bit_word_eqI) (simp add: bit_wbyte)

lemma byte_masks:
  "(0xFF :: u32) = mask 8" "(0xFFFF :: u32) = mask 16" "(0xFFFFFF :: u32) = mask 24"
  by (simp_all add: mask_eq_exp_minus_1)

text \<open>The accesses that the traces contain: one, two or four bytes, inside a word. Three bytes
  are right at the start of a word only.\<close>

definition access_ok :: "u32 \<Rightarrow> u32 \<Rightarrow> bool" where
  "access_ok addr width \<longleftrightarrow> (if addr AND ALIGN_32BIT = 0 then width \<in> {1, 2, 3, 4}
     else width = 1 \<or> width = 2 \<and> addr AND ALIGN_32BIT \<noteq> 3)"

lemma low_cases:
  fixes addr :: u32
  shows "addr AND 3 = 0 \<or> addr AND 3 = 1 \<or> addr AND 3 = 2 \<or> addr AND 3 = 3"
proof -
  have "addr AND 3 \<le> 3" by (rule word_and_le1)
  then have "unat (addr AND 3) \<le> 3" by (simp add: word_le_nat_alt)
  then have "unat (addr AND 3) \<in> {0, 1, 2, 3}" by auto
  then show ?thesis by (auto simp: word_unat_eq_iff)
qed

lemma bit_mem_merge:
  assumes "access_ok addr width" "n < 32" "b = unat (addr AND ALIGN_32BIT)"
  shows "bit (mem_merge addr width d v) n =
    (if 8 * b \<le> n \<and> n < 8 * (b + unat width) then bit d (n - 8 * b) else bit v n)"
  using assms low_cases [of addr]
  by (auto simp: access_ok_def mem_merge_def Let_def byte_masks ALIGN_32BIT_def bit_simps)

lemma wbyte_mem_merge:
  assumes "access_ok addr width" "k < 4" and b: "b = unat (addr AND ALIGN_32BIT)"
  shows "wbyte (mem_merge addr width d v) k =
    (if b \<le> k \<and> k < b + unat width then wbyte d (k - b) else wbyte v k)"
proof -
  have *: "8 * b \<le> 8 * k + n \<and> 8 * k + n < 8 * (b + unat width) \<longleftrightarrow> b \<le> k \<and> k < b + unat width"
    if "n < 8" for n using that by auto
  show ?thesis
    using assms(2) * bit_mem_merge [OF assms(1) _ b, of _ d v]
    by (auto intro!: wbyte_eqI simp: diff_mult_distrib2 algebra_simps)
qed

lemma unat_wbyte: "unat (wbyte w k) = unat w div 256 ^ k mod 256"
proof -
  have "take_bit 32 (unat w) = unat w"
    using unsigned_less [of w, where ?'a = nat] by (intro take_bit_nat_eq_self) simp
  then have "unat (wbyte w k) = take_bit 8 (drop_bit (8 * k) (unat w))"
    by (simp add: wbyte_def unsigned_ucast_eq unsigned_drop_bit_eq)
  then show ?thesis by (simp add: take_bit_eq_mod drop_bit_eq_div power_mult)
qed

lemma wbyte_un_le32: "4 \<le> length bs \<Longrightarrow> k < 4 \<Longrightarrow> wbyte (un_le32 bs) k = bs ! k"
proof -
  assume len: "4 \<le> length bs" and k: "k < 4"
  have "length (take 4 bs) = 4" using len by simp
  then have "le_nat (take 4 bs) < 4294967296"
    using le_nat_bound [of "take 4 bs"] by simp
  then have "unat (un_le32 bs) = le_nat (take 4 bs)"
    by (simp add: un_le32_def unat_of_nat)
  then have "unat (wbyte (un_le32 bs) k) = unat (take 4 bs ! k)"
    using le_nat_nth [of k "take 4 bs"] len k by (simp add: unat_wbyte)
  then show ?thesis using k by (simp add: word_unat_eq_iff)
qed

lemma mem_key_unat: "unat (mem_key a) = unat a div 4"
  by (simp add: mem_key_def ALIGN_32BIT_SHIFT_def drop_bit_eq_div unat_div)

lemma low_unat: "unat (a AND ALIGN_32BIT) = unat a mod 4"
proof -
  have "a AND 3 = take_bit 2 a" by (simp add: take_bit_eq_mask mask_eq_exp_minus_1)
  then show ?thesis by (simp add: ALIGN_32BIT_def take_bit_eq_mod unat_mod)
qed

lemma access_ok_width: "access_ok addr width \<Longrightarrow> unat addr mod 4 + unat width \<le> 4"
  using low_cases [of addr] low_unat [of addr]
  by (auto simp: access_ok_def ALIGN_32BIT_def split: if_splits)

lemma in_access:
  assumes "access_ok addr width"
  shows "unat (a - addr) < unat width \<longleftrightarrow>
    mem_key a = mem_key addr \<and> unat addr mod 4 \<le> unat a mod 4 \<and> unat a mod 4 < unat addr mod 4 + unat width"
    (is "?l \<longleftrightarrow> ?r")
proof -
  define q r q' r' where "q = unat a div 4" "r = unat a mod 4" "q' = unat addr div 4" "r' = unat addr mod 4"
  note d = this
  have a: "unat a = 4 * q + r" "unat addr = 4 * q' + r'" "r < 4" "r' < 4" by (simp_all add: d)
  have w: "r' + unat width \<le> 4" using access_ok_width [OF assms] by (simp add: d)
  have lt: "unat addr < 4 * 1073741824" "unat a < 4 * 1073741824"
    using unsigned_less [of addr, where ?'a = nat] unsigned_less [of a, where ?'a = nat] by simp_all
  have "q' < 1073741824" using lt(1) by (simp add: d)
  then have "\<not> 4 * q + r + 4294967296 - (4 * q' + r') < unat width"
    using w by linarith
  moreover have k: "mem_key a = mem_key addr \<longleftrightarrow> q = q'"
    by (simp add: word_unat_eq_iff mem_key_unat d)
  moreover have "unat (a - addr) = (if unat addr \<le> unat a then unat a - unat addr else unat a + 4294967296 - unat addr)"
    by (simp add: unat_sub_if' word_le_nat_alt)
  ultimately show ?thesis
    unfolding k d(2,4) [symmetric] using w lt a by (cases q q' rule: linorder_cases) auto
qed

section \<open>What an access does\<close>

text \<open>The byte that memory holds at an address, for the accesses of the trace.\<close>

definition mem_byte :: "('j, 'm) ht \<Rightarrow> u32 \<Rightarrow> u8" where
  "mem_byte h a = wbyte (sa_value (ht_abs h (mem_key a))) (unat (a AND ALIGN_32BIT))"

text \<open>C3: A store of one, two or four bytes inside a word writes these bytes at consecutive
  addresses and leaves every other byte of memory as it was, whatever the hash table had
  created before.\<close>

theorem mem_exec_bytes:
  assumes "ht_wf h" "access_ok addr width" "4 \<le> length data"
  shows "\<exists>h'. mem_exec addr data width h = Ok h' \<and> ht_wf h' \<and>
    (\<forall>a. mem_byte h' a = (if unat (a - addr) < unat width then data ! unat (a - addr) else mem_byte h a))"
proof -
  define h' where "h' = ht_modify (mem_key addr)
    (\<lambda>d. d\<lparr>sa_value := mem_merge addr width (un_le32 data) (sa_value d)\<rparr>) h"
  have abs: "sa_value (ht_abs h' k) = (if k = mem_key addr
      then mem_merge addr width (un_le32 data) (sa_value (ht_abs h k)) else sa_value (ht_abs h k))" for k
    using assms(1) by (simp add: h'_def hash_table.peek_poke)
  have "mem_byte h' a = (if unat (a - addr) < unat width then data ! unat (a - addr) else mem_byte h a)" for a
  proof (cases "mem_key a = mem_key addr")
    case True
    have "unat (a - addr) = unat a mod 4 - unat addr mod 4" if "unat (a - addr) < unat width"
    proof -
      have "unat addr mod 4 \<le> unat a mod 4" "unat a div 4 = unat addr div 4"
        using that in_access [OF assms(2)] True by (auto simp: mem_key_unat [symmetric])
      then have "unat addr \<le> unat a" "unat a - unat addr = unat a mod 4 - unat addr mod 4"
        by (metis add_mono_thms_linordered_semiring(2) div_mult_mod_eq, metis diff_add_inverse2
            add_diff_cancel_left div_mult_mod_eq)
      then show ?thesis by (simp add: unat_sub word_le_nat_alt)
    qed
    then show ?thesis
      using True abs in_access [OF assms(2), of a] access_ok_width [OF assms(2)] assms(3)
      by (auto simp: mem_byte_def wbyte_mem_merge [OF assms(2) _ refl] low_unat wbyte_un_le32)
  next
    case False
    then show ?thesis
      using abs in_access [OF assms(2), of a] by (simp add: mem_byte_def)
  qed
  then show ?thesis
    using assms(1,3) by (simp add: mem_exec_def h'_def hash_table.inv_poke)
qed

definition judy_map :: "(nat \<rightharpoonup> nat) judy" where
  "judy_map = \<lparr>j_null = Map.empty, j_get = (\<lambda>m k. m k), j_put = (\<lambda>m k p. m(k \<mapsto> p))\<rparr>"

lemma judy_map_ok: "judy_ok judy_map"
  by (simp add: judy_ok_def judy_map_def)

theorem mem_exec_bytes_witness:
  "\<exists>h'. mem_exec 0x1002 [0xAB, 0xCD, 0, 0] 2 (ht_init judy_map ()) = Ok h' \<and> ht_wf h' \<and>
    mem_byte h' 0x1002 = 0xAB \<and> mem_byte h' 0x1003 = 0xCD \<and> mem_byte h' 0x1001 = 0"
proof -
  have "access_ok 0x1002 2" by (simp add: access_ok_def ALIGN_32BIT_def)
  moreover have "mem_byte (ht_init judy_map ()) 0x1001 = 0"
    by (simp add: mem_byte_def ht_init_abs judy_map_ok zero_addr_def wbyte_def)
  moreover obtain h' where "mem_exec 0x1002 [0xAB, 0xCD, 0, 0] 2 (ht_init judy_map ()) = Ok h'" "ht_wf h'"
    "\<And>a. mem_byte h' a = (if unat (a - 0x1002) < 2 then [0xAB, 0xCD, 0, 0] ! unat (a - 0x1002)
            else mem_byte (ht_init judy_map ()) a)"
    using \<open>access_ok 0x1002 2\<close> mem_exec_bytes [where h = "ht_init judy_map ()" and addr = "0x1002" and width = 2
        and data = "[0xAB, 0xCD, 0, 0]"]
      by (auto simp: ht_init_wf judy_map_ok)
  ultimately show ?thesis
    by (simp add: unsigned_minus_1_eq_mask mask_eq_exp_minus_1)
qed

section \<open>Refinement of a plain memory\<close>

text \<open>The memory without hash table, items and Judy arrays: a function from keys.\<close>

definition amem_exec :: "u32 \<Rightarrow> bytes \<Rightarrow> u32 \<Rightarrow> (u32 \<Rightarrow> 'm sl_addr_t) \<Rightarrow> (u32 \<Rightarrow> 'm sl_addr_t) result" where
  "amem_exec addr data width m =
     (if length data < 4 then Stop Undefined
      else Ok (m(mem_key addr := (m (mem_key addr))
             \<lparr>sa_value := mem_merge addr width (un_le32 data) (sa_value (m (mem_key addr)))\<rparr>)))"

text \<open>C4: The hash table of Judy arrays is a memory: an access through the table is the access
  to a plain function from keys to contents, a lookup returns its contents and changes nothing
  that a later lookup can see (an absent key reads as zero).\<close>

theorem mem_exec_refines:
  assumes "ht_wf h"
  shows "bind_result (mem_exec addr data width h) (\<lambda>h'. Ok (ht_abs h')) = amem_exec addr data width (ht_abs h)
    \<and> fst (mem_get_addr addr h) = ht_abs h addr
    \<and> fst (mem_get_addr_value addr h) = sa_value (ht_abs h addr)
    \<and> ht_abs (snd (mem_get_addr addr h)) = ht_abs h \<and> ht_abs (snd (mem_get_addr_value addr h)) = ht_abs h"
proof -
  obtain a h' where r: "ht_read addr h = (a, h')" by fastforce
  note ht_read_spec [OF assms r]
  then show ?thesis
    using assms r by (simp add: mem_exec_def amem_exec_def mem_get_addr_def mem_get_addr_value_def
        hash_table.peek_poke)
qed

theorem mem_exec_refines_witness:
  "fst (mem_get_addr_value 0x400 (ht_init judy_map ())) = 0"
  using mem_exec_refines [OF ht_init_wf [OF judy_map_ok], of "0x400" "[]" 1 "()"]
  by (simp add: ht_init_abs judy_map_ok zero_addr_def)

lemma get_addr_value_abs: "ht_wf h \<Longrightarrow> fst (mem_get_addr_value k h) = sa_value (ht_abs h k)"
  using ht_read_spec(1) [of h k "fst (ht_read k h)" "snd (ht_read k h)"]
  by (simp add: mem_get_addr_value_def split_beta Let_def)

section \<open>The initial image\<close>

lemma fill_section_wf: "ht_wf h \<Longrightarrow> ht_wf (fill_section a bs h)"
  by (induction a bs h rule: fill_section.induct) (simp_all add: hash_table.inv_poke)

lemma unat_minus_Suc: "k \<noteq> a \<Longrightarrow> unat (k - a) = Suc (unat (k - (a + 1 :: u32)))"
proof -
  assume "k \<noteq> a"
  then have "k - a \<noteq> 0" by simp
  then have "unat (k - a) = Suc (unat (k - a - 1))" by (simp add: unat_minus_one unat_gt_0)
  then show ?thesis by (simp add: diff_diff_eq)
qed

lemma fill_section_value:
  assumes "ht_wf h" "length bs < 2 ^ 32"
  shows "sa_value (ht_abs (fill_section a bs h) k) =
    (if unat (k - a) < length bs \<and> bs ! unat (k - a) \<noteq> 0 then ucast (bs ! unat (k - a))
     else sa_value (ht_abs h k))"
  using assms
proof (induction a bs h rule: fill_section.induct)
  case (1 a h)
  then show ?case by simp
next
  case (2 a b bs h)
  define h1 where "h1 = (if b \<noteq> 0 then ht_modify a (\<lambda>d. d\<lparr>sa_value := ucast b\<rparr>) h else h)"
  have h1: "ht_wf h1" using 2 by (simp add: h1_def hash_table.inv_poke)
  have v: "sa_value (ht_abs h1 k) = (if k = a \<and> b \<noteq> 0 then ucast b else sa_value (ht_abs h k))"
    using 2(2) by (simp add: h1_def hash_table.peek_poke)
  have IH: "sa_value (ht_abs (fill_section (a + 1) bs h1) k) =
     (if unat (k - (a + 1)) < length bs \<and> bs ! unat (k - (a + 1)) \<noteq> 0
      then ucast (bs ! unat (k - (a + 1))) else sa_value (ht_abs h1 k))"
    using 2(1) h1 2(3) by (simp add: h1_def)
  show ?case
  proof (cases "k = a")
    case True
    have "unat (- 1 :: u32) = 4294967295"
      by (simp add: unsigned_minus_1_eq_mask mask_eq_exp_minus_1)
    then show ?thesis
      using True IH v 2(3) by (simp add: h1_def [symmetric])
  next
    case False
    then show ?thesis
      using IH v unat_minus_Suc [OF False] by (simp add: h1_def [symmetric])
  qed
qed

text \<open>C5: After \<open>mem_create\<close> has loaded a section of the initial image, the lookup of an address
  of the section returns the byte of the image, and any other address reads as zero.\<close>

theorem mem_create_image:
  assumes "judy_ok J" "length (sec_buf s) = unat (sec_size s)"
  shows "\<exists>dev h. mem_create devid junk (Some (1, [s])) (ht_init J z) = Ok (dev, h)
    \<and> m_id dev = ucast devid
    \<and> (\<forall>k. fst (mem_get_addr_value k h) =
         (if k - sec_ofs s < sec_size s then ucast (sec_buf s ! unat (k - sec_ofs s)) else 0))"
proof -
  define h where "h = fill_section (sec_ofs s) (sec_buf s) (ht_init J z)"
  have wf: "ht_wf (ht_init J z)" "ht_wf h"
    using assms(1) by (auto simp: h_def ht_init_wf fill_section_wf)
  have "length (sec_buf s) < 2 ^ 32"
    using assms(2) unsigned_less [of "sec_size s", where ?'a = nat] by simp
  then have "sa_value (ht_abs h k) =
      (if k - sec_ofs s < sec_size s then ucast (sec_buf s ! unat (k - sec_ofs s)) else 0)" for k
    using assms wf by (simp add: h_def fill_section_value ht_init_abs zero_addr_def word_less_nat_alt)
  then have "fst (mem_get_addr_value k h) =
      (if k - sec_ofs s < sec_size s then ucast (sec_buf s ! unat (k - sec_ofs s)) else 0)" for k
    using wf(2) by (simp add: get_addr_value_abs)
  then show ?thesis
    using assms(2) by (simp add: mem_create_def h_def)
qed

definition demo_section :: section_t where
  "demo_section = \<lparr>sec_cur = 0, sec_size = 3, sec_ofs = 0x100, sec_buf = [7, 0, 9]\<rparr>"

theorem mem_create_image_witness:
  "\<exists>dev h. mem_create 2 \<lparr>m_id = 0, m_last_exec = None, m_next_exec = None\<rparr> (Some (1, [demo_section]))
      (ht_init judy_map ()) = Ok (dev, h) \<and> fst (mem_get_addr_value 0x102 h) = 9"
proof -
  obtain dev h where "mem_create 2 \<lparr>m_id = 0, m_last_exec = None, m_next_exec = None\<rparr>
      (Some (1, [demo_section])) (ht_init judy_map ()) = Ok (dev, h)"
    "\<forall>k. fst (mem_get_addr_value k h) = (if k - sec_ofs demo_section < sec_size demo_section
       then ucast (sec_buf demo_section ! unat (k - sec_ofs demo_section)) else 0)"
    using mem_create_image [OF judy_map_ok, of demo_section 2
        "\<lparr>m_id = 0, m_last_exec = None, m_next_exec = None\<rparr>" "()"] by (auto simp: demo_section_def)
  then show ?thesis by (auto simp: demo_section_def)
qed

text \<open>C6: A store of the trace goes to the key \<open>addr >> 2\<close>, the debugger's reads use the byte
  address as the key: a store to any address but 0 leaves what the debugger reads at this
  address as it was.\<close>

theorem debugger_misses_stores:
  assumes "ht_wf h" "mem_exec addr data width h = Ok h'" "addr \<noteq> 0"
  shows "fst (mem_get_addr_value addr h') = fst (mem_get_addr_value addr h)"
proof -
  have h': "h' = ht_modify (mem_key addr)
      (\<lambda>d. d\<lparr>sa_value := mem_merge addr width (un_le32 data) (sa_value d)\<rparr>) h"
    using assms(2) by (simp add: mem_exec_def split: if_splits)
  have "unat addr \<noteq> 0" using assms(3) by (simp add: unat_eq_0)
  then have "unat (mem_key addr) < unat addr" by (simp add: mem_key_unat)
  then have "addr \<noteq> mem_key addr" by auto
  then have "ht_abs h' addr = ht_abs h addr"
    using assms(1) by (simp add: h' hash_table.peek_poke)
  moreover have "ht_wf h'" using assms(1) by (simp add: h' hash_table.inv_poke)
  ultimately show ?thesis
    using assms(1) by (simp add: get_addr_value_abs)
qed

theorem debugger_misses_stores_witness:
  "\<exists>h'. mem_exec 0x400 [1, 2, 3, 4] 4 (ht_init judy_map ()) = Ok h' \<and>
     fst (mem_get_addr_value 0x400 h') = fst (mem_get_addr_value 0x400 (ht_init judy_map ()))"
proof -
  obtain h' where "mem_exec 0x400 [1, 2, 3, 4] 4 (ht_init judy_map ()) = Ok h'"
    by (simp add: mem_exec_def)
  then show ?thesis
    using debugger_misses_stores [OF ht_init_wf [OF judy_map_ok], of "0x400"] by fastforce
qed

end
