(* ===== verification/Hwe_Events.thy ===== *)
theory Hwe_Events
  imports Sherlock_Prelude
begin

text \<open>
  The events of a trace and their binary form:
  \<open>lib/decopus/trace/include/events/hwe_common.h\<close>, \<open>hwe_info.h\<close>, \<open>hwe_inst.h\<close>,
  \<open>hwe_mem.h\<close>, \<open>hwe_device.h\<close> and the dispatch of \<open>hwe_tools.h\<close>.

  The structures are packed and copied by \<open>memcpy\<close> on a little-endian machine: bit fields are
  allocated from the low bits, and the unnamed padding bits are fields of the records since
  they are copied with the rest. The union \<open>hwe_cont\<close> is a datatype: using it as
  another member than the one it holds is undefined. A container is refilled again and again, and
  a read leaves the unused ends of its arrays as they were: \<open>stale\<close> is what they held.
\<close>

section \<open>Structures\<close>

record hwe_id_t =
  id_devid :: u8
  id_index :: u64

record hwe_head_t =
  hd_type :: "4 word"
  hd_rid :: "4 word"
  hd_ndates :: "2 word"
  hd_nrefs :: "6 word"
  hd_expected :: u32
  hd_nchild :: u32
  hd_com_child :: u32

definition HWE_ID :: "4 word" where "HWE_ID = 0"
definition HWE_NULL :: "4 word" where "HWE_NULL = 1"
definition HWE_INFO :: "4 word" where "HWE_INFO = 2"
definition HWE_SPREAD :: "4 word" where "HWE_SPREAD = 3"
definition HWE_MEMGL :: "4 word" where "HWE_MEMGL = 4"
definition HWE_MEM32 :: "4 word" where "HWE_MEM32 = 5"
definition HWE_MEMACK :: "4 word" where "HWE_MEMACK = 6"
definition HWE_INST32 :: "4 word" where "HWE_INST32 = 8"
definition HWE_EXCEP32 :: "4 word" where "HWE_EXCEP32 = 9"
definition HWE_CPU_MEM :: "4 word" where "HWE_CPU_MEM = 10"
definition HWE_CPU_IO :: "4 word" where "HWE_CPU_IO = 11"
definition HWE_COMMIT :: "4 word" where "HWE_COMMIT = 12"
definition HWE_SPARE :: "4 word" where "HWE_SPARE = 13"

lemmas hwe_type_defs = HWE_ID_def HWE_NULL_def HWE_INFO_def HWE_SPREAD_def HWE_MEMGL_def
  HWE_MEM32_def HWE_MEMACK_def HWE_INST32_def HWE_EXCEP32_def HWE_CPU_MEM_def HWE_CPU_IO_def
  HWE_COMMIT_def HWE_SPARE_def

definition HWE_DATE_MAX :: nat where "HWE_DATE_MAX = 2"
definition HWE_REF_MAX :: nat where "HWE_REF_MAX = 16"
definition HWE_INST_REG_MAX :: nat where "HWE_INST_REG_MAX = 18"
definition HWE_VERSION :: u16 where "HWE_VERSION = 256 * 1 + 3"

record hwe_mem32_t =
  mm_access :: "4 word"
  mm_inst :: "1 word"
  mm_condfailed :: "1 word"
  mm_usedata :: "1 word"
  mm_rcvack :: "1 word"
  mm_width :: u8
  mm_addr :: u32
  mm_cpureq_width :: u8
  mm_cpureq_addr :: u32

record hwe_ack_t =
  ak_access :: "4 word"
  ak_pad :: "4 word"
  ak_width :: u8
  ak_addr :: u32

record hwe_memglobal_t =
  mg_access :: "4 word"
  mg_pad :: "28 word"

record hwe_inst32_t =
  in_pc :: u32
  in_width :: "4 word"
  in_abort :: "1 word"
  in_jump :: "1 word"
  in_regdata :: "1 word"
  in_exec :: "1 word"
  in_unalign :: "1 word"
  in_cycles :: "8 word"
  in_imem :: "4 word"
  in_dmem :: "4 word"
  in_excl :: "2 word"
  in_str :: "1 word"
  in_pad :: "4 word"
  in_nregs :: u32
  in_regdst :: u32
  in_instr :: u32

record hwe_cpu32_t =
  cp_access :: "2 word"
  cp_io_mem :: "1 word"
  cp_inst :: "1 word"
  cp_pad :: "28 word"

record hwe_info_t =
  if_version :: u16
  if_device :: u8
  if_nsize :: u8

record hwe_inst_cont =
  ic_body :: hwe_inst32_t
  ic_jump_pc :: u32
  ic_reg_id :: "u8 list"
  ic_reg_data :: "u32 list"

record hwe_mem_cont =
  mc_body :: hwe_mem32_t
  mc_data :: bytes

record hwe_info_cont =
  fc_body :: hwe_info_t
  fc_name :: bytes
  fc_detail :: bytes

datatype hwe_body =
    B_none
  | B_info hwe_info_cont
  | B_memgl hwe_memglobal_t
  | B_mem hwe_mem_cont
  | B_ack hwe_ack_t
  | B_inst hwe_inst_cont
  | B_excep u32
  | B_cpu hwe_cpu32_t

record hwe_cont =
  hc_id :: hwe_id_t
  hc_head :: hwe_head_t
  hc_dates :: "u64 list"
  hc_body :: hwe_body

section \<open>Images of the structures\<close>

definition enc_id :: "hwe_id_t \<Rightarrow> bytes" where
  "enc_id i = id_devid i # le64 (id_index i)"

definition dec_id :: "bytes \<Rightarrow> hwe_id_t" where
  "dec_id bs = \<lparr>id_devid = bs ! 0, id_index = un_le64 (drop 1 bs)\<rparr>"

definition enc_head :: "hwe_head_t \<Rightarrow> bytes" where
  "enc_head h =
     nat_le 2 (pack_bits [(4, unat (hd_type h)), (4, unat (hd_rid h)), (2, unat (hd_ndates h)),
                          (6, unat (hd_nrefs h))])
     @ le32 (hd_expected h) @ le32 (hd_nchild h) @ le32 (hd_com_child h)"

definition dec_head :: "bytes \<Rightarrow> hwe_head_t" where
  "dec_head bs =
     (let f = unpack_bits [4, 4, 2, 6] (le_nat (take 2 bs))
      in \<lparr>hd_type = word_of_nat (f ! 0), hd_rid = word_of_nat (f ! 1),
          hd_ndates = word_of_nat (f ! 2), hd_nrefs = word_of_nat (f ! 3),
          hd_expected = un_le32 (drop 2 bs), hd_nchild = un_le32 (drop 6 bs),
          hd_com_child = un_le32 (drop 10 bs)\<rparr>)"

definition enc_mem32 :: "hwe_mem32_t \<Rightarrow> bytes" where
  "enc_mem32 m =
     nat_le 1 (pack_bits [(4, unat (mm_access m)), (1, unat (mm_inst m)), (1, unat (mm_condfailed m)),
                          (1, unat (mm_usedata m)), (1, unat (mm_rcvack m))])
     @ mm_width m # le32 (mm_addr m) @ mm_cpureq_width m # le32 (mm_cpureq_addr m)"

definition dec_mem32 :: "bytes \<Rightarrow> hwe_mem32_t" where
  "dec_mem32 bs =
     (let f = unpack_bits [4, 1, 1, 1, 1] (le_nat (take 1 bs))
      in \<lparr>mm_access = word_of_nat (f ! 0), mm_inst = word_of_nat (f ! 1),
          mm_condfailed = word_of_nat (f ! 2), mm_usedata = word_of_nat (f ! 3),
          mm_rcvack = word_of_nat (f ! 4), mm_width = bs ! 1, mm_addr = un_le32 (drop 2 bs),
          mm_cpureq_width = bs ! 6, mm_cpureq_addr = un_le32 (drop 7 bs)\<rparr>)"

definition enc_ack :: "hwe_ack_t \<Rightarrow> bytes" where
  "enc_ack a = nat_le 1 (pack_bits [(4, unat (ak_access a)), (4, unat (ak_pad a))])
     @ ak_width a # le32 (ak_addr a)"

definition dec_ack :: "bytes \<Rightarrow> hwe_ack_t" where
  "dec_ack bs =
     (let f = unpack_bits [4, 4] (le_nat (take 1 bs))
      in \<lparr>ak_access = word_of_nat (f ! 0), ak_pad = word_of_nat (f ! 1), ak_width = bs ! 1,
          ak_addr = un_le32 (drop 2 bs)\<rparr>)"

definition enc_memgl :: "hwe_memglobal_t \<Rightarrow> bytes" where
  "enc_memgl g = nat_le 4 (pack_bits [(4, unat (mg_access g)), (28, unat (mg_pad g))])"

definition dec_memgl :: "bytes \<Rightarrow> hwe_memglobal_t" where
  "dec_memgl bs =
     (let f = unpack_bits [4, 28] (le_nat (take 4 bs))
      in \<lparr>mg_access = word_of_nat (f ! 0), mg_pad = word_of_nat (f ! 1)\<rparr>)"

definition enc_inst32 :: "hwe_inst32_t \<Rightarrow> bytes" where
  "enc_inst32 i =
     le32 (in_pc i)
     @ nat_le 4 (pack_bits [(4, unat (in_width i)), (1, unat (in_abort i)), (1, unat (in_jump i)),
         (1, unat (in_regdata i)), (1, unat (in_exec i)), (1, unat (in_unalign i)),
         (8, unat (in_cycles i)), (4, unat (in_imem i)), (4, unat (in_dmem i)),
         (2, unat (in_excl i)), (1, unat (in_str i)), (4, unat (in_pad i))])
     @ le32 (in_nregs i) @ le32 (in_regdst i) @ le32 (in_instr i)"

definition dec_inst32 :: "bytes \<Rightarrow> hwe_inst32_t" where
  "dec_inst32 bs =
     (let f = unpack_bits [4, 1, 1, 1, 1, 1, 8, 4, 4, 2, 1, 4] (le_nat (take 4 (drop 4 bs)))
      in \<lparr>in_pc = un_le32 bs, in_width = word_of_nat (f ! 0), in_abort = word_of_nat (f ! 1),
          in_jump = word_of_nat (f ! 2), in_regdata = word_of_nat (f ! 3),
          in_exec = word_of_nat (f ! 4), in_unalign = word_of_nat (f ! 5),
          in_cycles = word_of_nat (f ! 6), in_imem = word_of_nat (f ! 7),
          in_dmem = word_of_nat (f ! 8), in_excl = word_of_nat (f ! 9),
          in_str = word_of_nat (f ! 10), in_pad = word_of_nat (f ! 11),
          in_nregs = un_le32 (drop 8 bs), in_regdst = un_le32 (drop 12 bs),
          in_instr = un_le32 (drop 16 bs)\<rparr>)"

definition enc_cpu32 :: "hwe_cpu32_t \<Rightarrow> bytes" where
  "enc_cpu32 c = nat_le 4 (pack_bits [(2, unat (cp_access c)), (1, unat (cp_io_mem c)),
     (1, unat (cp_inst c)), (28, unat (cp_pad c))])"

definition dec_cpu32 :: "bytes \<Rightarrow> hwe_cpu32_t" where
  "dec_cpu32 bs =
     (let f = unpack_bits [2, 1, 1, 28] (le_nat (take 4 bs))
      in \<lparr>cp_access = word_of_nat (f ! 0), cp_io_mem = word_of_nat (f ! 1),
          cp_inst = word_of_nat (f ! 2), cp_pad = word_of_nat (f ! 3)\<rparr>)"

definition enc_info :: "hwe_info_t \<Rightarrow> bytes" where
  "enc_info i = le16 (if_version i) @ [if_device i, if_nsize i]"

definition dec_info :: "bytes \<Rightarrow> hwe_info_t" where
  "dec_info bs = \<lparr>if_version = un_le16 bs, if_device = bs ! 2, if_nsize = bs ! 3\<rparr>"

section \<open>Identifiers relative to the previous event\<close>

text \<open>The difference is truncated to an \<open>int32_t\<close>. The result tells if it fits the field.\<close>

definition hwe_head_rid_compute :: "hwe_cont \<Rightarrow> u64 \<Rightarrow> bool \<times> hwe_cont" where
  "hwe_head_rid_compute c prev_id =
     (let diff = sint (ucast (id_index (hc_id c) - prev_id) :: u32)
      in if diff < - 8 \<or> diff > 7 then (False, c\<lparr>hc_head := (hc_head c)\<lparr>hd_rid := 0\<rparr>\<rparr>)
         else (True, c\<lparr>hc_head := (hc_head c)\<lparr>hd_rid := word_of_int diff\<rparr>\<rparr>))"

definition hwe_head_rid_zero :: "hwe_cont \<Rightarrow> hwe_cont" where
  "hwe_head_rid_zero c = c\<lparr>hc_head := (hc_head c)\<lparr>hd_rid := 0\<rparr>\<rparr>"

definition hwe_id_compute :: "hwe_cont \<Rightarrow> u64 \<Rightarrow> hwe_cont" where
  "hwe_id_compute c prev_id =
     c\<lparr>hc_id := (hc_id c)\<lparr>id_index := prev_id + word_of_int (sint (hd_rid (hc_head c)))\<rparr>\<rparr>"

section \<open>Sizes\<close>

definition HWE_ID_SIZEOF :: nat where "HWE_ID_SIZEOF = 1 + 14 + 8"

definition hwe_head_sizeof :: "hwe_cont \<Rightarrow> nat" where
  "hwe_head_sizeof c = 1 + 14 + 8 * unat (hd_ndates (hc_head c)) + 9 * unat (hd_nrefs (hc_head c))"

definition HWE_PROCESSOR :: u8 where "HWE_PROCESSOR = 0"
definition HWE_MEMORY :: u8 where "HWE_MEMORY = 1"
definition HWE_CACHE :: u8 where "HWE_CACHE = 2"
definition HWE_WRITEBUFFER :: u8 where "HWE_WRITEBUFFER = 3"
definition HWE_PERIPHERAL :: u8 where "HWE_PERIPHERAL = 4"

definition hwe_device_sizeof :: "u8 \<Rightarrow> nat result" where
  "hwe_device_sizeof dev =
     (if dev = HWE_PROCESSOR then Ok 1
      else if dev = HWE_MEMORY then Ok 9
      else if dev = HWE_CACHE then Ok 6
      else if dev = HWE_WRITEBUFFER then Ok 0
      else if dev = HWE_PERIPHERAL then Ok 0
      else Stop (Exit 1))"

definition hwe_info_sizeof :: "hwe_cont \<Rightarrow> hwe_info_cont \<Rightarrow> nat result" where
  "hwe_info_sizeof c i =
     bind_result (hwe_device_sizeof (if_device (fc_body i))) (\<lambda>n.
       Ok (hwe_head_sizeof c + (4 + unat (if_nsize (fc_body i))) + n))"

definition hwe_mem32_sizeof :: "hwe_cont \<Rightarrow> hwe_mem_cont \<Rightarrow> nat" where
  "hwe_mem32_sizeof c m = hwe_head_sizeof c + 11
     + (if mm_usedata (mc_body m) \<noteq> 0 then 1 + unat (mm_width (mc_body m)) else 0)"

definition hwe_memglobal_sizeof :: "hwe_cont \<Rightarrow> nat" where
  "hwe_memglobal_sizeof c = hwe_head_sizeof c + 4"

definition hwe_ack_sizeof :: "hwe_cont \<Rightarrow> nat" where
  "hwe_ack_sizeof c = hwe_head_sizeof c + 6"

definition hwe_inst32_sizeof :: "hwe_cont \<Rightarrow> hwe_inst_cont \<Rightarrow> nat" where
  "hwe_inst32_sizeof c i = hwe_head_sizeof c + (20 + unat (in_nregs (ic_body i)))
     + (if in_jump (ic_body i) \<noteq> 0 then 4 else 0)
     + (if in_regdata (ic_body i) \<noteq> 0 then unat (4 * in_nregs (ic_body i)) else 0)"

definition hwe_excep32_sizeof :: "hwe_cont \<Rightarrow> nat" where
  "hwe_excep32_sizeof c = hwe_head_sizeof c + 4"

definition hwe_cpu32_sizeof :: "hwe_cont \<Rightarrow> nat" where
  "hwe_cpu32_sizeof c = hwe_head_sizeof c + 4"

definition hwe_sizeof :: "hwe_cont \<Rightarrow> nat result" where
  "hwe_sizeof c =
     (let t = hd_type (hc_head c)
      in if t = HWE_ID then Ok HWE_ID_SIZEOF
         else if t = HWE_NULL then Ok (hwe_head_sizeof c)
         else if t = HWE_INFO then (case hc_body c of B_info i \<Rightarrow> hwe_info_sizeof c i | _ \<Rightarrow> Stop Undefined)
         else if t = HWE_SPREAD then Ok (hwe_head_sizeof c)
         else if t = HWE_MEMGL then Ok (hwe_memglobal_sizeof c)
         else if t = HWE_MEM32 then (case hc_body c of B_mem m \<Rightarrow> Ok (hwe_mem32_sizeof c m) | _ \<Rightarrow> Stop Undefined)
         else if t = HWE_MEMACK then Ok (hwe_ack_sizeof c)
         else if t = HWE_INST32 then (case hc_body c of B_inst i \<Rightarrow> Ok (hwe_inst32_sizeof c i) | _ \<Rightarrow> Stop Undefined)
         else if t = HWE_EXCEP32 then Ok (hwe_excep32_sizeof c)
         else if t = HWE_CPU_MEM \<or> t = HWE_CPU_IO then Ok (hwe_cpu32_sizeof c)
         else Ok 0)"

section \<open>Writing\<close>

text \<open>The result of a write is the bytes that it stores at \<open>dest\<close>. Copying more than an array
  holds is undefined.\<close>

definition memcpy_from :: "nat \<Rightarrow> 'a list \<Rightarrow> 'a list result" where
  "memcpy_from n xs = (if n \<le> length xs then Ok (take n xs) else Stop Undefined)"

definition hwe_head_write :: "hwe_cont \<Rightarrow> hwe_id_t list \<Rightarrow> bytes result" where
  "hwe_head_write c idrefs =
     bind_result (memcpy_from (unat (hd_ndates (hc_head c))) (hc_dates c)) (\<lambda>ds.
     bind_result (memcpy_from (unat (hd_nrefs (hc_head c))) idrefs) (\<lambda>rs.
       Ok (id_devid (hc_id c) # enc_head (hc_head c) @ enc_list le64 ds @ enc_list enc_id rs)))"

definition id_head :: hwe_head_t where
  "id_head = \<lparr>hd_type = HWE_ID, hd_rid = 0, hd_ndates = 0, hd_nrefs = 0, hd_expected = 0,
     hd_nchild = 0, hd_com_child = 0\<rparr>"

definition hwe_id_write :: "hwe_cont \<Rightarrow> bytes" where
  "hwe_id_write c = id_devid (hc_id c) # enc_head id_head @ le64 (id_index (hc_id c))"

definition hwe_info_write :: "hwe_info_cont \<Rightarrow> bytes result" where
  "hwe_info_write i =
     bind_result (memcpy_from (unat (if_nsize (fc_body i))) (fc_name i)) (\<lambda>nm.
     bind_result (hwe_device_sizeof (if_device (fc_body i))) (\<lambda>n.
     bind_result (memcpy_from n (fc_detail i)) (\<lambda>d.
       Ok (enc_info (fc_body i) @ nm @ d))))"

definition hwe_mem32_write :: "hwe_mem_cont \<Rightarrow> bytes result" where
  "hwe_mem32_write m =
     (if mm_usedata (mc_body m) \<noteq> 0 then
        bind_result (memcpy_from (1 + unat (mm_width (mc_body m))) (mc_data m))
          (\<lambda>d. Ok (enc_mem32 (mc_body m) @ d))
      else Ok (enc_mem32 (mc_body m)))"

definition hwe_inst32_write :: "hwe_inst_cont \<Rightarrow> bytes result" where
  "hwe_inst32_write i =
     bind_result (memcpy_from (unat (in_nregs (ic_body i))) (ic_reg_id i)) (\<lambda>ids.
     bind_result (memcpy_from (unat (in_nregs (ic_body i))) (ic_reg_data i)) (\<lambda>ds.
       Ok (enc_inst32 (ic_body i)
           @ (if in_jump (ic_body i) \<noteq> 0 then le32 (ic_jump_pc i) else [])
           @ ids @ enc_list le32 ds)))"

definition hwe_body_write :: "hwe_cont \<Rightarrow> bytes result" where
  "hwe_body_write c =
     (let t = hd_type (hc_head c)
      in if t = HWE_ID then Ok (hwe_id_write c)
         else if t = HWE_INFO then (case hc_body c of B_info i \<Rightarrow> hwe_info_write i | _ \<Rightarrow> Stop Undefined)
         else if t = HWE_MEMGL then (case hc_body c of B_memgl g \<Rightarrow> Ok (enc_memgl g) | _ \<Rightarrow> Stop Undefined)
         else if t = HWE_MEM32 then (case hc_body c of B_mem m \<Rightarrow> hwe_mem32_write m | _ \<Rightarrow> Stop Undefined)
         else if t = HWE_MEMACK then (case hc_body c of B_ack a \<Rightarrow> Ok (enc_ack a) | _ \<Rightarrow> Stop Undefined)
         else if t = HWE_INST32 then (case hc_body c of B_inst i \<Rightarrow> hwe_inst32_write i | _ \<Rightarrow> Stop Undefined)
         else if t = HWE_EXCEP32 then (case hc_body c of B_excep pc \<Rightarrow> Ok (le32 pc) | _ \<Rightarrow> Stop Undefined)
         else if t = HWE_CPU_MEM \<or> t = HWE_CPU_IO then
           (case hc_body c of B_cpu b \<Rightarrow> Ok (enc_cpu32 b) | _ \<Rightarrow> Stop Undefined)
         else Ok [])"

definition hwe_write :: "hwe_cont \<Rightarrow> hwe_id_t list \<Rightarrow> bytes result" where
  "hwe_write c idrefs =
     bind_result (hwe_head_write c idrefs) (\<lambda>h.
     bind_result (hwe_body_write c) (\<lambda>b. Ok (h @ b)))"

section \<open>Reading\<close>

text \<open>The contents a container has before it is read into.\<close>

record stale =
  st_dates :: "u64 list"
  st_data :: bytes
  st_jump_pc :: u32
  st_reg_id :: "u8 list"
  st_reg_data :: "u32 list"
  st_name :: bytes
  st_detail :: bytes

definition overlay :: "'a list \<Rightarrow> 'a list \<Rightarrow> 'a list" where
  "overlay xs old = xs @ drop (length xs) old"

text \<open>A read returns the number of bytes it used and what it filled in. \<open>None\<close> is the
  result 0: the buffer does not hold the whole event yet.\<close>

definition hwe_head_read ::
  "stale \<Rightarrow> bytes \<Rightarrow> (nat \<times> hwe_cont \<times> hwe_id_t list) option result" where
  "hwe_head_read st buf =
     (if length buf < 15 then Ok None
      else
        let h = dec_head (drop 1 buf);
            nd = unat (hd_ndates h);
            nr = unat (hd_nrefs h);
            need = 15 + 8 * nd + 9 * nr
        in if length buf < need then Ok None
           else if nd > HWE_DATE_MAX \<or> nr > HWE_REF_MAX then Stop Undefined
           else Ok (Some (need,
             \<lparr>hc_id = \<lparr>id_devid = buf ! 0, id_index = 0\<rparr>, hc_head = h,
              hc_dates = overlay (dec_list un_le64 8 nd (drop 15 buf)) (st_dates st),
              hc_body = B_none\<rparr>,
             dec_list dec_id 9 nr (drop (8 * nd) (drop 15 buf)))))"

definition hwe_id_read :: "bytes \<Rightarrow> (nat \<times> u64) option" where
  "hwe_id_read buf = (if length buf < 8 then None else Some (8, un_le64 buf))"

definition hwe_info_read :: "stale \<Rightarrow> bytes \<Rightarrow> (nat \<times> hwe_body) option result" where
  "hwe_info_read st buf =
     (if length buf < 4 then Ok None
      else
        let b = dec_info buf;
            nsize = unat (if_nsize b)
        in if if_version b \<noteq> HWE_VERSION then Stop (Exit 1)
           else if length buf < 4 + nsize then Ok None
           else
             bind_result (hwe_device_sizeof (if_device b)) (\<lambda>n.
               if length buf < 4 + nsize + n then Ok None
               else Ok (Some (4 + nsize + n, B_info
                 \<lparr>fc_body = b, fc_name = overlay (take nsize (drop 4 buf) @ [0]) (st_name st),
                  fc_detail = overlay (take n (drop nsize (drop 4 buf))) (st_detail st)\<rparr>))))"

definition hwe_memglobal_read :: "bytes \<Rightarrow> (nat \<times> hwe_body) option" where
  "hwe_memglobal_read buf = (if length buf < 4 then None else Some (4, B_memgl (dec_memgl buf)))"

definition hwe_mem32_read :: "stale \<Rightarrow> bytes \<Rightarrow> (nat \<times> hwe_body) option" where
  "hwe_mem32_read st buf =
     (if length buf < 11 then None
      else
        let b = dec_mem32 buf;
            cur = (1 + unat (mm_width b)) * unat (mm_usedata b)
        in if length buf < 11 + cur then None
           else Some (11 + cur, B_mem \<lparr>mc_body = b, mc_data = overlay (take cur (drop 11 buf)) (st_data st)\<rparr>))"

definition hwe_ack_read :: "bytes \<Rightarrow> (nat \<times> hwe_body) option" where
  "hwe_ack_read buf = (if length buf < 6 then None else Some (6, B_ack (dec_ack buf)))"

definition hwe_inst32_read :: "stale \<Rightarrow> bytes \<Rightarrow> (nat \<times> hwe_body) option result" where
  "hwe_inst32_read st buf =
     (if length buf < 20 then Ok None
      else
        let b = dec_inst32 buf;
            cur = unat (in_nregs b);
            cur2 = (if in_regdata b \<noteq> 0 then unat (4 * in_nregs b) else 0);
            j = (if in_jump b \<noteq> 0 then 4 else 0);
            need = 20 + (cur + cur2 + j)
        in if length buf < need then Ok None
           else if cur > HWE_INST_REG_MAX then Stop Undefined
           else Ok (Some (need, B_inst
             \<lparr>ic_body = b,
              ic_jump_pc = (if in_jump b \<noteq> 0 then un_le32 (drop 20 buf) else st_jump_pc st),
              ic_reg_id = overlay (take cur (drop j (drop 20 buf))) (st_reg_id st),
              ic_reg_data = overlay (dec_list un_le32 4 (cur2 div 4) (drop cur (drop j (drop 20 buf)))) (st_reg_data st)\<rparr>)))"

definition hwe_excep32_read :: "bytes \<Rightarrow> (nat \<times> hwe_body) option" where
  "hwe_excep32_read buf = (if length buf < 4 then None else Some (4, B_excep (un_le32 buf)))"

definition hwe_cpu32_read :: "bytes \<Rightarrow> (nat \<times> hwe_body) option" where
  "hwe_cpu32_read buf = (if length buf < 4 then None else Some (4, B_cpu (dec_cpu32 buf)))"

text \<open>The switch of \<open>hwe_read\<close>: a body of size zero where there is none.\<close>

definition hwe_body_read :: "stale \<Rightarrow> hwe_cont \<Rightarrow> bytes \<Rightarrow> (nat \<times> hwe_cont) option result" where
  "hwe_body_read st c buf =
     (let t = hd_type (hc_head c);
          fill = map_option (\<lambda>(n, b). (n, c\<lparr>hc_body := b\<rparr>))
      in if t = HWE_ID then
           Ok (map_option (\<lambda>(n, i). (n, c\<lparr>hc_id := (hc_id c)\<lparr>id_index := i\<rparr>\<rparr>)) (hwe_id_read buf))
         else if t = HWE_NULL \<or> t = HWE_SPREAD then Ok (Some (0, c))
         else if t = HWE_INFO then bind_result (hwe_info_read st buf) (\<lambda>r. Ok (fill r))
         else if t = HWE_MEMGL then Ok (fill (hwe_memglobal_read buf))
         else if t = HWE_MEM32 then Ok (fill (hwe_mem32_read st buf))
         else if t = HWE_MEMACK then Ok (fill (hwe_ack_read buf))
         else if t = HWE_INST32 then bind_result (hwe_inst32_read st buf) (\<lambda>r. Ok (fill r))
         else if t = HWE_EXCEP32 then Ok (fill (hwe_excep32_read buf))
         else if t = HWE_CPU_MEM \<or> t = HWE_CPU_IO then Ok (fill (hwe_cpu32_read buf))
         else Stop (Exit 1))"

definition hwe_read ::
  "stale \<Rightarrow> bytes \<Rightarrow> u64 list \<Rightarrow> (nat \<times> hwe_cont \<times> hwe_id_t list) option result" where
  "hwe_read st buf previd =
     bind_result (hwe_head_read st buf) (\<lambda>r. case r of None \<Rightarrow> Ok None
       | Some (headsize, c, idrefs) \<Rightarrow>
           let d = unat (id_devid (hc_id c));
               c' = hwe_id_compute c (if d < length previd then previd ! d else 0)
           in bind_result (hwe_body_read st c' (drop headsize buf)) (\<lambda>b. case b of None \<Rightarrow> Ok None
                | Some (bodysize, c'') \<Rightarrow> Ok (Some (headsize + bodysize, c'', idrefs))))"

section \<open>The images determine the structures\<close>

lemma unat_less_pow: "unat (w :: 'a::len word) < 2 ^ LENGTH('a)"
  by (rule unsigned_less)

lemma word_bounds [simp]:
  "unat (a :: 1 word) < 2" "unat (b :: 2 word) < 4" "unat (c :: 4 word) < 16"
  "unat (d :: 6 word) < 64" "unat (e :: 8 word) < 256" "unat (f :: 28 word) < 268435456"
  using unat_less_pow [of a] unat_less_pow [of b] unat_less_pow [of c] unat_less_pow [of d]
    unat_less_pow [of e] unat_less_pow [of f] by simp_all

lemma bits_image:
  assumes "\<forall>(w, v)\<in>set fs. v < 2 ^ w" "sum_list (map fst fs) = 8 * n"
  shows "unpack_bits (map fst fs) (le_nat (take n (nat_le n (pack_bits fs) @ rest))) = map snd fs"
proof -
  have "pack_bits fs < 256 ^ n"
    using pack_bits_less [OF assms(1)] assms(2) by (simp add: power_mult)
  then show ?thesis
    using unpack_pack [OF assms(1)] by (simp add: le_nat_nat_le)
qed

text \<open>Every packed structure meets the contract of \<open>memcpy\<close>ed types.\<close>

interpretation hwe_id: packed enc_id dec_id 9
  by unfold_locales (simp_all add: enc_id_def dec_id_def)

interpretation hwe_head: packed enc_head dec_head 14
proof unfold_locales
  fix h rest
  show "length (enc_head h) = 14" by (simp add: enc_head_def)
  show "dec_head (enc_head h @ rest) = h"
    using bits_image [of "[(4, unat (hd_type h)), (4, unat (hd_rid h)), (2, unat (hd_ndates h)),
        (6, unat (hd_nrefs h))]" 2]
    by (simp add: dec_head_def enc_head_def Let_def del: pack_bits.simps unpack_bits.simps)
qed

interpretation hwe_mem32: packed enc_mem32 dec_mem32 11
proof unfold_locales
  fix m rest
  show "length (enc_mem32 m) = 11" by (simp add: enc_mem32_def)
  show "dec_mem32 (enc_mem32 m @ rest) = m"
    using bits_image [of "[(4, unat (mm_access m)), (1, unat (mm_inst m)), (1, unat (mm_condfailed m)),
        (1, unat (mm_usedata m)), (1, unat (mm_rcvack m))]" 1]
    by (simp add: dec_mem32_def enc_mem32_def Let_def nth_append del: pack_bits.simps unpack_bits.simps)
qed

interpretation hwe_ack: packed enc_ack dec_ack 6
proof unfold_locales
  fix a rest
  show "length (enc_ack a) = 6" by (simp add: enc_ack_def)
  show "dec_ack (enc_ack a @ rest) = a"
    using bits_image [of "[(4, unat (ak_access a)), (4, unat (ak_pad a))]" 1]
    by (simp add: dec_ack_def enc_ack_def Let_def nth_append del: pack_bits.simps unpack_bits.simps)
qed

interpretation hwe_memglobal: packed enc_memgl dec_memgl 4
proof unfold_locales
  fix g rest
  show "length (enc_memgl g) = 4" by (simp add: enc_memgl_def)
  show "dec_memgl (enc_memgl g @ rest) = g"
    using bits_image [of "[(4, unat (mg_access g)), (28, unat (mg_pad g))]" 4]
    by (simp add: dec_memgl_def enc_memgl_def Let_def del: pack_bits.simps unpack_bits.simps)
qed

interpretation hwe_inst32: packed enc_inst32 dec_inst32 20
proof unfold_locales
  fix i rest
  show "length (enc_inst32 i) = 20" by (simp add: enc_inst32_def)
  show "dec_inst32 (enc_inst32 i @ rest) = i"
    using bits_image [of "[(4, unat (in_width i)), (1, unat (in_abort i)), (1, unat (in_jump i)),
         (1, unat (in_regdata i)), (1, unat (in_exec i)), (1, unat (in_unalign i)),
         (8, unat (in_cycles i)), (4, unat (in_imem i)), (4, unat (in_dmem i)),
         (2, unat (in_excl i)), (1, unat (in_str i)), (4, unat (in_pad i))]" 4]
    by (simp add: dec_inst32_def enc_inst32_def Let_def del: pack_bits.simps unpack_bits.simps)
qed

interpretation hwe_cpu32: packed enc_cpu32 dec_cpu32 4
proof unfold_locales
  fix c rest
  show "length (enc_cpu32 c) = 4" by (simp add: enc_cpu32_def)
  show "dec_cpu32 (enc_cpu32 c @ rest) = c"
    using bits_image [of "[(2, unat (cp_access c)), (1, unat (cp_io_mem c)), (1, unat (cp_inst c)),
        (28, unat (cp_pad c))]" 4]
    by (simp add: dec_cpu32_def enc_cpu32_def Let_def del: pack_bits.simps unpack_bits.simps)
qed

interpretation hwe_info: packed enc_info dec_info 4
  by unfold_locales (simp_all add: enc_info_def dec_info_def nth_append)

section \<open>Round trip\<close>

text \<open>The containers that the producers fill in. The data of registers is always written, so it
  has to be announced. \<open>HWE_ID\<close> is not an event: it is written by \<open>hwe_id_write\<close>.\<close>

definition wf_body :: "4 word \<Rightarrow> hwe_body \<Rightarrow> bool" where
  "wf_body t b \<longleftrightarrow> (case b of
       B_none \<Rightarrow> t = HWE_NULL \<or> t = HWE_SPREAD
     | B_info i \<Rightarrow> t = HWE_INFO \<and> if_version (fc_body i) = HWE_VERSION \<and> if_device (fc_body i) \<le> 4
         \<and> length (fc_name i) = 256 \<and> length (fc_detail i) = 9
     | B_memgl g \<Rightarrow> t = HWE_MEMGL
     | B_mem m \<Rightarrow> t = HWE_MEM32 \<and> length (mc_data m) = 256
     | B_ack a \<Rightarrow> t = HWE_MEMACK
     | B_inst i \<Rightarrow> t = HWE_INST32 \<and> unat (in_nregs (ic_body i)) \<le> HWE_INST_REG_MAX
         \<and> length (ic_reg_id i) = HWE_INST_REG_MAX \<and> length (ic_reg_data i) = HWE_INST_REG_MAX
         \<and> (in_regdata (ic_body i) \<noteq> 0 \<or> in_nregs (ic_body i) = 0)
     | B_excep pc \<Rightarrow> t = HWE_EXCEP32
     | B_cpu c \<Rightarrow> t = HWE_CPU_MEM \<or> t = HWE_CPU_IO)"

definition wf_head :: "hwe_cont \<Rightarrow> hwe_id_t list \<Rightarrow> bool" where
  "wf_head c idrefs \<longleftrightarrow> length (hc_dates c) = HWE_DATE_MAX \<and> unat (hd_ndates (hc_head c)) \<le> HWE_DATE_MAX
     \<and> unat (hd_nrefs (hc_head c)) \<le> HWE_REF_MAX \<and> unat (hd_nrefs (hc_head c)) \<le> length idrefs"

text \<open>What a reader has in its container: the event, and stale contents beyond its arrays.\<close>

definition device_size :: "u8 \<Rightarrow> nat" where
  "device_size d = (case hwe_device_sizeof d of Inl _ \<Rightarrow> 0 | Inr n \<Rightarrow> n)"

definition reread_body :: "stale \<Rightarrow> hwe_body \<Rightarrow> hwe_body" where
  "reread_body st b = (case b of
       B_info i \<Rightarrow> B_info (i\<lparr>
         fc_name := overlay (take (unat (if_nsize (fc_body i))) (fc_name i) @ [0]) (st_name st),
         fc_detail := overlay (take (device_size (if_device (fc_body i))) (fc_detail i)) (st_detail st)\<rparr>)
     | B_mem m \<Rightarrow> B_mem (m\<lparr>mc_data := overlay
         (if mm_usedata (mc_body m) \<noteq> 0 then take (1 + unat (mm_width (mc_body m))) (mc_data m) else [])
         (st_data st)\<rparr>)
     | B_inst i \<Rightarrow> B_inst (i\<lparr>
         ic_jump_pc := (if in_jump (ic_body i) \<noteq> 0 then ic_jump_pc i else st_jump_pc st),
         ic_reg_id := overlay (take (unat (in_nregs (ic_body i))) (ic_reg_id i)) (st_reg_id st),
         ic_reg_data := overlay (take (unat (in_nregs (ic_body i))) (ic_reg_data i)) (st_reg_data st)\<rparr>)
     | _ \<Rightarrow> b)"

definition reread :: "stale \<Rightarrow> u64 \<Rightarrow> hwe_cont \<Rightarrow> hwe_cont" where
  "reread st prev c = hwe_id_compute (c\<lparr>
     hc_dates := overlay (take (unat (hd_ndates (hc_head c))) (hc_dates c)) (st_dates st),
     hc_body := reread_body st (hc_body c)\<rparr>) prev"

lemmas hwe_codec_simps =
  hwe_id.length_enc hwe_head.length_enc hwe_mem32.length_enc hwe_ack.length_enc
  hwe_memglobal.length_enc hwe_inst32.length_enc hwe_cpu32.length_enc hwe_info.length_enc
  hwe_id.length_enc_list word64.length_enc_list word32.length_enc_list
  hwe_id.dec_enc hwe_head.dec_enc hwe_mem32.dec_enc hwe_ack.dec_enc hwe_memglobal.dec_enc
  hwe_inst32.dec_enc hwe_cpu32.dec_enc hwe_info.dec_enc

definition head_image :: "hwe_cont \<Rightarrow> hwe_id_t list \<Rightarrow> bytes" where
  "head_image c idrefs = id_devid (hc_id c) # enc_head (hc_head c)
     @ enc_list le64 (take (unat (hd_ndates (hc_head c))) (hc_dates c))
     @ enc_list enc_id (take (unat (hd_nrefs (hc_head c))) idrefs)"

lemma head_write: "wf_head c idrefs \<Longrightarrow> hwe_head_write c idrefs = Ok (head_image c idrefs)"
  by (simp add: wf_head_def hwe_head_write_def memcpy_from_def head_image_def)

lemma length_head_image: "wf_head c idrefs \<Longrightarrow> length (head_image c idrefs) = hwe_head_sizeof c"
  by (simp add: wf_head_def head_image_def hwe_head_sizeof_def hwe_codec_simps min_def)

lemma head_read:
  assumes "wf_head c idrefs"
  shows "hwe_head_read st (head_image c idrefs @ rest) = Ok (Some (hwe_head_sizeof c,
    c\<lparr>hc_id := (hc_id c)\<lparr>id_index := 0\<rparr>,
      hc_dates := overlay (take (unat (hd_ndates (hc_head c))) (hc_dates c)) (st_dates st),
      hc_body := B_none\<rparr>,
    take (unat (hd_nrefs (hc_head c))) idrefs))"
proof -
  let ?ds = "take (unat (hd_ndates (hc_head c))) (hc_dates c)"
  let ?rs = "take (unat (hd_nrefs (hc_head c))) idrefs"
  have n: "length ?ds = unat (hd_ndates (hc_head c))" "length ?rs = unat (hd_nrefs (hc_head c))"
    using assms by (simp_all add: wf_head_def)
  have h: "dec_head (enc_head (hc_head c) @ xs) = hc_head c" for xs by (rule hwe_head.dec_enc)
  have d: "dec_list un_le64 8 (unat (hd_ndates (hc_head c))) (enc_list le64 ?ds @ xs) = ?ds" for xs
    using word64.dec_list_enc_list [of ?ds xs] n(1) by simp
  have r: "dec_list dec_id 9 (unat (hd_nrefs (hc_head c))) (enc_list enc_id ?rs @ xs) = ?rs" for xs
    using hwe_id.dec_list_enc_list [of ?rs xs] n(2) by simp
  have len: "length (enc_list le64 ?ds) = 8 * unat (hd_ndates (hc_head c))"
    "length (enc_list enc_id ?rs) = 9 * unat (hd_nrefs (hc_head c))" "length (enc_head (hc_head c)) = 14"
    using n by (simp_all add: hwe_codec_simps)
  show ?thesis
    using assms len by (simp add: hwe_head_read_def head_image_def Let_def h d r wf_head_def
        hwe_head_sizeof_def)
qed

definition body_image :: "hwe_body \<Rightarrow> bytes" where
  "body_image b = (case b of
       B_none \<Rightarrow> []
     | B_info i \<Rightarrow> enc_info (fc_body i) @ take (unat (if_nsize (fc_body i))) (fc_name i)
         @ take (device_size (if_device (fc_body i))) (fc_detail i)
     | B_memgl g \<Rightarrow> enc_memgl g
     | B_mem m \<Rightarrow> enc_mem32 (mc_body m) @ (if mm_usedata (mc_body m) \<noteq> 0
         then take (1 + unat (mm_width (mc_body m))) (mc_data m) else [])
     | B_ack a \<Rightarrow> enc_ack a
     | B_inst i \<Rightarrow> enc_inst32 (ic_body i)
         @ (if in_jump (ic_body i) \<noteq> 0 then le32 (ic_jump_pc i) else [])
         @ take (unat (in_nregs (ic_body i))) (ic_reg_id i)
         @ enc_list le32 (take (unat (in_nregs (ic_body i))) (ic_reg_data i))
     | B_excep pc \<Rightarrow> le32 pc
     | B_cpu c \<Rightarrow> enc_cpu32 c)"

lemma device_cases:
  fixes d :: u8
  assumes "d \<le> 4"
  shows "d = 0 \<or> d = 1 \<or> d = 2 \<or> d = 3 \<or> d = 4"
proof -
  have "unat d \<le> 4" using assms by (simp add: word_le_nat_alt)
  then have "unat d \<in> {0, 1, 2, 3, 4}" by auto
  then show ?thesis by (auto simp: word_unat_eq_iff)
qed

lemma device_size_ok:
  assumes "d \<le> 4"
  shows "hwe_device_sizeof d = Ok (device_size d)" "device_size d \<le> 9"
  using device_cases [OF assms]
  by (auto simp: hwe_device_sizeof_def device_size_def HWE_PROCESSOR_def HWE_MEMORY_def
      HWE_CACHE_def HWE_WRITEBUFFER_def HWE_PERIPHERAL_def)

lemma bit1: "(u :: 1 word) \<noteq> 0 \<Longrightarrow> unat u = 1"
  using word_bounds(1) [of u] unat_eq_0 [of u] by linarith

lemma nregs4: "unat n \<le> HWE_INST_REG_MAX \<Longrightarrow> unat (4 * n :: u32) = 4 * unat n"
  by (simp add: unat_word_ariths HWE_INST_REG_MAX_def)

lemma u8_le [simp]: "unat (w :: u8) \<le> 256" "unat w \<le> 255"
  using unat_u8_less [of w] by linarith+

lemma min_sizes [simp]:
  "min 256 (unat (w :: u8)) = unat w" "min 255 (unat w) = unat w"
  "d \<le> 4 \<Longrightarrow> min 9 (device_size d) = device_size d"
  "n \<le> HWE_INST_REG_MAX \<Longrightarrow> min HWE_INST_REG_MAX n = n"
proof -
  show "min 256 (unat w) = unat w" "min 255 (unat w) = unat w" by (simp_all only: min_absorb2 u8_le)
  show "d \<le> 4 \<Longrightarrow> min 9 (device_size d) = device_size d"
    using device_size_ok(2) [of d] by simp
  show "n \<le> HWE_INST_REG_MAX \<Longrightarrow> min HWE_INST_REG_MAX n = n" by simp
qed

lemma body_write:
  assumes "wf_body (hd_type (hc_head c)) (hc_body c)"
  shows "hwe_body_write c = Ok (body_image (hc_body c))"
  using assms
  by (auto simp: wf_body_def hwe_body_write_def Let_def hwe_type_defs body_image_def hwe_info_write_def
      hwe_mem32_write_def hwe_inst32_write_def memcpy_from_def device_size_ok
      split: hwe_body.splits)

lemma body_sizeof:
  assumes "wf_body (hd_type (hc_head c)) (hc_body c)"
  shows "hwe_sizeof c = Ok (hwe_head_sizeof c + length (body_image (hc_body c)))"
  using assms
  by (auto simp: wf_body_def hwe_sizeof_def Let_def hwe_type_defs body_image_def hwe_info_sizeof_def
      hwe_mem32_sizeof_def hwe_memglobal_sizeof_def hwe_ack_sizeof_def hwe_inst32_sizeof_def
      hwe_excep32_sizeof_def hwe_cpu32_sizeof_def hwe_codec_simps device_size_ok(1) nregs4 split: hwe_body.splits)

lemma take_app: "n = length xs \<Longrightarrow> take n (xs @ ys) = xs" "n = length xs \<Longrightarrow> drop n (xs @ ys) = ys"
  by simp_all

lemma info_read:
  assumes "wf_body HWE_INFO (B_info i)"
  shows "hwe_info_read st (body_image (B_info i) @ rest) =
    Ok (Some (length (body_image (B_info i)), reread_body st (B_info i)))"
  using assms
  by (simp add: wf_body_def hwe_info_read_def body_image_def reread_body_def hwe_codec_simps Let_def
      device_size_ok(1) take_app)

lemma mem32_read:
  assumes "wf_body HWE_MEM32 (B_mem m)"
  shows "hwe_mem32_read st (body_image (B_mem m) @ rest) =
    Some (length (body_image (B_mem m)), reread_body st (B_mem m))"
  using assms
  by (auto simp: wf_body_def hwe_mem32_read_def body_image_def reread_body_def hwe_codec_simps Let_def
      bit1 take_app)

lemma inst32_read:
  assumes wf: "wf_body HWE_INST32 (B_inst i)"
  shows "hwe_inst32_read st (body_image (B_inst i) @ rest) =
    Ok (Some (length (body_image (B_inst i)), reread_body st (B_inst i)))"
proof -
  let ?n = "unat (in_nregs (ic_body i))"
  let ?ds = "take ?n (ic_reg_data i)"
  have n: "?n \<le> HWE_INST_REG_MAX" "length ?ds = ?n" "in_regdata (ic_body i) \<noteq> 0 \<or> ?n = 0"
    using wf by (auto simp: wf_body_def)
  have d: "dec_list un_le32 4 ?n (enc_list le32 ?ds @ xs) = ?ds" for xs
    using word32.dec_list_enc_list [of ?ds xs] n(2) by simp
  have e: "(if in_regdata (ic_body i) \<noteq> 0 then unat (4 * in_nregs (ic_body i)) else 0) = 4 * ?n"
    using n nregs4 [of "in_nregs (ic_body i)"] by auto
  show ?thesis
    using wf n(1) d
    by (simp add: wf_body_def hwe_inst32_read_def body_image_def reread_body_def hwe_codec_simps Let_def
        e take_app)
qed

lemma body_read:
  assumes "wf_body (hd_type (hc_head c)) b" "hc_body c = B_none"
  shows "hwe_body_read st c (body_image b @ rest) =
    Ok (Some (length (body_image b), c\<lparr>hc_body := reread_body st b\<rparr>))"
proof (cases b)
  case (B_info i)
  then show ?thesis
    using assms info_read [of i st rest] by (auto simp: wf_body_def hwe_body_read_def hwe_type_defs)
next
  case (B_mem m)
  then show ?thesis
    using assms mem32_read [of m st rest] by (auto simp: wf_body_def hwe_body_read_def hwe_type_defs)
next
  case (B_inst i)
  then show ?thesis
    using assms inst32_read [of i st rest] by (auto simp: wf_body_def hwe_body_read_def hwe_type_defs)
qed (use assms in \<open>auto simp: wf_body_def hwe_body_read_def hwe_type_defs body_image_def reread_body_def
      hwe_memglobal_read_def hwe_ack_read_def hwe_excep32_read_def hwe_cpu32_read_def hwe_codec_simps\<close>)

text \<open>C7: Events survive the trace file. The bytes that \<open>hwe_write\<close> produces for an event are as
  many as \<open>hwe_sizeof\<close> announces, and \<open>hwe_read\<close> on a buffer that starts with them uses exactly
  these bytes and gives the event, its references and its device back, with the index computed
  from the previous event of the device.\<close>

theorem hwe_write_read:
  assumes "wf_head c idrefs" "wf_body (hd_type (hc_head c)) (hc_body c)"
  shows "\<exists>bs. hwe_write c idrefs = Ok bs \<and> hwe_sizeof c = Ok (length bs) \<and>
    hwe_read st (bs @ rest) previd = Ok (Some (length bs,
      reread st (if unat (id_devid (hc_id c)) < length previd then previd ! unat (id_devid (hc_id c)) else 0) c,
      take (unat (hd_nrefs (hc_head c))) idrefs))"
proof -
  define bs where "bs = head_image c idrefs @ body_image (hc_body c)"
  have w: "hwe_write c idrefs = Ok bs"
    by (simp add: hwe_write_def head_write [OF assms(1)] body_write [OF assms(2)] bs_def)
  have l: "length bs = hwe_head_sizeof c + length (body_image (hc_body c))"
    by (simp add: bs_def length_head_image [OF assms(1)])
  have d: "drop (hwe_head_sizeof c) (bs @ rest) = body_image (hc_body c) @ rest"
    by (simp add: bs_def take_app length_head_image [OF assms(1)])
  show ?thesis
    using w l body_sizeof [OF assms(2)] assms
    by (simp add: hwe_read_def head_read [OF assms(1), of st "body_image (hc_body c) @ rest"]
        d [unfolded bs_def, simplified] bs_def body_read hwe_id_compute_def reread_def Let_def)
qed

lemma info_read_prefix:
  assumes "wf_body HWE_INFO (B_info i)" "j < length (body_image (B_info i))"
  shows "hwe_info_read st (take j (body_image (B_info i))) = Ok None"
  using assms
  by (auto simp: wf_body_def hwe_info_read_def body_image_def hwe_codec_simps Let_def device_size_ok(1))

lemma mem32_read_prefix:
  assumes "wf_body HWE_MEM32 (B_mem m)" "j < length (body_image (B_mem m))"
  shows "hwe_mem32_read st (take j (body_image (B_mem m))) = None"
  using assms
  by (auto simp: wf_body_def hwe_mem32_read_def body_image_def hwe_codec_simps Let_def bit1 split: if_splits)

lemma inst32_read_prefix:
  assumes wf: "wf_body HWE_INST32 (B_inst i)" and j: "j < length (body_image (B_inst i))"
  shows "hwe_inst32_read st (take j (body_image (B_inst i))) = Ok None"
proof -
  let ?n = "unat (in_nregs (ic_body i))"
  have e: "(if in_regdata (ic_body i) \<noteq> 0 then unat (4 * in_nregs (ic_body i)) else 0) = 4 * ?n"
    using wf nregs4 [of "in_nregs (ic_body i)"] by (auto simp: wf_body_def)
  show ?thesis
  proof (cases "j < 20")
    case True
    then have "length (take j (body_image (B_inst i))) < 20" by simp
    then show ?thesis by (simp only: hwe_inst32_read_def if_True)
  next
    case False
    define tl where "tl = (if in_jump (ic_body i) \<noteq> 0 then le32 (ic_jump_pc i) else [])
      @ take ?n (ic_reg_id i) @ enc_list le32 (take ?n (ic_reg_data i))"
    have im: "body_image (B_inst i) = enc_inst32 (ic_body i) @ tl" by (simp add: body_image_def tl_def)
    have t: "take j (body_image (B_inst i)) = enc_inst32 (ic_body i) @ take (j - 20) tl"
      using False by (simp add: im hwe_codec_simps)
    have "length tl = (if in_jump (ic_body i) \<noteq> 0 then 4 else 0) + ?n + 4 * ?n"
      using wf by (simp add: tl_def wf_body_def hwe_codec_simps)
    then show ?thesis
      using j False by (simp add: t im hwe_inst32_read_def hwe_codec_simps Let_def e)
  qed
qed

lemma body_read_prefix:
  assumes "wf_body (hd_type (hc_head c)) b" "j < length (body_image b)"
  shows "hwe_body_read st c (take j (body_image b)) = Ok None"
proof (cases b)
  case (B_info i)
  then show ?thesis
    using assms info_read_prefix [of i j st] by (auto simp: wf_body_def hwe_body_read_def hwe_type_defs)
next
  case (B_mem m)
  then show ?thesis
    using assms mem32_read_prefix [of m j st] by (auto simp: wf_body_def hwe_body_read_def hwe_type_defs)
next
  case (B_inst i)
  then show ?thesis
    using assms inst32_read_prefix [of i j st] by (auto simp: wf_body_def hwe_body_read_def hwe_type_defs)
qed (use assms in \<open>auto simp: wf_body_def hwe_body_read_def hwe_type_defs body_image_def
      hwe_memglobal_read_def hwe_ack_read_def hwe_excep32_read_def hwe_cpu32_read_def hwe_codec_simps\<close>)

lemma head_read_prefix:
  assumes "wf_head c idrefs" "k < hwe_head_sizeof c"
  shows "hwe_head_read st (take k (head_image c idrefs)) = Ok None"
proof (cases "k < 15")
  case True
  then have "length (take k (head_image c idrefs)) < 15" by simp
  then show ?thesis by (simp only: hwe_head_read_def if_True)
next
  case False
  then obtain j where k: "k = 15 + j" by (metis le_add_diff_inverse not_le)
  define tl where "tl = enc_list le64 (take (unat (hd_ndates (hc_head c))) (hc_dates c))
     @ enc_list enc_id (take (unat (hd_nrefs (hc_head c))) idrefs)"
  have t: "take k (head_image c idrefs) = id_devid (hc_id c) # enc_head (hc_head c) @ take j tl"
    using k take_app [of 14 "enc_head (hc_head c)"]
    unfolding head_image_def tl_def [symmetric] by (simp add: take_Cons' hwe_codec_simps)
  have "length (take j tl) = j"
    using assms k length_head_image [OF assms(1)] by (simp add: head_image_def tl_def hwe_codec_simps)
  moreover have "j < 8 * unat (hd_ndates (hc_head c)) + 9 * unat (hd_nrefs (hc_head c))"
    using assms(2) k by (simp add: hwe_head_sizeof_def)
  ultimately show ?thesis
    unfolding t by (simp add: hwe_head_read_def hwe_codec_simps Let_def)
qed

text \<open>C8: A reader never takes a part of an event for an event: on every proper prefix of what
  \<open>hwe_write\<close> produced, \<open>hwe_read\<close> returns 0 and asks for more bytes.\<close>

theorem hwe_read_prefix:
  assumes "wf_head c idrefs" "wf_body (hd_type (hc_head c)) (hc_body c)"
    and "hwe_write c idrefs = Ok bs" "k < length bs"
  shows "hwe_read st (take k bs) previd = Ok None"
proof -
  have bs: "bs = head_image c idrefs @ body_image (hc_body c)"
    using assms(3) by (simp add: hwe_write_def head_write [OF assms(1)] body_write [OF assms(2)])
  note len = length_head_image [OF assms(1)]
  show ?thesis
  proof (cases "k < hwe_head_sizeof c")
    case True
    then show ?thesis
      using head_read_prefix [OF assms(1) True] len by (simp add: bs hwe_read_def)
  next
    case False
    define j where "j = k - hwe_head_sizeof c"
    have t: "take k bs = head_image c idrefs @ take j (body_image (hc_body c))"
      using False len by (simp add: bs j_def)
    have "j < length (body_image (hc_body c))" using assms(4) False len by (simp add: bs j_def)
    then show ?thesis
      using assms(2) len
      by (simp add: t hwe_read_def head_read [OF assms(1)] take_app Let_def hwe_id_compute_def body_read_prefix)
  qed
qed

definition demo_load :: hwe_cont where
  "demo_load = \<lparr>hc_id = \<lparr>id_devid = 1, id_index = 41\<rparr>,
     hc_head = \<lparr>hd_type = HWE_MEM32, hd_rid = 1, hd_ndates = 1, hd_nrefs = 1, hd_expected = 1,
       hd_nchild = 0, hd_com_child = 0\<rparr>,
     hc_dates = [77, 0],
     hc_body = B_mem \<lparr>mc_body = \<lparr>mm_access = 0, mm_inst = 0, mm_condfailed = 0, mm_usedata = 1,
       mm_rcvack = 1, mm_width = 3, mm_addr = 0x8000, mm_cpureq_width = 3, mm_cpureq_addr = 0x8000\<rparr>,
       mc_data = replicate 256 5\<rparr>\<rparr>"

definition no_stale :: stale where
  "no_stale = \<lparr>st_dates = [0, 0], st_data = replicate 256 0, st_jump_pc = 0, st_reg_id = [],
     st_reg_data = [], st_name = [], st_detail = []\<rparr>"

lemma demo_load_wf:
  "wf_head demo_load [\<lparr>id_devid = 0, id_index = 9\<rparr>]"
  "wf_body (hd_type (hc_head demo_load)) (hc_body demo_load)"
  by (simp_all add: wf_head_def wf_body_def demo_load_def HWE_DATE_MAX_def HWE_REF_MAX_def)

theorem hwe_write_read_witness:
  "\<exists>bs. hwe_write demo_load [\<lparr>id_devid = 0, id_index = 9\<rparr>] = Ok bs \<and>
    hwe_sizeof demo_load = Ok (length bs) \<and>
    hwe_read no_stale bs [12, 40] = Ok (Some (length bs, reread no_stale 40 demo_load, [\<lparr>id_devid = 0, id_index = 9\<rparr>]))
    \<and> id_index (hc_id (reread no_stale 40 demo_load)) = 41"
  using hwe_write_read [OF demo_load_wf, of no_stale "[]" "[12, 40]"]
  by (simp add: demo_load_def reread_def hwe_id_compute_def)

theorem hwe_read_prefix_witness:
  "\<exists>bs. hwe_write demo_load [\<lparr>id_devid = 0, id_index = 9\<rparr>] = Ok bs \<and>
    hwe_read no_stale (take 20 bs) [] = Ok None"
proof -
  obtain bs where bs: "hwe_write demo_load [\<lparr>id_devid = 0, id_index = 9\<rparr>] = Ok bs"
    "bs = head_image demo_load [\<lparr>id_devid = 0, id_index = 9\<rparr>] @ body_image (hc_body demo_load)"
    by (simp add: hwe_write_def head_write [OF demo_load_wf(1)] body_write [OF demo_load_wf(2)])
  have "20 < length bs"
    using length_head_image [OF demo_load_wf(1)] by (simp add: bs(2) hwe_head_sizeof_def demo_load_def)
  then show ?thesis
    using hwe_read_prefix [OF demo_load_wf bs(1)] bs(1) by blast
qed

section \<open>Indices\<close>

lemma sint_word_of_int4: "- 8 \<le> x \<Longrightarrow> x \<le> 7 \<Longrightarrow> sint (word_of_int x :: 4 word) = x"
  unfolding sint_sbintrunc' by (rule signed_take_bit_int_eq_self) auto
lemma sint_trunc32:
  fixes d :: u64
  assumes "- (2 ^ 31) \<le> sint d" "sint d < 2 ^ 31"
  shows "sint (ucast d :: u32) = sint d"
proof -
  have "(ucast :: u64 \<Rightarrow> u32) = scast"
    by (rule down_cast_same) (simp add: is_down)
  then have "(ucast d :: u32) = scast d" by (rule fun_cong)
  also have "\<dots> = word_of_int (sint d)" by (rule scast_eq)
  finally have "sint (ucast d :: u32) = signed_take_bit 31 (sint d)"
    using sint_sbintrunc' [where ?'a = 32, of "sint d"] by simp
  also have "\<dots> = sint d" using assms by (rule signed_take_bit_int_eq_self)
  finally show ?thesis .
qed

lemma scast_rid:
  fixes d :: u64
  assumes "- 8 \<le> sint d" "sint d \<le> 7"
  shows "scast (scast d :: 4 word) = d"
proof -
  have "sint (scast d :: 4 word) = sint d"
    unfolding scast_eq [of d] using assms by (rule sint_word_of_int4)
  then show ?thesis by (metis scast_eq scast_id)
qed

text \<open>C9: The identity of an event is recovered from the trace. If the index of an event is at most
  \<open>2\<^sup>3\<^sup>1\<close> away from the previous one and \<open>hwe_head_rid_compute\<close> accepts it, the reader's
  \<open>hwe_id_compute\<close> finds the index from the four bits of the header. If it is refused, the \<open>HWE_ID\<close>
  record that is written instead gives the whole index back.\<close>

theorem index_recovered:
  assumes "hwe_head_rid_compute c prev = (ok, c')"
    and "- (2 ^ 31) \<le> sint (id_index (hc_id c) - prev)" "sint (id_index (hc_id c) - prev) < 2 ^ 31"
  shows "(ok \<longrightarrow> hwe_id_compute c' prev = c') \<and>
    hwe_read st (hwe_id_write c @ rest) previd = Ok (Some (HWE_ID_SIZEOF,
      \<lparr>hc_id = hc_id c, hc_head = id_head, hc_dates = st_dates st, hc_body = B_none\<rparr>, []))"
proof
  let ?d = "id_index (hc_id c) - prev"
  have "sint (ucast ?d :: u32) = sint ?d" by (rule sint_trunc32 [OF assms(2,3)])
  then show "ok \<longrightarrow> hwe_id_compute c' prev = c'"
    using assms(1) by (auto simp: hwe_head_rid_compute_def hwe_id_compute_def Let_def scast_rid not_less
        split: if_splits)
next
  show "hwe_read st (hwe_id_write c @ rest) previd = Ok (Some (HWE_ID_SIZEOF,
      \<lparr>hc_id = hc_id c, hc_head = id_head, hc_dates = st_dates st, hc_body = B_none\<rparr>, []))"
    by (simp add: hwe_read_def hwe_head_read_def hwe_id_write_def hwe_codec_simps Let_def id_head_def
        hwe_body_read_def HWE_ID_def hwe_id_read_def hwe_id_compute_def overlay_def HWE_ID_SIZEOF_def)
qed

theorem index_recovered_witness:
  "fst (hwe_head_rid_compute demo_load 40) \<and>
   hwe_id_compute (snd (hwe_head_rid_compute demo_load 40)) 40 = snd (hwe_head_rid_compute demo_load 40)"
  using index_recovered [of demo_load 40 "fst (hwe_head_rid_compute demo_load 40)"
      "snd (hwe_head_rid_compute demo_load 40)" no_stale "[]" "[]"]
  by (simp add: demo_load_def hwe_head_rid_compute_def Let_def)

text \<open>The difference of the indices is cut to 32 bits before the test of its range: an index that
  is \<open>2\<^sup>3\<^sup>2 + 1\<close> further on is accepted, and read back as the next one.\<close>

lemma index_truncated:
  defines "d \<equiv> demo_load\<lparr>hc_id := \<lparr>id_devid = 1, id_index = 40 + 2 ^ 32 + 1\<rparr>\<rparr>"
  shows "fst (hwe_head_rid_compute d 40)"
    "id_index (hc_id (hwe_id_compute (snd (hwe_head_rid_compute d 40)) 40)) = 41"
  by (simp_all add: d_def hwe_head_rid_compute_def hwe_id_compute_def Let_def)

text \<open>The values of the registers are written even when the event does not announce them: the image
  is then longer than \<open>hwe_sizeof\<close> says, and the next event is read from the middle of it.\<close>

lemma inst32_unannounced_data:
  assumes "in_regdata (ic_body i) = 0" "in_jump (ic_body i) = 0" "in_nregs (ic_body i) = 1"
    "length (ic_reg_id i) = HWE_INST_REG_MAX" "length (ic_reg_data i) = HWE_INST_REG_MAX"
    "hwe_inst32_write i = Ok bs"
  shows "hwe_head_sizeof c + length bs = hwe_inst32_sizeof c i + 4"
  using assms by (auto simp: hwe_inst32_write_def memcpy_from_def HWE_INST_REG_MAX_def hwe_inst32_sizeof_def
      hwe_codec_simps split: if_splits)

end
