(* ===== verification/Delorean.thy ===== *)
theory Delorean
  imports Core_Cpu Core_Mem
begin

text \<open>
  The reverse debugger's recorder, \<open>tool/sherlock/src/delorean/delorean_main.c\<close> with the node
  types of \<open>src/delorean/cfg.h\<close> and the oracle of \<open>include/delorean.h\<close>.

  Every executed instruction, memory write and device event becomes a node of a graph: a doubly
  linked list in execution order (\<open>last_exec\<close>, \<open>next\<close>) and, for each register or address
  that the node writes, an edge to the node that wrote it before (\<open>last_write\<close>). Stepping
  back follows these edges. Nodes live in a heap, a pointer is the index of a node (the
  \<open>mem_data_t\<close> of a memory node is named by its node), a freed node is absent. Uninitialised
  memory is \<open>None\<close>, and reading it is undefined. Processors and memory devices are
  named by their device ids, memory is the plain memory that the hash table refines.
\<close>

section \<open>Nodes\<close>

record reg_node_t =
  rn_id :: u8
  rn_value :: u32
  rn_last_write :: node_ptr

record data_t =
  d_id :: "u8 option"
  d_n_reg :: u8
  d_n_mem :: u8
  d_reg :: "reg_node_t option list"
  d_mem :: "node_ptr list"

record mem_data_t =
  md_id :: "u8 option"
  md_addr :: u32
  md_value :: u32
  md_last_write :: node_ptr
  md_instr :: node_ptr

datatype node_data = D_inst data_t | D_mem mem_data_t | D_dev "u8 option"

record inst_node_t =
  n_data :: node_data
  n_next :: node_ptr
  n_last_exec :: node_ptr

record dl_state =
  dl_nodes :: "nat \<Rightarrow> inst_node_t option"
  dl_fresh :: nat
  dl_cpus :: "u8 \<Rightarrow> cpu_t option"
  dl_mems :: "u8 \<Rightarrow> mem_t option"
  dl_memory :: "u32 \<Rightarrow> node_ptr sl_addr_t"
  o_n_cpu :: u8
  o_n_mem :: u8
  o_cpu :: "u8 option list"
  o_mem :: "u8 option list"
  o_last_exec :: node_ptr

datatype comp_type_t = COMP_CPU | COMP_CACHE | COMP_MEM | COMP_PERIPH

text \<open>\<open>gdb_param_t\<close>, with the members that the oracle fills in.\<close>

datatype gdb_param = P_none | P_cpu u16 u32 | P_mem u16 u32 u32

section \<open>Accesses to the heap\<close>

definition deref :: "node_ptr \<Rightarrow> dl_state \<Rightarrow> inst_node_t result" where
  "deref p s = (case p of None \<Rightarrow> Stop Undefined
     | Some n \<Rightarrow> (case dl_nodes s n of None \<Rightarrow> Stop Undefined | Some x \<Rightarrow> Ok x))"

definition store_node :: "nat \<Rightarrow> inst_node_t \<Rightarrow> dl_state \<Rightarrow> dl_state" where
  "store_node n x s = s\<lparr>dl_nodes := (dl_nodes s)(n := Some x)\<rparr>"

definition inst_of :: "inst_node_t \<Rightarrow> data_t result" where
  "inst_of x = (case n_data x of D_inst d \<Rightarrow> Ok d | _ \<Rightarrow> Stop Undefined)"

definition initialised :: "'a option \<Rightarrow> 'a result" where
  "initialised v = (case v of None \<Rightarrow> Stop Undefined | Some x \<Rightarrow> Ok x)"

definition get_cpu :: "u8 \<Rightarrow> dl_state \<Rightarrow> cpu_t result" where
  "get_cpu i s = initialised (dl_cpus s i)"

definition set_cpu :: "u8 \<Rightarrow> cpu_t \<Rightarrow> dl_state \<Rightarrow> dl_state" where
  "set_cpu i c s = s\<lparr>dl_cpus := (dl_cpus s)(i := Some c)\<rparr>"

definition get_mem :: "u8 \<Rightarrow> dl_state \<Rightarrow> mem_t result" where
  "get_mem i s = initialised (dl_mems s i)"

definition set_mem :: "u8 \<Rightarrow> mem_t \<Rightarrow> dl_state \<Rightarrow> dl_state" where
  "set_mem i c s = s\<lparr>dl_mems := (dl_mems s)(i := Some c)\<rparr>"

definition node_type :: "inst_node_t \<Rightarrow> comp_type_t" where
  "node_type x = (case n_data x of D_inst _ \<Rightarrow> COMP_CPU | D_mem _ \<Rightarrow> COMP_MEM | D_dev _ \<Rightarrow> COMP_PERIPH)"

section \<open>Creating nodes\<close>

text \<open>\<open>create_inst_node\<close> for the three kinds. The number of registers is the low byte of the
  argument.\<close>

definition new_node :: "node_data \<Rightarrow> dl_state \<Rightarrow> nat \<times> dl_state" where
  "new_node d s = (dl_fresh s,
     (store_node (dl_fresh s) \<lparr>n_data = d, n_next = None, n_last_exec = None\<rparr> s)
       \<lparr>dl_fresh := Suc (dl_fresh s)\<rparr>)"

definition create_cpu_node :: "u8 \<Rightarrow> dl_state \<Rightarrow> nat \<times> dl_state" where
  "create_cpu_node n_reg =
     new_node (D_inst \<lparr>d_id = None, d_n_reg = n_reg, d_n_mem = 0,
                       d_reg = replicate (unat n_reg) None, d_mem = []\<rparr>)"

definition create_mem_node :: "dl_state \<Rightarrow> nat \<times> dl_state" where
  "create_mem_node =
     new_node (D_mem \<lparr>md_id = None, md_addr = 0, md_value = 0, md_last_write = None, md_instr = None\<rparr>)"

definition create_dev_node :: "dl_state \<Rightarrow> nat \<times> dl_state" where
  "create_dev_node = new_node (D_dev None)"

definition destroy_inst_node :: "nat \<Rightarrow> dl_state \<Rightarrow> dl_state" where
  "destroy_inst_node n s = s\<lparr>dl_nodes := (dl_nodes s)(n := None)\<rparr>"

text \<open>The three statements that append a node to the execution order.\<close>

definition oracle_append :: "nat \<Rightarrow> dl_state \<Rightarrow> dl_state result" where
  "oracle_append n s =
     bind_result (deref (Some n) s) (\<lambda>x.
     bind_result (deref (o_last_exec s) (store_node n (x\<lparr>n_last_exec := o_last_exec s\<rparr>) s)) (\<lambda>y.
       Ok ((store_node (the (o_last_exec s)) (y\<lparr>n_next := Some n\<rparr>)
              (store_node n (x\<lparr>n_last_exec := o_last_exec s\<rparr>) s))\<lparr>o_last_exec := Some n\<rparr>)))"

section \<open>Registering components\<close>

definition BANK_SPSR :: u8 where "BANK_SPSR = 0x40"
definition REGID_FIQ :: u8 where "REGID_FIQ = 0x10"
definition ARM_REGS :: u8 where "ARM_REGS = 37"

text \<open>The register nodes of the reset node, in the order the code writes them.\<close>

definition reset_ids :: "(u8 \<times> u32) list" where
  "reset_ids = [(0xFF, 0x400001C0 OR ARM_CPU_MODE_SVC), (0xFE, 0)]
     @ concat (map (\<lambda>i. (word_of_nat i, 0) #
         (if i = 15 then []
          else if i > 12 then map (\<lambda>j. (word_of_nat i OR push_bit 4 (word_of_nat j), 0)) [1..<6]
          else if i > 7 then [(word_of_nat i OR REGID_FIQ, 0)] else [])) [0..<16])
     @ map (\<lambda>j. (BANK_SPSR OR push_bit 4 (word_of_nat j), 0)) [1..<6]"

definition reset_reg :: "nat \<Rightarrow> reg_t \<Rightarrow> reg_t" where
  "reset_reg n r = r\<lparr>r_last_write := Some n\<rparr>"

definition reset_cpu :: "nat \<Rightarrow> cpu_t \<Rightarrow> cpu_t" where
  "reset_cpu n c = c\<lparr>c_last_exec := Some n, c_cpsr := reset_reg n (c_cpsr c), c_spsr := reset_reg n (c_spsr c),
     c_regs := map (reset_reg n) (c_regs c), c_banked_r13 := map (reset_reg n) (c_banked_r13 c),
     c_banked_r14 := map (reset_reg n) (c_banked_r14 c), c_banked_spsr := map (reset_reg n) (c_banked_spsr c),
     c_usr_regs := map (reset_reg n) (c_usr_regs c), c_fiq_regs := map (reset_reg n) (c_fiq_regs c)\<rparr>"

definition realloc :: "nat \<Rightarrow> 'a option list \<Rightarrow> 'a option list" where
  "realloc n xs = take n xs @ replicate (n - length xs) None"

definition pg_comp_cpu :: "u8 \<Rightarrow> dl_state \<Rightarrow> dl_state result" where
  "pg_comp_cpu i s =
     bind_result (get_cpu i s) (\<lambda>cpu.
       let (n, s1) = create_cpu_node (ARM_REGS + 1) s;
           nc = o_n_cpu s + 1
       in bind_result (arr_set (realloc (unat nc) (o_cpu s)) (unat (c_id cpu)) (Some i)) (\<lambda>arr.
          let s2 = s1\<lparr>o_n_cpu := nc, o_cpu := arr\<rparr>;
              d = \<lparr>d_id = None, d_n_reg = ARM_REGS, d_n_mem = 0,
                   d_reg = map (\<lambda>(r, v). Some \<lparr>rn_id = r, rn_value = v, rn_last_write = Some n\<rparr>) reset_ids,
                   d_mem = []\<rparr>;
              node = \<lparr>n_data = D_inst d, n_next = None, n_last_exec = Some n\<rparr>
          in bind_result
               (case o_last_exec s of None \<Rightarrow> Ok s2
                | Some l \<Rightarrow> bind_result (deref (Some l) s2) (\<lambda>x. Ok (store_node l (x\<lparr>n_next := Some n\<rparr>) s2)))
               (\<lambda>s3. Ok (set_cpu i (reset_cpu n cpu) (store_node n node (s3\<lparr>o_last_exec := Some n\<rparr>))))))"

definition pg_comp_mem :: "u8 \<Rightarrow> dl_state \<Rightarrow> dl_state result" where
  "pg_comp_mem i s =
     bind_result (get_mem i s) (\<lambda>mem.
       let nm = o_n_mem s + 1
       in bind_result (arr_set (realloc (unat nm) (o_mem s)) (unat (m_id mem)) (Some i)) (\<lambda>arr.
          let (n, s1) = create_mem_node (s\<lparr>o_n_mem := nm, o_mem := arr\<rparr>)
          in Ok ((set_mem i (mem\<lparr>m_last_exec := Some n\<rparr>) s1)\<lparr>o_last_exec := Some n\<rparr>)))"

section \<open>Recording\<close>

text \<open>\<open>dl_switch_mode\<close> takes a pointer to the end of the node's register array, reallocates the array
  and writes through the old pointer: once past its early return it is undefined.\<close>

definition dl_switch_mode :: "cpu_t \<Rightarrow> u32 \<Rightarrow> unit result" where
  "dl_switch_mode cpu mode =
     (if r_data (c_cpsr cpu) AND CPSR_MODE = mode then Ok () else Stop Undefined)"

text \<open>The edge that a write of register \<open>k\<close> of a bank adds: the previous writer and the bank
  with the new one.\<close>

definition link_reg :: "nat \<Rightarrow> reg_t list \<Rightarrow> nat \<Rightarrow> (node_ptr \<times> reg_t list) result" where
  "link_reg n rs k = bind_result (arr_get rs k) (\<lambda>r.
     Ok (r_last_write r, rs[k := r\<lparr>r_last_write := Some n\<rparr>]))"

text \<open>The body of the loop of \<open>delorean_pg_exec_cpu\<close>: the register node and the processor,
  \<open>None\<close> for a register it does not recognise.\<close>

definition log_reg :: "nat \<Rightarrow> u32 \<Rightarrow> u32 \<Rightarrow> cpu_t \<Rightarrow> (reg_node_t \<times> cpu_t) option result" where
  "log_reg n rid v cpu =
     (let id = (ucast rid :: u8);
          entry = (\<lambda>i lw. \<lparr>rn_id = i, rn_value = v, rn_last_write = lw\<rparr>)
      in if id < 16 then
           bind_result (link_reg n (c_regs cpu) (unat id)) (\<lambda>(lw, rs).
             Ok (Some (entry id lw, cpu\<lparr>c_regs := rs\<rparr>)))
         else if rid = REGID_CPSR then
           (let cpu' = cpu\<lparr>c_cpsr := (c_cpsr cpu)\<lparr>r_last_write := Some n\<rparr>\<rparr>
            in bind_result (dl_switch_mode cpu' (v AND CPSR_MODE)) (\<lambda>_.
                 Ok (Some (entry (ucast REGID_CPSR) (r_last_write (c_cpsr cpu)), cpu'))))
         else if rid = REGID_SPSR then
           Ok (Some (entry (ucast REGID_SPSR) (r_last_write (c_spsr cpu)),
                     cpu\<lparr>c_spsr := (c_spsr cpu)\<lparr>r_last_write := Some n\<rparr>\<rparr>))
         else if rid AND USER_REGS \<noteq> 0 then
           (let reg_id = rid AND 0x0F in
            if reg_id = 13 then
              bind_result (link_reg n (c_banked_r13 cpu) 0) (\<lambda>(lw, rs).
                Ok (Some (entry id lw, cpu\<lparr>c_banked_r13 := rs\<rparr>)))
            else if reg_id = 14 then
              bind_result (link_reg n (c_banked_r14 cpu) 0) (\<lambda>(lw, rs).
                Ok (Some (entry id lw, cpu\<lparr>c_banked_r14 := rs\<rparr>)))
            else if 8 \<le> reg_id \<and> rid AND FIQ_MODE \<noteq> 0 then
              bind_result (link_reg n (c_usr_regs cpu) (unat reg_id - 8)) (\<lambda>(lw, rs).
                Ok (Some (entry id lw, cpu\<lparr>c_usr_regs := rs\<rparr>)))
            else
              bind_result (link_reg n (c_regs cpu) (unat reg_id)) (\<lambda>(lw, rs).
                Ok (Some (entry id lw, cpu\<lparr>c_regs := rs\<rparr>))))
         else Ok None)"

definition put_reg_node :: "nat \<Rightarrow> nat \<Rightarrow> reg_node_t \<Rightarrow> dl_state \<Rightarrow> dl_state result" where
  "put_reg_node n i e s =
     bind_result (deref (Some n) s) (\<lambda>x.
     bind_result (inst_of x) (\<lambda>d.
     bind_result (arr_set (d_reg d) i (Some e)) (\<lambda>rs.
       Ok (store_node n (x\<lparr>n_data := D_inst (d\<lparr>d_reg := rs\<rparr>)\<rparr>) s))))"

fun log_regs :: "u8 \<Rightarrow> nat \<Rightarrow> nat \<Rightarrow> nat \<Rightarrow> exec_reg_t \<Rightarrow> dl_state \<Rightarrow> dl_state result" where
  "log_regs cid n i 0 regs s = Ok s"
| "log_regs cid n i (Suc k) regs s =
     bind_result (arr_get (x_id regs) i) (\<lambda>rid.
     bind_result (arr_get (x_data regs) i) (\<lambda>v.
     bind_result (get_cpu cid s) (\<lambda>cpu.
     bind_result (log_reg n rid v cpu) (\<lambda>r.
     bind_result (case r of None \<Rightarrow> Ok (destroy_inst_node n s)
                  | Some (e, cpu') \<Rightarrow> put_reg_node n i e (set_cpu cid cpu' s))
       (log_regs cid n (Suc i) k regs)))))"

definition delorean_pg_exec_cpu :: "u8 \<Rightarrow> exec_reg_t \<Rightarrow> dl_state \<Rightarrow> dl_state result" where
  "delorean_pg_exec_cpu cid regs s =
     bind_result (get_cpu cid s) (\<lambda>cpu.
       let (n, s1) = create_cpu_node (ucast (x_nreg regs)) s
       in bind_result (deref (Some n) s1) (\<lambda>x.
          bind_result (inst_of x) (\<lambda>d.
          bind_result (oracle_append n (store_node n (x\<lparr>n_data := D_inst (d\<lparr>d_id := Some (c_id cpu)\<rparr>)\<rparr>) s1))
            (log_regs cid n 0 (unat (x_nreg regs)) regs))))"

text \<open>\<open>add_mem_node\<close>: the counter is in the first bytes of every node but a device's. The array of
  an instruction is enlarged to the counter, which has eight bits.\<close>

definition add_mem_node :: "node_ptr \<Rightarrow> dl_state \<Rightarrow> (nat \<times> dl_state) result" where
  "add_mem_node inst s =
     bind_result (deref inst s) (\<lambda>x.
       case n_data x of
         D_inst d \<Rightarrow>
           (let n_mem = d_n_mem d + 1;
                (m, s1) = create_mem_node s
            in bind_result (arr_set (take (unat n_mem) (d_mem d) @ replicate (unat n_mem - length (d_mem d)) None)
                              (unat (ucast n_mem - 1 :: u32)) (Some m)) (\<lambda>arr.
               bind_result (deref (Some m) s1) (\<lambda>y.
               let s2 = store_node (the inst) (x\<lparr>n_data := D_inst (d\<lparr>d_n_mem := n_mem, d_mem := arr\<rparr>)\<rparr>) s1
               in case n_data y of
                    D_mem md \<Rightarrow> Ok (m, store_node m (y\<lparr>n_data := D_mem (md\<lparr>md_instr := inst\<rparr>)\<rparr>) s2)
                  | _ \<Rightarrow> Stop Undefined)))
       | D_mem _ \<Rightarrow> Ok (create_mem_node s)
       | D_dev _ \<Rightarrow> Stop Undefined)"

text \<open>\<open>delorean_pg_exec_mem\<close> for the device \<open>mid\<close> and the address whose contents have the key
  \<open>key\<close>.\<close>

definition delorean_pg_exec_mem :: "u8 \<Rightarrow> u32 \<Rightarrow> node_ptr \<Rightarrow> u32 \<Rightarrow> dl_state \<Rightarrow> dl_state result" where
  "delorean_pg_exec_mem mid key inst addr s =
     bind_result (add_mem_node inst s) (\<lambda>(m, s1).
     bind_result (get_mem mid s1) (\<lambda>mem.
     bind_result (deref (Some m) s1) (\<lambda>y.
       case n_data y of
         D_mem md \<Rightarrow>
           (let data = dl_memory s1 key;
                md' = md\<lparr>md_addr := addr, md_value := sa_value data, md_id := Some (ucast (m_id mem)),
                         md_last_write := sa_meta data\<rparr>
            in oracle_append m ((store_node m (y\<lparr>n_data := D_mem md'\<rparr>) s1)
                 \<lparr>dl_memory := (dl_memory s1)(key := data\<lparr>sa_meta := Some m\<rparr>)\<rparr>))
       | _ \<Rightarrow> Stop Undefined)))"

definition delorean_pg_exec_dev :: "u8 \<Rightarrow> dl_state \<Rightarrow> dl_state result" where
  "delorean_pg_exec_dev mid s =
     bind_result (get_mem mid s) (\<lambda>dev.
       let (n, s1) = create_dev_node s
       in bind_result (deref (Some n) s1) (\<lambda>x.
            oracle_append n (store_node n (x\<lparr>n_data := D_dev (Some (ucast (m_id dev)))\<rparr>) s1)))"

section \<open>Going back and forth\<close>

text \<open>\<open>get_reg_last_write\<close>: the first of the \<open>n\<close> register nodes with the id, if any; the first
  one is read even when there is none.\<close>

fun find_reg :: "u8 \<Rightarrow> nat \<Rightarrow> reg_node_t option list \<Rightarrow> reg_node_t option result" where
  "find_reg rid n [] = Stop Undefined"
| "find_reg rid n (e # es) =
     bind_result (initialised e) (\<lambda>r.
       if rn_id r = rid then Ok (Some r)
       else if n \<le> 1 then Ok None
       else find_reg rid (n - 1) es)"

definition get_reg_last_write :: "node_ptr \<Rightarrow> reg_t \<Rightarrow> u8 \<Rightarrow> dl_state \<Rightarrow> reg_t result" where
  "get_reg_last_write last_write new rid s =
     bind_result (deref last_write s) (\<lambda>x.
     bind_result (inst_of x) (\<lambda>d.
     bind_result (find_reg rid (unat (d_n_reg d)) (d_reg d)) (\<lambda>r.
       case r of None \<Rightarrow> Ok new
       | Some old \<Rightarrow> Ok (new\<lparr>r_data := rn_value old, r_last_write := rn_last_write old\<rparr>))))"

definition set_reg_next_write :: "nat \<Rightarrow> reg_t \<Rightarrow> u32 \<Rightarrow> reg_t" where
  "set_reg_next_write n new value = new\<lparr>r_data := value, r_last_write := Some n\<rparr>"

text \<open>Undoing and redoing one register node.\<close>

definition undo_reg :: "dl_state \<Rightarrow> reg_node_t option \<Rightarrow> cpu_t \<Rightarrow> cpu_t result" where
  "undo_reg s e cpu =
     bind_result (initialised e) (\<lambda>r.
       if rn_id r < 16 then
         bind_result (arr_get (c_regs cpu) (unat (rn_id r))) (\<lambda>old.
         bind_result (get_reg_last_write (rn_last_write r) old (rn_id r) s) (\<lambda>new.
           Ok (cpu\<lparr>c_regs := (c_regs cpu)[unat (rn_id r) := new]\<rparr>)))
       else if rn_id r = ucast REGID_CPSR then
         bind_result (get_reg_last_write (rn_last_write r) (c_cpsr cpu) (rn_id r) s) (\<lambda>new.
           Ok (cpu\<lparr>c_cpsr := new\<rparr>))
       else if rn_id r = ucast REGID_SPSR then
         bind_result (get_reg_last_write (rn_last_write r) (c_spsr cpu) (rn_id r) s) (\<lambda>new.
           Ok (cpu\<lparr>c_spsr := new\<rparr>))
       else Ok cpu)"

definition redo_reg :: "nat \<Rightarrow> reg_node_t option \<Rightarrow> cpu_t \<Rightarrow> cpu_t result" where
  "redo_reg n e cpu =
     bind_result (initialised e) (\<lambda>r.
       if rn_id r < 16 then
         bind_result (arr_get (c_regs cpu) (unat (rn_id r))) (\<lambda>old.
           Ok (cpu\<lparr>c_regs := (c_regs cpu)[unat (rn_id r) := set_reg_next_write n old (rn_value r)]\<rparr>))
       else if rn_id r = ucast REGID_CPSR then
         Ok (cpu\<lparr>c_cpsr := set_reg_next_write n (c_cpsr cpu) (rn_value r)\<rparr>)
       else if rn_id r = ucast REGID_SPSR then
         Ok (cpu\<lparr>c_spsr := set_reg_next_write n (c_spsr cpu) (rn_value r)\<rparr>)
       else Ok cpu)"

definition reg_prefix :: "data_t \<Rightarrow> reg_node_t option list result" where
  "reg_prefix d = (if unat (d_n_reg d) \<le> length (d_reg d) then Ok (take (unat (d_n_reg d)) (d_reg d))
                   else Stop Undefined)"

definition cpu_reverse_exec :: "u8 \<Rightarrow> dl_state \<Rightarrow> (u32 \<times> dl_state) result" where
  "cpu_reverse_exec cid s =
     bind_result (get_cpu cid s) (\<lambda>cpu.
     bind_result (deref (c_last_exec cpu) s) (\<lambda>x.
     bind_result (inst_of x) (\<lambda>d.
     bind_result (reg_prefix d) (\<lambda>es.
     bind_result (fold_result (undo_reg s) es cpu) (\<lambda>cpu'.
     bind_result (arr_get (c_regs cpu') 15) (\<lambda>r15.
       Ok (r_data r15, set_cpu cid cpu' s)))))))"

definition cpu_forward_exec :: "u8 \<Rightarrow> dl_state \<Rightarrow> (u32 \<times> dl_state) result" where
  "cpu_forward_exec cid s =
     bind_result (get_cpu cid s) (\<lambda>cpu.
     bind_result (deref (c_next_exec cpu) s) (\<lambda>x.
     bind_result (inst_of x) (\<lambda>d.
     bind_result (reg_prefix d) (\<lambda>es.
     bind_result (fold_result (redo_reg (the (c_next_exec cpu))) es cpu) (\<lambda>cpu'.
     bind_result (arr_get (c_regs cpu') 15) (\<lambda>r15.
       Ok (r_data r15, set_cpu cid cpu' s)))))))"

definition mem_of :: "inst_node_t \<Rightarrow> mem_data_t result" where
  "mem_of x = (case n_data x of D_mem d \<Rightarrow> Ok d | _ \<Rightarrow> Stop Undefined)"

definition mem_reverse_exec :: "u8 \<Rightarrow> dl_state \<Rightarrow> dl_state result" where
  "mem_reverse_exec mid s =
     bind_result (get_mem mid s) (\<lambda>mem.
     bind_result (deref (m_last_exec mem) s) (\<lambda>x.
     bind_result (mem_of x) (\<lambda>md.
       let new = dl_memory s (md_addr md);
           new' = (if md_last_write md = None then new\<lparr>sa_value := 0, sa_meta := None\<rparr>
                   else new\<lparr>sa_value := md_value md, sa_meta := md_last_write md\<rparr>)
       in Ok (s\<lparr>dl_memory := (dl_memory s)(md_addr md := new')\<rparr>))))"

definition mem_forward_exec :: "u8 \<Rightarrow> dl_state \<Rightarrow> dl_state result" where
  "mem_forward_exec mid s =
     bind_result (get_mem mid s) (\<lambda>mem.
     bind_result (deref (m_last_exec mem) s) (\<lambda>x.
     bind_result (mem_of x) (\<lambda>md.
       Ok (s\<lparr>dl_memory := (dl_memory s)(md_addr md :=
              (dl_memory s (md_addr md))\<lparr>sa_value := md_value md, sa_meta := md_last_write md\<rparr>)\<rparr>))))"

text \<open>The device of a node through the oracle's tables, which are indexed by device ids.\<close>

definition oracle_cpu :: "u8 option \<Rightarrow> dl_state \<Rightarrow> u8 result" where
  "oracle_cpu i s = bind_result (initialised i) (\<lambda>k.
     bind_result (arr_get (o_cpu s) (unat k)) initialised)"

definition oracle_mem :: "u8 option \<Rightarrow> dl_state \<Rightarrow> u8 result" where
  "oracle_mem i s = bind_result (initialised i) (\<lambda>k.
     bind_result (arr_get (o_mem s) (unat k)) initialised)"

definition oracle_get_trace :: "dl_state \<Rightarrow> bool result" where
  "oracle_get_trace s = bind_result (deref (o_last_exec s) s) (\<lambda>x. Ok (n_next x = None))"

definition oracle_get_last_exec :: "dl_state \<Rightarrow> node_ptr" where
  "oracle_get_last_exec s = o_last_exec s"

definition mem_param :: "u8 \<Rightarrow> dl_state \<Rightarrow> gdb_param result" where
  "mem_param m s =
     bind_result (get_mem m s) (\<lambda>mem.
     bind_result (deref (m_last_exec mem) s) (\<lambda>x.
     bind_result (mem_of x) (\<lambda>md.
       Ok (P_mem (ucast (m_id mem)) (md_addr md) (md_value md)))))"

definition oracle_reverse_exec :: "dl_state \<Rightarrow> (comp_type_t \<times> gdb_param \<times> dl_state) result" where
  "oracle_reverse_exec s =
     bind_result (deref (o_last_exec s) s) (\<lambda>x.
     bind_result (case n_data x of
         D_inst d \<Rightarrow>
           bind_result (oracle_cpu (d_id d) s) (\<lambda>i.
           bind_result (get_cpu i s) (\<lambda>cpu.
           bind_result (cpu_reverse_exec i (set_cpu i (cpu\<lparr>c_last_exec := o_last_exec s\<rparr>) s)) (\<lambda>(pc, s').
             Ok (COMP_CPU, P_cpu (ucast (c_id cpu)) pc, s'))))
       | D_mem md \<Rightarrow>
           bind_result (oracle_mem (md_id md) s) (\<lambda>i.
           bind_result (get_mem i s) (\<lambda>mem.
           bind_result (mem_reverse_exec i (set_mem i (mem\<lparr>m_last_exec := o_last_exec s\<rparr>) s)) (\<lambda>s'.
           bind_result (mem_param i s') (\<lambda>p. Ok (COMP_MEM, p, s')))))
       | D_dev did \<Rightarrow>
           bind_result (oracle_mem did s) (\<lambda>i.
           bind_result (get_mem i s) (\<lambda>dev.
             Ok (COMP_PERIPH, P_none, set_mem i (dev\<lparr>m_last_exec := o_last_exec s\<rparr>) s))))
       (\<lambda>(t, p, s'). Ok (t, p, s'\<lparr>o_last_exec := n_last_exec x\<rparr>)))"

definition oracle_forward_exec :: "dl_state \<Rightarrow> (comp_type_t \<times> gdb_param \<times> dl_state) result" where
  "oracle_forward_exec s =
     bind_result (deref (o_last_exec s) s) (\<lambda>l.
     bind_result (deref (n_next l) s) (\<lambda>x.
     bind_result (case n_data x of
         D_inst d \<Rightarrow>
           bind_result (oracle_cpu (d_id d) s) (\<lambda>i.
           bind_result (get_cpu i s) (\<lambda>cpu.
           bind_result (cpu_forward_exec i (set_cpu i (cpu\<lparr>c_next_exec := n_next l\<rparr>) s)) (\<lambda>(pc, s').
             Ok (COMP_CPU, P_cpu (ucast (c_id cpu)) pc, s'))))
       | D_mem md \<Rightarrow>
           bind_result (oracle_mem (md_id md) s) (\<lambda>i.
           bind_result (get_mem i s) (\<lambda>mem.
           bind_result (mem_forward_exec i (set_mem i (mem\<lparr>m_last_exec := n_next l\<rparr>) s)) (\<lambda>s'.
           bind_result (mem_param i s') (\<lambda>p. Ok (COMP_MEM, p, s')))))
       | D_dev did \<Rightarrow>
           bind_result (oracle_mem did s) (\<lambda>i.
           bind_result (get_mem i s) (\<lambda>dev.
             Ok (COMP_PERIPH, P_none, set_mem i (dev\<lparr>m_next_exec := n_next l\<rparr>) s))))
       (\<lambda>(t, p, s'). Ok (t, p, s'\<lparr>o_last_exec := n_next l\<rparr>))))"

section \<open>Events\<close>

text \<open>What the core hands to the recorder for an event: an instruction is executed first and then
  recorded (\<open>cpu_go_inst\<close>), so is a memory write (\<open>mem_ret_ack\<close>).\<close>

datatype dl_event =
    Ev_inst u8 exec_reg_t
  | Ev_mem u8 u32 bytes u32 node_ptr
  | Ev_dev u8

definition dl_exec :: "dl_event \<Rightarrow> dl_state \<Rightarrow> dl_state result" where
  "dl_exec e s = (case e of
       Ev_inst cid regs \<Rightarrow>
         bind_result (get_cpu cid s) (\<lambda>cpu.
         bind_result (cpu_exec cpu regs) (\<lambda>cpu'.
           delorean_pg_exec_cpu cid regs (set_cpu cid cpu' s)))
     | Ev_mem mid addr data width inst \<Rightarrow>
         bind_result (amem_exec addr data width (dl_memory s)) (\<lambda>m.
           delorean_pg_exec_mem mid (mem_key addr) inst addr (s\<lparr>dl_memory := m\<rparr>))
     | Ev_dev mid \<Rightarrow> delorean_pg_exec_dev mid s)"

end
