(* ===== verification/Delorean_Undo.thy ===== *)
theory Delorean_Undo
  imports Delorean
begin

text \<open>
  One node of the recorder's graph: what executing and recording an instruction writes into it, and
  what undoing and redoing it does to the registers of its processor.
\<close>

section \<open>The registers that are recorded\<close>

definition visible_id :: "u8 \<Rightarrow> bool" where
  "visible_id r \<longleftrightarrow> r < 16 \<or> r = 0xFF \<or> r = 0xFE"

definition slot :: "cpu_t \<Rightarrow> u8 \<Rightarrow> reg_t" where
  "slot c r = (if r < 16 then c_regs c ! unat r else if r = 0xFF then c_cpsr c else c_spsr c)"

definition upd_slot :: "u8 \<Rightarrow> (reg_t \<Rightarrow> reg_t) \<Rightarrow> cpu_t \<Rightarrow> cpu_t" where
  "upd_slot r f c =
     (if r < 16 then c\<lparr>c_regs := (c_regs c)[unat r := f (c_regs c ! unat r)]\<rparr>
      else if r = 0xFF then c\<lparr>c_cpsr := f (c_cpsr c)\<rparr>
      else c\<lparr>c_spsr := f (c_spsr c)\<rparr>)"

definition wf_slots :: "cpu_t \<Rightarrow> bool" where
  "wf_slots c \<longleftrightarrow> length (c_regs c) = 16"

lemma u8_lt16: "(r :: u8) < 16 \<Longrightarrow> unat r < 16"
  by (simp add: word_less_nat_alt)

lemma slot_upd:
  "wf_slots c \<Longrightarrow> visible_id r \<Longrightarrow> visible_id r' \<Longrightarrow>
     slot (upd_slot r f c) r' = (if r = r' then f (slot c r) else slot c r')"
  by (auto simp: wf_slots_def visible_id_def slot_def upd_slot_def nth_list_update
      word_unat_eq_iff word_less_nat_alt)

lemma upd_slot_frame [simp]:
  "c_id (upd_slot r f c) = c_id c" "c_last_exec (upd_slot r f c) = c_last_exec c"
  "c_next_exec (upd_slot r f c) = c_next_exec c" "wf_slots (upd_slot r f c) = wf_slots c"
  "wf_cpu (upd_slot r f c) = wf_cpu c"
  by (simp_all add: upd_slot_def wf_slots_def wf_cpu_def)

lemma wf_cpu_slots: "wf_cpu c \<Longrightarrow> wf_slots c"
  by (simp add: wf_cpu_def wf_slots_def)

text \<open>A run of updates, each register at most once.\<close>

abbreviation upd_all :: "(u8 \<Rightarrow> 'v \<Rightarrow> reg_t \<Rightarrow> reg_t) \<Rightarrow> (u8 \<times> 'v) list \<Rightarrow> cpu_t \<Rightarrow> cpu_t" where
  "upd_all f ws c \<equiv> fold (\<lambda>(r, v). upd_slot r (f r v)) ws c"

lemma upd_all_frame [simp]:
  "c_id (upd_all f ws c) = c_id c" "c_last_exec (upd_all f ws c) = c_last_exec c"
  "c_next_exec (upd_all f ws c) = c_next_exec c" "wf_slots (upd_all f ws c) = wf_slots c"
  "wf_cpu (upd_all f ws c) = wf_cpu c"
  by (induction ws arbitrary: c) auto

lemma slot_upd_all:
  assumes "wf_slots c" "distinct (map fst ws)" "\<forall>w\<in>set ws. visible_id (fst w)" "visible_id r"
  shows "slot (upd_all f ws c) r = (case map_of ws r of None \<Rightarrow> slot c r | Some v \<Rightarrow> f r v (slot c r))"
  using assms
proof (induction ws arbitrary: c)
  case Nil
  then show ?case by simp
next
  case (Cons w ws)
  obtain q v where w: "w = (q, v)" by (cases w)
  have "map_of ws q = None" using Cons.prems(2) w by (simp add: map_of_eq_None_iff)
  then show ?case
    using Cons w by (auto simp: slot_upd split: option.splits)
qed

text \<open>The contents of the recorded registers of all processors.\<close>

definition rfile :: "dl_state \<Rightarrow> u8 \<Rightarrow> (u32 list \<times> u32 \<times> u32) option" where
  "rfile s cid = map_option (\<lambda>c. (map r_data (c_regs c), r_data (c_cpsr c), r_data (c_spsr c))) (dl_cpus s cid)"

lemma rfile_slots:
  assumes "wf_slots c" "wf_slots c'"
  shows "(map r_data (c_regs c), r_data (c_cpsr c), r_data (c_spsr c)) =
      (map r_data (c_regs c'), r_data (c_cpsr c'), r_data (c_spsr c')) \<longleftrightarrow>
    (\<forall>r. visible_id r \<longrightarrow> r_data (slot c r) = r_data (slot c' r))" (is "?l \<longleftrightarrow> ?r")
proof
  assume ?l
  then show ?r
    using assms by (auto simp: visible_id_def slot_def wf_slots_def u8_lt16 dest!: u8_lt16)
      (metis nth_map u8_lt16)+
next
  assume r: ?r
  have "r_data (c_regs c ! i) = r_data (c_regs c' ! i)" if "i < 16" for i
    using r [rule_format, of "word_of_nat i"] that
    by (simp add: visible_id_def slot_def word_less_nat_alt unat_of_nat)
  then have "map r_data (c_regs c) = map r_data (c_regs c')"
    using assms by (auto simp: wf_slots_def intro: nth_equalityI)
  moreover have "r_data (c_cpsr c) = r_data (c_cpsr c')" "r_data (c_spsr c) = r_data (c_spsr c')"
    using r [rule_format, of "0xFF"] r [rule_format, of "0xFE"] by (simp_all add: visible_id_def slot_def)
  ultimately show ?l by simp
qed

section \<open>Executing and recording plain writes\<close>

definition plain_write :: "u32 \<Rightarrow> u32 \<times> u32 \<Rightarrow> bool" where
  "plain_write mode w \<longleftrightarrow> fst w < 16 \<or> fst w = REGID_SPSR \<or> fst w = REGID_CPSR \<and> snd w AND CPSR_MODE = mode"

text \<open>The instructions the recorder handles.\<close>

definition plain_inst :: "exec_reg_t \<Rightarrow> cpu_t \<Rightarrow> bool" where
  "plain_inst regs cpu \<longleftrightarrow> wf_exec_reg regs \<and> length (x_id regs) \<le> 18 \<and> distinct (map fst (reg_writes regs))
     \<and> (\<forall>w\<in>set (reg_writes regs). plain_write (cpu_mode cpu) w)"

definition narrow :: "(u32 \<times> u32) list \<Rightarrow> (u8 \<times> u32) list" where
  "narrow ws = map (\<lambda>(r, v). (ucast r, v)) ws"

lemma unat_ucast_u8: "unat (ucast (x :: u8) :: u32) = unat x"
  by transfer (simp add: take_bit_eq_mod)

lemma plain_ucast:
  assumes "plain_write m w"
  shows "visible_id (ucast (fst w))" "ucast (ucast (fst w) :: u8) = fst w"
    "(ucast (fst w) :: u8) < 16 \<longleftrightarrow> fst w < 16" "(ucast (fst w) :: u8) = 0xFF \<longleftrightarrow> fst w = REGID_CPSR"
    "(ucast (fst w) :: u8) = 0xFE \<longleftrightarrow> fst w = REGID_SPSR" "unat (ucast (fst w) :: u8) = unat (fst w)"
proof -
  have "unat (fst w) < 256"
    using assms by (auto simp: plain_write_def regid_defs word_less_nat_alt)
  then have u: "unat (ucast (fst w) :: u8) = unat (fst w)"
    by (simp add: unsigned_ucast_eq take_bit_eq_mod)
  then show "unat (ucast (fst w) :: u8) = unat (fst w)" .
  show "(ucast (fst w) :: u8) < 16 \<longleftrightarrow> fst w < 16" "(ucast (fst w) :: u8) = 0xFF \<longleftrightarrow> fst w = REGID_CPSR"
    "(ucast (fst w) :: u8) = 0xFE \<longleftrightarrow> fst w = REGID_SPSR"
    by (simp_all add: word_less_nat_alt word_unat_eq_iff u regid_defs)
  then show "visible_id (ucast (fst w))"
    using assms by (auto simp: visible_id_def plain_write_def)
  show "ucast (ucast (fst w) :: u8) = fst w"
    by (simp add: word_unat_eq_iff unat_ucast_u8 u del: unsigned_ucast_eq)
qed

lemma narrow_visible: "\<forall>w\<in>set ws. plain_write m w \<Longrightarrow> \<forall>w\<in>set (narrow ws). visible_id (fst w)"
  using plain_ucast(1) by (fastforce simp: narrow_def)

lemma narrow_distinct:
  assumes "distinct (map fst ws)" "\<forall>w\<in>set ws. plain_write m w"
  shows "distinct (map fst (narrow ws))"
proof -
  have "inj_on (ucast :: u32 \<Rightarrow> u8) (fst ` set ws)"
    using assms(2) plain_ucast(2) by (intro inj_on_inverseI [where g = ucast]) auto
  moreover have "map fst (narrow ws) = map ucast (map fst ws)"
    by (simp add: narrow_def split_beta)
  ultimately show ?thesis using assms(1) by (simp only: distinct_map list.set_map)
qed

lemma cpu_exec_reg_plain:
  assumes "wf_cpu c" "plain_write (cpu_mode c) (r, v)"
  shows "cpu_exec_reg r v c = Ok (upd_slot (ucast r) (set_data v) c)"
proof -
  note p = plain_ucast [OF assms(2), simplified]
  consider "r < 16" | "r = REGID_SPSR" | "r = REGID_CPSR" "v AND CPSR_MODE = cpu_mode c"
    using assms(2) by (auto simp: plain_write_def)
  then show ?thesis
  proof cases
    case 1
    then show ?thesis
      using p assms(1) by (simp add: cpu_exec_reg_def upd_slot_def wf_cpu_def word_less_nat_alt)
  next
    case 2
    then show ?thesis using p by (simp add: cpu_exec_reg_def upd_slot_def regid_defs)
  next
    case 3
    then have "switched (v AND CPSR_MODE) c = c" by (simp add: switched_def)
    then show ?thesis
      using 3 p assms(1) cpu_exec_reg_cpsr [of c v] by (simp add: reg_ok_def upd_slot_def regid_defs)
  qed
qed

lemma cpu_mode_upd:
  assumes "wf_cpu c" "plain_write (cpu_mode c) (r, v)"
  shows "cpu_mode (upd_slot (ucast r) (set_data v) c) = cpu_mode c"
proof -
  note p = plain_ucast [OF assms(2), simplified]
  show ?thesis
    using assms(2) p by (auto simp: upd_slot_def plain_write_def regid_defs)
qed

lemma cpu_exec_plain:
  assumes "wf_cpu c" "\<forall>w\<in>set ws. plain_write (cpu_mode c) w"
  shows "fold_result (\<lambda>(rid, v). cpu_exec_reg rid v) ws c =
    Ok (upd_all (\<lambda>r v. set_data v) (narrow ws) c)"
  using assms
proof (induction ws arbitrary: c)
  case Nil
  then show ?case by (simp add: narrow_def)
next
  case (Cons w ws)
  obtain r v where w: "w = (r, v)" by (cases w)
  then have "plain_write (cpu_mode c) (r, v)" using Cons.prems by simp
  then show ?case
    using Cons w cpu_exec_reg_plain [of c r v] cpu_mode_upd [of c r v] by (simp add: narrow_def)
qed

section \<open>The nodes of recorded instructions\<close>

definition mk_entry :: "cpu_t \<Rightarrow> u8 \<times> u32 \<Rightarrow> reg_node_t" where
  "mk_entry c w = \<lparr>rn_id = fst w, rn_value = snd w, rn_last_write = r_last_write (slot c (fst w))\<rparr>"

definition linked :: "nat \<Rightarrow> (u8 \<times> u32) list \<Rightarrow> cpu_t \<Rightarrow> cpu_t" where
  "linked n ws c = upd_all (\<lambda>_ _ x. x\<lparr>r_last_write := Some n\<rparr>) ws c"

lemma log_reg_plain:
  assumes "wf_cpu c" "plain_write m (r, v)" "r = REGID_CPSR \<Longrightarrow> r_data (c_cpsr c) AND CPSR_MODE = v AND CPSR_MODE"
  shows "log_reg n r v c = Ok (Some (mk_entry c (ucast r, v), linked n [(ucast r, v)] c))"
proof -
  note p = plain_ucast [OF assms(2), simplified]
  consider "r < 16" | "r = REGID_SPSR" | "r = REGID_CPSR" using assms(2) by (auto simp: plain_write_def)
  then show ?thesis
  proof cases
    case 1
    then show ?thesis
      using p assms(1) by (simp add: log_reg_def Let_def link_reg_def arr_get_def wf_cpu_def mk_entry_def slot_def
          linked_def upd_slot_def word_less_nat_alt)
  next
    case 2
    then show ?thesis
      using p by (simp add: log_reg_def Let_def mk_entry_def slot_def linked_def upd_slot_def regid_defs)
  next
    case 3
    then show ?thesis
      using p assms(3) by (simp add: log_reg_def Let_def mk_entry_def slot_def linked_def upd_slot_def
          regid_defs dl_switch_mode_def)
  qed
qed

lemma linked_Cons: "linked n (w # ws) c = linked n ws (linked n [w] c)"
  by (cases w) (simp add: linked_def)

lemma linked_frame [simp]:
  "c_id (linked n ws c) = c_id c" "wf_cpu (linked n ws c) = wf_cpu c"
  by (simp_all add: linked_def)

lemma r_data_linked1: "r_data (c_cpsr (linked n [w] c)) = r_data (c_cpsr c)"
  by (cases w) (simp add: linked_def upd_slot_def)

lemma mk_entry_linked:
  assumes "wf_cpu c" "visible_id (fst w)" "visible_id (fst w')" "fst w \<noteq> fst w'"
  shows "mk_entry (linked n [w] c) w' = mk_entry c w'"
  using assms by (cases w) (simp add: mk_entry_def linked_def slot_upd wf_cpu_slots)

text \<open>The loop of \<open>delorean_pg_exec_cpu\<close> fills the node's registers and moves the edges.\<close>

lemma log_regs_plain:
  assumes "i + k \<le> length (x_id regs)" "i + k \<le> length (x_data regs)"
    and "ws = take k (drop i (zip (x_id regs) (x_data regs)))"
    and "dl_cpus s cid = Some c" "wf_cpu c"
    and "dl_nodes s n = Some x" "n_data x = D_inst d" "d_reg d = map Some es @ replicate k None" "length es = i"
    and "\<forall>w\<in>set ws. plain_write m w" "distinct (map fst ws)"
    and "\<forall>w\<in>set ws. fst w = REGID_CPSR \<longrightarrow> r_data (c_cpsr c) AND CPSR_MODE = snd w AND CPSR_MODE"
  shows "log_regs cid n i k regs s = Ok (set_cpu cid (linked n (narrow ws) c)
    (store_node n (x\<lparr>n_data := D_inst (d\<lparr>d_reg := map Some (es @ map (mk_entry c) (narrow ws))\<rparr>)\<rparr>) s))"
  using assms
proof (induction k arbitrary: i ws s c x d es)
  case 0
  then have "x\<lparr>n_data := D_inst (d\<lparr>d_reg := map Some es\<rparr>)\<rparr> = x" "ws = []" by auto
  then show ?case
    using 0 by (simp add: narrow_def linked_def set_cpu_def store_node_def fun_upd_idem)
next
  case (Suc k)
  define r v ws' where "r = x_id regs ! i" "v = x_data regs ! i"
    "ws' = take k (drop (Suc i) (zip (x_id regs) (x_data regs)))"
  note df = this
  have "drop i (zip (x_id regs) (x_data regs)) = (r, v) # drop (Suc i) (zip (x_id regs) (x_data regs))"
    using Suc.prems(1,2) by (subst Cons_nth_drop_Suc [symmetric]) (auto simp: df)
  then have ws: "ws = (r, v) # ws'" using Suc.prems(3) by (simp add: df)
  have pl: "plain_write m (r, v)" using Suc.prems(10) ws by simp
  have pr: "\<forall>w\<in>set ws'. plain_write m w" "distinct (map fst ws')"
    "\<forall>w\<in>set ws'. fst w = REGID_CPSR \<longrightarrow> r_data (c_cpsr c) AND CPSR_MODE = snd w AND CPSR_MODE"
    using Suc.prems(10,11,12) ws by auto
  have log: "log_reg n r v c = Ok (Some (mk_entry c (ucast r, v), linked n [(ucast r, v)] c))"
    using Suc.prems(5,12) pl ws by (intro log_reg_plain) auto
  define c1 where "c1 = linked n [(ucast r, v)] c"
  define d1 where "d1 = d\<lparr>d_reg := map Some (es @ [mk_entry c (ucast r, v)]) @ replicate k None\<rparr>"
  define s1 where "s1 = store_node n (x\<lparr>n_data := D_inst d1\<rparr>) (set_cpu cid c1 s)"
  have put: "put_reg_node n i (mk_entry c (ucast r, v)) (set_cpu cid c1 s) = Ok s1"
    using Suc.prems(6,7,8,9)
    by (simp add: put_reg_node_def deref_def inst_of_def set_cpu_def arr_set_def s1_def d1_def
        list_update_append replicate_Suc)
  have vis: "\<forall>w\<in>set (narrow ws). visible_id (fst w)" "distinct (map fst (narrow ws))"
    using narrow_visible [OF Suc.prems(10)] narrow_distinct [OF Suc.prems(11,10)] by auto
  have es: "map (mk_entry c1) (narrow ws') = map (mk_entry c) (narrow ws')"
    using vis Suc.prems(5) ws
    by (auto simp: c1_def narrow_def mk_entry_linked image_iff intro!: mk_entry_linked)
  have "log_regs cid n (Suc i) k regs s1 = Ok (set_cpu cid (linked n (narrow ws') c1)
      (store_node n ((x\<lparr>n_data := D_inst d1\<rparr>)\<lparr>n_data :=
         D_inst (d1\<lparr>d_reg := map Some ((es @ [mk_entry c (ucast r, v)]) @ map (mk_entry c1) (narrow ws'))\<rparr>)\<rparr>) s1))"
    by (rule Suc.IH [OF _ _ df(3)])
      (use Suc.prems(1,2,5,9) pr in \<open>auto simp: s1_def store_node_def set_cpu_def d1_def c1_def r_data_linked1\<close>)
  moreover have "linked n (narrow ws) c = linked n (narrow ws') c1"
    using linked_Cons [of n "(ucast r, v)" "narrow ws'" c] by (simp add: ws narrow_def c1_def)
  ultimately show ?case
    using Suc.prems(1,2,4) log put
    by (simp add: df(1,2) [symmetric] arr_get_def get_cpu_def initialised_def c1_def [symmetric] es)
      (simp add: s1_def d1_def store_node_def set_cpu_def ws narrow_def)
qed

section \<open>Heaps that grow\<close>

text \<open>Later events leave what undoing and redoing need of a node as it is: its register nodes, its
  device, its predecessor, and its successor once it has one.\<close>

definition data_le :: "node_data \<Rightarrow> node_data \<Rightarrow> bool" where
  "data_le a b \<longleftrightarrow> (case a of
       D_inst d \<Rightarrow> (\<exists>d'. b = D_inst d' \<and> d_id d' = d_id d \<and> d_n_reg d' = d_n_reg d \<and> d_reg d' = d_reg d)
     | _ \<Rightarrow> b = a)"

definition node_le :: "inst_node_t \<Rightarrow> inst_node_t \<Rightarrow> bool" where
  "node_le x y \<longleftrightarrow> data_le (n_data x) (n_data y) \<and> n_last_exec y = n_last_exec x
     \<and> (n_next x \<noteq> None \<longrightarrow> n_next y = n_next x)"

definition heap_le :: "(nat \<Rightarrow> inst_node_t option) \<Rightarrow> (nat \<Rightarrow> inst_node_t option) \<Rightarrow> bool" where
  "heap_le h h' \<longleftrightarrow> (\<forall>n x. h n = Some x \<longrightarrow> (\<exists>y. h' n = Some y \<and> node_le x y))"

lemma data_le_refl [simp]: "data_le a a"
  by (simp add: data_le_def split: node_data.splits)

lemma data_le_trans: "data_le a b \<Longrightarrow> data_le b c \<Longrightarrow> data_le a c"
  by (auto simp: data_le_def split: node_data.splits)

lemma node_le_refl [simp]: "node_le x x"
  by (simp add: node_le_def)

lemma node_le_trans: "node_le x y \<Longrightarrow> node_le y z \<Longrightarrow> node_le x z"
  by (auto simp: node_le_def intro: data_le_trans)

lemma heap_le_refl [simp]: "heap_le h h"
  by (auto simp: heap_le_def)

lemma heap_le_trans: "heap_le h h' \<Longrightarrow> heap_le h' h'' \<Longrightarrow> heap_le h h''"
  unfolding heap_le_def by (meson node_le_trans)

lemma heap_le_new: "h n = None \<Longrightarrow> heap_le h (h(n := Some x))"
  by (auto simp: heap_le_def)

lemma heap_le_upd: "h n = Some x \<Longrightarrow> node_le x y \<Longrightarrow> heap_le h (h(n := Some y))"
  by (auto simp: heap_le_def)

lemma heap_leD: "heap_le h h' \<Longrightarrow> h n = Some x \<Longrightarrow> \<exists>y. h' n = Some y \<and> node_le x y"
  by (auto simp: heap_le_def)

text \<open>An edge leads to a node that wrote the value.\<close>

definition looks_up :: "(nat \<Rightarrow> inst_node_t option) \<Rightarrow> node_ptr \<Rightarrow> u8 \<Rightarrow> u32 \<Rightarrow> bool" where
  "looks_up h lw r v \<longleftrightarrow> (\<exists>n x d e. lw = Some n \<and> h n = Some x \<and> n_data x = D_inst d
     \<and> find_reg r (unat (d_n_reg d)) (d_reg d) = Ok (Some e) \<and> rn_value e = v)"

lemma looks_up_mono: "looks_up h lw r v \<Longrightarrow> heap_le h h' \<Longrightarrow> looks_up h' lw r v"
  unfolding looks_up_def heap_le_def node_le_def data_le_def by fastforce

lemma find_reg_mem:
  "e \<in> set es \<Longrightarrow> distinct (map rn_id es) \<Longrightarrow> find_reg (rn_id e) (length es) (map Some es) = Ok (Some e)"
proof (induction es)
  case Nil
  then show ?case by simp
next
  case (Cons a es)
  then show ?case
    by (cases "a = e") (auto simp: initialised_def image_iff not_le)
qed

lemma get_reg_looks_up:
  assumes "looks_up (dl_nodes s) lw r v"
  shows "\<exists>q. get_reg_last_write lw old r s = Ok (old\<lparr>r_data := v, r_last_write := q\<rparr>)"
  using assms by (auto simp: looks_up_def get_reg_last_write_def deref_def inst_of_def)

section \<open>Undoing and redoing a node\<close>

lemma undo_regs:
  assumes "wf_slots c" "distinct (map rn_id es)" "\<forall>e\<in>set es. visible_id (rn_id e)"
    and "\<forall>e\<in>set es. looks_up (dl_nodes s) (rn_last_write e) (rn_id e) (f e)"
  shows "\<exists>c'. fold_result (undo_reg s) (map Some es) c = Ok c' \<and> wf_slots c' \<and> c_id c' = c_id c \<and>
    (\<forall>r. visible_id r \<longrightarrow> r_data (slot c' r) =
       (case map_of (map (\<lambda>e. (rn_id e, f e)) es) r of None \<Rightarrow> r_data (slot c r) | Some v \<Rightarrow> v))"
  using assms
proof (induction es arbitrary: c)
  case Nil
  then show ?case by simp
next
  case (Cons e es)
  obtain q where q: "get_reg_last_write (rn_last_write e) (slot c (rn_id e)) (rn_id e) s
      = Ok ((slot c (rn_id e))\<lparr>r_data := f e, r_last_write := q\<rparr>)"
    using get_reg_looks_up [of s "rn_last_write e" "rn_id e" "f e"] Cons.prems(4) by auto
  define c1 where "c1 = upd_slot (rn_id e) (\<lambda>x. x\<lparr>r_data := f e, r_last_write := q\<rparr>) c"
  have vis: "visible_id (rn_id e)" using Cons.prems(3) by simp
  have step: "undo_reg s (Some e) c = Ok c1"
    using vis q Cons.prems(1)
    by (auto simp: undo_reg_def initialised_def visible_id_def slot_def arr_get_def wf_slots_def u8_lt16
        c1_def upd_slot_def regid_defs split: if_splits)
  obtain c' where IH: "fold_result (undo_reg s) (map Some es) c1 = Ok c'" "wf_slots c'" "c_id c' = c_id c1"
    "\<forall>r. visible_id r \<longrightarrow> r_data (slot c' r) =
       (case map_of (map (\<lambda>e. (rn_id e, f e)) es) r of None \<Rightarrow> r_data (slot c1 r) | Some v \<Rightarrow> v)"
    using Cons.IH [of c1] Cons.prems by (auto simp: c1_def)
  have "map_of (map (\<lambda>e. (rn_id e, f e)) es) (rn_id e) = None"
    using Cons.prems(2) by (simp add: map_of_eq_None_iff image_image)
  then show ?case
    using step IH vis Cons.prems(1) by (auto simp: c1_def slot_upd split: option.splits)
qed

lemma redo_regs:
  assumes "wf_slots c" "distinct (map rn_id es)" "\<forall>e\<in>set es. visible_id (rn_id e)"
  shows "\<exists>c'. fold_result (redo_reg n) (map Some es) c = Ok c' \<and> wf_slots c' \<and> c_id c' = c_id c \<and>
    (\<forall>r. visible_id r \<longrightarrow> r_data (slot c' r) =
       (case map_of (map (\<lambda>e. (rn_id e, rn_value e)) es) r of None \<Rightarrow> r_data (slot c r) | Some v \<Rightarrow> v))"
  using assms
proof (induction es arbitrary: c)
  case Nil
  then show ?case by simp
next
  case (Cons e es)
  define c1 where "c1 = upd_slot (rn_id e) (\<lambda>x. set_reg_next_write n x (rn_value e)) c"
  have vis: "visible_id (rn_id e)" using Cons.prems(3) by simp
  have step: "redo_reg n (Some e) c = Ok c1"
    using vis Cons.prems(1)
    by (auto simp: redo_reg_def initialised_def visible_id_def arr_get_def wf_slots_def u8_lt16
        c1_def upd_slot_def regid_defs split: if_splits)
  obtain c' where IH: "fold_result (redo_reg n) (map Some es) c1 = Ok c'" "wf_slots c'" "c_id c' = c_id c1"
    "\<forall>r. visible_id r \<longrightarrow> r_data (slot c' r) =
       (case map_of (map (\<lambda>e. (rn_id e, rn_value e)) es) r of None \<Rightarrow> r_data (slot c1 r) | Some v \<Rightarrow> v)"
    using Cons.IH [of c1] Cons.prems by (auto simp: c1_def)
  have "map_of (map (\<lambda>e. (rn_id e, rn_value e)) es) (rn_id e) = None"
    using Cons.prems(2) by (simp add: map_of_eq_None_iff image_image)
  then show ?case
    using step IH vis Cons.prems(1) by (auto simp: c1_def slot_upd set_reg_next_write_def split: option.splits)
qed

end
