(* ===== verification/Delorean_Travel.thy ===== *)
theory Delorean_Travel
  imports Delorean_Undo
begin

text \<open>
  Time travel is correct for the registers of every processor: from any point of a recorded run,
  stepping back gives the register contents of the earlier point, and stepping forward again
  those of the later one. Instructions of several processors, memory writes and device events
  may interleave. The instructions are the ones that the recorder handles: they write each
  register once, no user-bank register, and do not change the processor's mode.
\<close>

section \<open>The recorder's invariant\<close>

definition dl_inv :: "dl_state \<Rightarrow> bool" where
  "dl_inv s \<longleftrightarrow>
     (\<forall>cid c. dl_cpus s cid = Some c \<longrightarrow> wf_cpu c \<and> oracle_cpu (Some (c_id c)) s = Ok cid \<and>
        (\<forall>r. visible_id r \<longrightarrow> looks_up (dl_nodes s) (r_last_write (slot c r)) r (r_data (slot c r))))
     \<and> (\<forall>mid m. dl_mems s mid = Some m \<longrightarrow> oracle_mem (Some (ucast (m_id m))) s = Ok mid)
     \<and> (\<exists>l x. o_last_exec s = Some l \<and> dl_nodes s l = Some x \<and> n_next x = None)
     \<and> (\<forall>n. dl_fresh s \<le> n \<longrightarrow> dl_nodes s n = None)"

definition tables :: "dl_state \<Rightarrow> u8 option list \<times> u8 option list \<times> (u8 \<Rightarrow> u8 option) \<times> (u8 \<Rightarrow> u32 option)" where
  "tables s = (o_cpu s, o_mem s, (\<lambda>i. map_option c_id (dl_cpus s i)), (\<lambda>i. map_option m_id (dl_mems s i)))"

text \<open>\<open>t\<close> is back at the point of the run where the state was \<open>s\<close>.\<close>

definition at_point :: "dl_state \<Rightarrow> dl_state \<Rightarrow> bool" where
  "at_point s t \<longleftrightarrow> heap_le (dl_nodes s) (dl_nodes t) \<and> o_last_exec t = o_last_exec s
     \<and> rfile t = rfile s \<and> tables t = tables s"

definition plain_event :: "dl_event \<Rightarrow> dl_state \<Rightarrow> bool" where
  "plain_event e s = (case e of Ev_inst cid regs \<Rightarrow> (\<exists>c. dl_cpus s cid = Some c \<and> plain_inst regs c) | _ \<Rightarrow> True)"

definition inst_node :: "u8 \<Rightarrow> node_ptr \<Rightarrow> reg_node_t list \<Rightarrow> inst_node_t" where
  "inst_node cid l es = \<lparr>n_data = D_inst \<lparr>d_id = Some cid, d_n_reg = word_of_nat (length es), d_n_mem = 0,
     d_reg = map Some es, d_mem = []\<rparr>, n_next = None, n_last_exec = l\<rparr>"

definition executed :: "(u8 \<times> u32) list \<Rightarrow> cpu_t \<Rightarrow> cpu_t" where
  "executed ws c = upd_all (\<lambda>r v. set_data v) ws c"

lemma plain_executed_mode:
  assumes "wf_cpu c" "\<forall>w\<in>set ws. plain_write (cpu_mode c) w" "distinct (map fst ws)" "(REGID_CPSR, v) \<in> set ws"
  shows "r_data (c_cpsr (executed (narrow ws) c)) = v"
proof -
  have "map_of (narrow ws) 0xFF = Some v"
    using assms narrow_distinct [OF assms(3,2)]
    by (auto simp: narrow_def REGID_CPSR_def image_iff intro!: map_of_is_SomeI bexI [of _ "(255, v)"])
  then have "slot (executed (narrow ws) c) 0xFF = set_data v (slot c 0xFF)"
    using slot_upd_all [of c "narrow ws" "0xFF"] assms narrow_visible [OF assms(2)]
      narrow_distinct [OF assms(3,2)]
    by (simp add: executed_def wf_cpu_slots visible_id_def)
  then show ?thesis by (simp add: slot_def)
qed

lemma exec_inst:
  assumes inv: "dl_inv s" and c: "dl_cpus s cid = Some c" and pl: "plain_inst regs c"
    and l: "o_last_exec s = Some l" "dl_nodes s l = Some x"
  defines "ws \<equiv> narrow (reg_writes regs)" and "n \<equiv> dl_fresh s"
  shows "dl_exec (Ev_inst cid regs) s = Ok (s\<lparr>
    dl_nodes := (dl_nodes s)(l := Some (x\<lparr>n_next := Some n\<rparr>),
      n := Some (inst_node (c_id c) (Some l) (map (mk_entry c) ws))),
    dl_fresh := Suc n, dl_cpus := (dl_cpus s)(cid := Some (linked n ws (executed ws c))),
    o_last_exec := Some n\<rparr>)"
proof -
  let ?w = "reg_writes regs" and ?c0 = "executed ws c" and ?k = "unat (x_nreg regs)"
  have wf: "wf_cpu c" using inv c by (auto simp: dl_inv_def)
  have p: "wf_exec_reg regs" "\<forall>w\<in>set ?w. plain_write (cpu_mode c) w" "distinct (map fst ?w)" "?k \<le> 18"
    using pl by (auto simp: plain_inst_def wf_exec_reg_def)
  have e1: "cpu_exec c regs = Ok ?c0"
    using cpu_exec_fold [OF p(1)] cpu_exec_plain [OF wf p(2)] by (simp add: ws_def executed_def)
  have fr: "dl_nodes s n = None" "l \<noteq> n" using inv l by (auto simp: dl_inv_def n_def)
  have k8: "unat (ucast (x_nreg regs) :: u8) = ?k" "(ucast (x_nreg regs) :: u8) = word_of_nat ?k"
    using p(4) by (simp_all add: unsigned_ucast_eq take_bit_eq_mod word_unat_eq_iff unat_of_nat)
  have len: "length ws = ?k" using p(1) by (simp add: ws_def narrow_def reg_writes_def wf_exec_reg_def)
  define d where "d = \<lparr>d_id = Some (c_id c), d_n_reg = word_of_nat ?k, d_n_mem = 0,
      d_reg = replicate ?k None, d_mem = []\<rparr>"
  define y where "y = \<lparr>n_data = D_inst d, n_next = None, n_last_exec = Some l\<rparr>"
  define s2 where "s2 = s\<lparr>dl_cpus := (dl_cpus s)(cid := Some ?c0), dl_fresh := Suc n,
      dl_nodes := (dl_nodes s)(l := Some (x\<lparr>n_next := Some n\<rparr>), n := Some y), o_last_exec := Some n\<rparr>"
  have e2: "delorean_pg_exec_cpu cid regs (set_cpu cid ?c0 s) = log_regs cid n 0 ?k regs s2"
  proof -
    have tw: "(dl_nodes s)(l := Some (x\<lparr>n_next := Some n\<rparr>), n := Some y) =
        (dl_nodes s)(n := Some y, l := Some (x\<lparr>n_next := Some n\<rparr>))"
      using fr(2) by (rule fun_upd_twist)
    have "c_id ?c0 = c_id c" by (simp add: executed_def)
    then show ?thesis
      unfolding s2_def tw using fr l k8(1)
      by (simp add: delorean_pg_exec_cpu_def get_cpu_def set_cpu_def initialised_def create_cpu_node_def
          new_node_def store_node_def deref_def inst_of_def oracle_append_def n_def y_def d_def)
  qed
  have e3: "log_regs cid n 0 ?k regs s2 = Ok (set_cpu cid (linked n (narrow ?w) ?c0)
      (store_node n (y\<lparr>n_data := D_inst (d\<lparr>d_reg := map Some ([] @ map (mk_entry ?c0) (narrow ?w))\<rparr>)\<rparr>) s2))"
  proof (rule log_regs_plain)
    show "\<forall>w\<in>set ?w. fst w = REGID_CPSR \<longrightarrow> cpu_mode ?c0 = snd w AND CPSR_MODE"
      using plain_executed_mode [OF wf p(2,3)] by (auto simp: ws_def)
  qed (use p wf in \<open>auto simp: s2_def y_def d_def wf_exec_reg_def reg_writes_def executed_def\<close>)
  have me: "map (mk_entry ?c0) ws = map (mk_entry c) ws"
  proof (rule map_cong [OF refl])
    fix w assume "w \<in> set ws"
    then have "visible_id (fst w)" using narrow_visible [OF p(2)] by (simp add: ws_def)
    then have "r_last_write (slot ?c0 (fst w)) = r_last_write (slot c (fst w))"
      using slot_upd_all [of c ws "fst w" "\<lambda>r v. set_data v"] narrow_visible [OF p(2)] narrow_distinct [OF p(3,2)] wf
      by (simp add: executed_def ws_def wf_cpu_slots split: option.splits)
    then show "mk_entry ?c0 w = mk_entry c w" by (simp add: mk_entry_def)
  qed
  show ?thesis
    using c e1 e2 e3 me len
    by (simp add: dl_exec_def get_cpu_def initialised_def ws_def [symmetric] s2_def set_cpu_def store_node_def
        inst_node_def y_def d_def fun_upd_twist)
qed

section \<open>Events append nodes\<close>

definition appended :: "dl_state \<Rightarrow> dl_state \<Rightarrow> node_data \<Rightarrow> bool" where
  "appended s s' D \<longleftrightarrow>
     (\<exists>l y. o_last_exec s = Some l \<and> dl_nodes s' l = Some y \<and> n_next y = Some (dl_fresh s)
        \<and> dl_nodes s' (dl_fresh s) = Some \<lparr>n_data = D, n_next = None, n_last_exec = Some l\<rparr>)
     \<and> heap_le (dl_nodes s) (dl_nodes s') \<and> o_last_exec s' = Some (dl_fresh s) \<and> tables s' = tables s
     \<and> dl_fresh s' = Suc (dl_fresh s) \<and> (\<forall>k. Suc (dl_fresh s) \<le> k \<longrightarrow> dl_nodes s' k = None)"

lemma inst_appended:
  assumes inv: "dl_inv s" and c: "dl_cpus s cid = Some c" and pl: "plain_inst regs c"
    and ex: "dl_exec (Ev_inst cid regs) s = Ok s'"
  defines "ws \<equiv> narrow (reg_writes regs)"
  shows "appended s s' (n_data (inst_node (c_id c) None (map (mk_entry c) ws)))"
    "dl_cpus s' = (dl_cpus s)(cid := Some (linked (dl_fresh s) ws (executed ws c)))"
    "dl_mems s' = dl_mems s"
proof -
  obtain l x where l: "o_last_exec s = Some l" "dl_nodes s l = Some x" "n_next x = None"
    using inv by (auto simp: dl_inv_def)
  have fr: "\<forall>k. dl_fresh s \<le> k \<longrightarrow> dl_nodes s k = None" using inv by (auto simp: dl_inv_def)
  then have fl: "l < dl_fresh s" using l by (metis leI option.distinct(1))
  note e = exec_inst [OF inv c pl l(1,2)]
  have s': "s' = s\<lparr>dl_nodes := (dl_nodes s)(l := Some (x\<lparr>n_next := Some (dl_fresh s)\<rparr>),
      dl_fresh s := Some (inst_node (c_id c) (Some l) (map (mk_entry c) ws))), dl_fresh := Suc (dl_fresh s),
      dl_cpus := (dl_cpus s)(cid := Some (linked (dl_fresh s) ws (executed ws c))), o_last_exec := Some (dl_fresh s)\<rparr>"
    using ex e by (simp add: ws_def)
  have "heap_le (dl_nodes s) (dl_nodes s')"
    using l fr fl by (auto simp: s' heap_le_def node_le_def)
  moreover have "tables s' = tables s"
    using c by (auto simp: s' tables_def executed_def)
  ultimately show "appended s s' (n_data (inst_node (c_id c) None (map (mk_entry c) ws)))"
    using l fr fl by (auto simp: appended_def s' inst_node_def)
  show "dl_cpus s' = (dl_cpus s)(cid := Some (linked (dl_fresh s) ws (executed ws c)))" "dl_mems s' = dl_mems s"
    by (simp_all add: s')
qed

lemma oracle_append_Ok:
  assumes "oracle_append n s = Ok s'" "dl_nodes s n = Some y" "o_last_exec s = Some l" "dl_nodes s l = Some x"
    "l \<noteq> n"
  shows "s' = s\<lparr>dl_nodes := (dl_nodes s)(n := Some (y\<lparr>n_last_exec := Some l\<rparr>), l := Some (x\<lparr>n_next := Some n\<rparr>)),
    o_last_exec := Some n\<rparr>"
  using assms by (auto simp: oracle_append_def deref_def store_node_def)

lemma node_le_mems:
  "n_data x = D_inst d \<Longrightarrow> node_le x (x\<lparr>n_data := D_inst (d\<lparr>d_n_mem := a, d_mem := b\<rparr>)\<rparr>)"
  by (simp add: node_le_def data_le_def)

lemma add_mem_node_Ok:
  assumes "add_mem_node inst s = Ok (m, s1)" "\<forall>k. dl_fresh s \<le> k \<longrightarrow> dl_nodes s k = None"
  shows "m = dl_fresh s \<and> s1 = s\<lparr>dl_nodes := dl_nodes s1, dl_fresh := Suc m\<rparr>
    \<and> (\<exists>md. dl_nodes s1 m = Some \<lparr>n_data = D_mem md, n_next = None, n_last_exec = None\<rparr>)
    \<and> (\<forall>k x. dl_nodes s k = Some x \<longrightarrow> (\<exists>y. dl_nodes s1 k = Some y \<and> node_le x y \<and> n_next y = n_next x))
    \<and> (\<forall>k. Suc m \<le> k \<longrightarrow> dl_nodes s1 k = None)"
proof -
  obtain p x where p: "inst = Some p" "dl_nodes s p = Some x"
    using assms(1) by (auto simp: add_mem_node_def deref_def split: option.splits)
  have pn: "p \<noteq> dl_fresh s" using assms(2) p by auto
  show ?thesis
  proof (cases "n_data x")
    case (D_inst d)
    then show ?thesis
      using assms p pn
      by (auto simp: add_mem_node_def deref_def Let_def create_mem_node_def new_node_def store_node_def
          node_le_mems split: option.splits)
  next
    case (D_mem md)
    then show ?thesis
      using assms p pn
      by (auto simp: add_mem_node_def deref_def create_mem_node_def new_node_def store_node_def)
  next
    case (D_dev i)
    then show ?thesis
      using assms p by (simp add: add_mem_node_def deref_def)
  qed
qed

lemma mem_appended:
  assumes inv: "dl_inv s" and ex: "dl_exec (Ev_mem mid addr data width inst) s = Ok s'"
  shows "\<exists>md m. appended s s' (D_mem md) \<and> dl_cpus s' = dl_cpus s \<and> dl_mems s' = dl_mems s
    \<and> dl_mems s mid = Some m \<and> md_id md = Some (ucast (m_id m))"
proof -
  obtain l x where l: "o_last_exec s = Some l" "dl_nodes s l = Some x" "n_next x = None"
    using inv by (auto simp: dl_inv_def)
  have fr: "\<forall>k. dl_fresh s \<le> k \<longrightarrow> dl_nodes s k = None" using inv by (auto simp: dl_inv_def)
  then have fl: "l < dl_fresh s" using l by (metis leI option.distinct(1))
  obtain am where am: "delorean_pg_exec_mem mid (mem_key addr) inst addr (s\<lparr>dl_memory := am\<rparr>) = Ok s'"
    using ex by (auto simp: dl_exec_def)
  obtain n s1 where a: "add_mem_node inst (s\<lparr>dl_memory := am\<rparr>) = Ok (n, s1)"
    using am by (auto simp: delorean_pg_exec_mem_def)
  have A: "n = dl_fresh s" "s1 = s\<lparr>dl_memory := am, dl_nodes := dl_nodes s1, dl_fresh := Suc n\<rparr>"
    "\<forall>k x. dl_nodes s k = Some x \<longrightarrow> (\<exists>y. dl_nodes s1 k = Some y \<and> node_le x y \<and> n_next y = n_next x)"
    "\<forall>k. Suc n \<le> k \<longrightarrow> dl_nodes s1 k = None"
    using add_mem_node_Ok [OF a] fr by auto
  obtain md where md: "dl_nodes s1 n = Some \<lparr>n_data = D_mem md, n_next = None, n_last_exec = None\<rparr>"
    using add_mem_node_Ok [OF a] fr by auto
  obtain y where y: "dl_nodes s1 l = Some y" "node_le x y" "n_next y = None" using A(3) l by metis
  have fields: "o_last_exec s1 = Some l" "dl_mems s1 = dl_mems s" "dl_cpus s1 = dl_cpus s" "tables s1 = tables s"
    "dl_fresh s1 = Suc n"
    using l by (subst A(2), simp add: tables_def)+
  obtain m where m: "dl_mems s mid = Some m"
    using am a fields(2) by (auto simp: delorean_pg_exec_mem_def get_mem_def initialised_def split: option.splits)
  define md' where "md' = md\<lparr>md_addr := addr, md_value := sa_value (dl_memory s1 (mem_key addr)),
    md_id := Some (ucast (m_id m)), md_last_write := sa_meta (dl_memory s1 (mem_key addr))\<rparr>"
  define s2 where "s2 = (store_node n \<lparr>n_data = D_mem md', n_next = None, n_last_exec = None\<rparr> s1)
    \<lparr>dl_memory := (dl_memory s1)(mem_key addr := (dl_memory s1 (mem_key addr))\<lparr>sa_meta := Some n\<rparr>)\<rparr>"
  have o: "oracle_append n s2 = Ok s'"
    using am a m md fields(2)
    by (simp add: delorean_pg_exec_mem_def get_mem_def initialised_def deref_def s2_def md'_def Let_def)
  have ln: "l \<noteq> n" using fl A(1) by simp
  have s': "s' = s2\<lparr>dl_nodes := (dl_nodes s2)(n := Some \<lparr>n_data = D_mem md', n_next = None, n_last_exec = Some l\<rparr>,
      l := Some (y\<lparr>n_next := Some n\<rparr>)), o_last_exec := Some n\<rparr>"
    using oracle_append_Ok [OF o] y ln fields(1) by (simp add: s2_def store_node_def)
  have "heap_le (dl_nodes s) (dl_nodes s')"
    unfolding heap_le_def
  proof (intro allI impI)
    fix k z assume k: "dl_nodes s k = Some z"
    then have "k \<noteq> n" using fr A(1) by auto
    obtain w where w: "dl_nodes s1 k = Some w" "node_le z w" using A(3) k by blast
    show "\<exists>w. dl_nodes s' k = Some w \<and> node_le z w"
      using \<open>k \<noteq> n\<close> w k y l by (cases "k = l") (auto simp: s' s2_def store_node_def node_le_def)
  qed
  then have "appended s s' (D_mem md')"
    using l A(1,4) fields ln fl
    by (auto simp: appended_def s' s2_def store_node_def tables_def)
  then show ?thesis
    using m fields by (intro exI [of _ md'] exI [of _ m]) (simp add: s' s2_def store_node_def md'_def)
qed

lemma dev_appended:
  assumes inv: "dl_inv s" and ex: "dl_exec (Ev_dev mid) s = Ok s'"
  shows "\<exists>m. appended s s' (D_dev (Some (ucast (m_id m)))) \<and> dl_cpus s' = dl_cpus s \<and> dl_mems s' = dl_mems s
    \<and> dl_mems s mid = Some m"
proof -
  obtain l x where l: "o_last_exec s = Some l" "dl_nodes s l = Some x" "n_next x = None"
    using inv by (auto simp: dl_inv_def)
  have fr: "\<forall>k. dl_fresh s \<le> k \<longrightarrow> dl_nodes s k = None" using inv by (auto simp: dl_inv_def)
  then have fl: "l < dl_fresh s" using l by (metis leI option.distinct(1))
  obtain m where m: "dl_mems s mid = Some m"
    using ex by (auto simp: dl_exec_def delorean_pg_exec_dev_def get_mem_def initialised_def split: option.splits)
  then show ?thesis
    using ex l fr fl
    by (auto simp: dl_exec_def delorean_pg_exec_dev_def get_mem_def initialised_def create_dev_node_def new_node_def
        store_node_def deref_def oracle_append_def appended_def heap_le_def node_le_def tables_def)
qed

section \<open>One step back, one step forth\<close>

definition regs_of :: "cpu_t \<Rightarrow> u32 list \<times> u32 \<times> u32" where
  "regs_of c = (map r_data (c_regs c), r_data (c_cpsr c), r_data (c_spsr c))"

lemma rfile_regs: "rfile s cid = map_option regs_of (dl_cpus s cid)"
  by (simp add: rfile_def regs_of_def [abs_def])

lemma rfile_fun: "rfile s = (\<lambda>i. map_option regs_of (dl_cpus s i))"
  by (rule ext) (rule rfile_regs)

lemma regs_of_eqI:
  "wf_slots c \<Longrightarrow> wf_slots c' \<Longrightarrow> (\<And>r. visible_id r \<Longrightarrow> r_data (slot c r) = r_data (slot c' r)) \<Longrightarrow>
     regs_of c = regs_of c'"
  using rfile_slots [of c c'] by (simp add: regs_of_def)

lemma regs_of_slots:
  assumes "regs_of c = regs_of c'" "wf_slots c"
  shows "wf_slots c'" "visible_id r \<Longrightarrow> r_data (slot c' r) = r_data (slot c r)"
proof -
  have "length (c_regs c') = length (c_regs c)"
    using assms(1) by (metis Pair_inject length_map regs_of_def)
  then show w: "wf_slots c'" using assms(2) by (simp add: wf_slots_def)
  show "visible_id r \<Longrightarrow> r_data (slot c' r) = r_data (slot c r)"
    using rfile_slots [OF assms(2) w] assms(1) by (simp add: regs_of_def)
qed

text \<open>The registers after an instruction.\<close>

lemma inst_slots:
  assumes "wf_cpu c" "plain_inst regs c" "visible_id r"
  defines "ws \<equiv> narrow (reg_writes regs)"
  shows "r_data (slot (linked n ws (executed ws c)) r) = (case map_of ws r of None \<Rightarrow> r_data (slot c r) | Some v \<Rightarrow> v)"
    "r_last_write (slot (linked n ws (executed ws c)) r) =
       (case map_of ws r of None \<Rightarrow> r_last_write (slot c r) | Some v \<Rightarrow> Some n)"
proof -
  have p: "\<forall>w\<in>set (reg_writes regs). plain_write (cpu_mode c) w" "distinct (map fst (reg_writes regs))"
    using assms(2) by (auto simp: plain_inst_def)
  have v: "distinct (map fst ws)" "\<forall>w\<in>set ws. visible_id (fst w)"
    using narrow_distinct [OF p(2,1)] narrow_visible [OF p(1)] by (simp_all add: ws_def)
  have w: "wf_slots c" "wf_slots (executed ws c)"
    using assms(1) by (simp_all add: wf_cpu_slots executed_def)
  show "r_data (slot (linked n ws (executed ws c)) r) = (case map_of ws r of None \<Rightarrow> r_data (slot c r) | Some v \<Rightarrow> v)"
    "r_last_write (slot (linked n ws (executed ws c)) r) =
       (case map_of ws r of None \<Rightarrow> r_last_write (slot c r) | Some v \<Rightarrow> Some n)"
    using slot_upd_all [OF w(2) v assms(3)] slot_upd_all [OF w(1) v assms(3)]
    by (simp_all add: linked_def executed_def split: option.splits)
qed

lemma map_of_entries:
  "map_of (map (\<lambda>e. (rn_id e, f (rn_id e) (rn_value e))) (map (mk_entry c) ws)) r = map_option (f r) (map_of ws r)"
  by (induction ws) (auto simp: mk_entry_def)

lemma reg_prefix_inst:
  assumes "d_n_reg d = word_of_nat (length es)" "d_reg d = map Some es" "length es \<le> 18"
  shows "reg_prefix d = Ok (map Some es)"
  using assms by (simp add: reg_prefix_def unat_of_nat)

lemma entries_facts:
  assumes "plain_inst regs c"
  defines "es \<equiv> map (mk_entry c) (narrow (reg_writes regs))"
  shows "distinct (map rn_id es)" "\<forall>e\<in>set es. visible_id (rn_id e)" "length es \<le> 18"
proof -
  have p: "\<forall>w\<in>set (reg_writes regs). plain_write (cpu_mode c) w" "distinct (map fst (reg_writes regs))"
    using assms(1) by (auto simp: plain_inst_def)
  have "map rn_id es = map fst (narrow (reg_writes regs))" by (simp add: es_def mk_entry_def)
  then show "distinct (map rn_id es)" using narrow_distinct [OF p(2,1)] by simp
  show "\<forall>e\<in>set es. visible_id (rn_id e)" using narrow_visible [OF p(1)] by (simp add: es_def mk_entry_def)
  show "length es \<le> 18"
    using assms(1) by (simp add: es_def narrow_def reg_writes_def plain_inst_def min_le_iff_disj)
qed

lemma at_point_node:
  assumes "at_point s' t" "dl_nodes s' n = Some x"
  shows "\<exists>y. dl_nodes t n = Some y \<and> node_le x y"
  using assms heap_leD by (auto simp: at_point_def)

lemma at_point_regs:
  assumes "at_point s t" "dl_cpus s i = Some c"
  shows "\<exists>c'. dl_cpus t i = Some c' \<and> regs_of c = regs_of c'"
proof -
  have "rfile t i = rfile s i" using assms(1) by (simp add: at_point_def)
  then show ?thesis using assms(2) by (auto simp: rfile_regs)
qed

lemma tables_frame [simp]:
  "tables (s\<lparr>o_last_exec := p\<rparr>) = tables s" "tables (s\<lparr>dl_memory := mm\<rparr>) = tables s"
  "dl_mems s i = Some m \<Longrightarrow> m_id m' = m_id m \<Longrightarrow> tables (s\<lparr>dl_mems := (dl_mems s)(i \<mapsto> m')\<rparr>) = tables s"
  "dl_cpus s i = Some c \<Longrightarrow> c_id c' = c_id c \<Longrightarrow> tables (s\<lparr>dl_cpus := (dl_cpus s)(i \<mapsto> c')\<rparr>) = tables s"
  by (auto simp: tables_def)

lemma rfile_frame [simp]:
  "rfile (s\<lparr>o_last_exec := p\<rparr>) = rfile s" "rfile (s\<lparr>dl_memory := mm\<rparr>) = rfile s"
  "rfile (s\<lparr>dl_mems := ms\<rparr>) = rfile s"
  by (simp_all add: rfile_fun)

lemma slot_frame [simp]:
  "slot (c\<lparr>c_last_exec := p\<rparr>) r = slot c r" "slot (c\<lparr>c_next_exec := p\<rparr>) r = slot c r"
  by (simp_all add: slot_def)

lemma tables_cpu: "tables t = tables s \<Longrightarrow> oracle_cpu i t = oracle_cpu i s"
  by (simp add: tables_def oracle_cpu_def)

lemma tables_mem: "tables t = tables s \<Longrightarrow> oracle_mem i t = oracle_mem i s"
  by (simp add: tables_def oracle_mem_def)

lemma tables_get:
  assumes "tables t = tables s"
  shows "dl_cpus s i = Some c \<Longrightarrow> \<exists>c'. dl_cpus t i = Some c' \<and> c_id c' = c_id c"
    "dl_mems s i = Some m \<Longrightarrow> \<exists>m'. dl_mems t i = Some m' \<and> m_id m' = m_id m"
proof -
  have "map_option c_id (dl_cpus t i) = map_option c_id (dl_cpus s i)"
    "map_option m_id (dl_mems t i) = map_option m_id (dl_mems s i)"
    using assms by (auto simp: tables_def dest: fun_cong)
  then show "dl_cpus s i = Some c \<Longrightarrow> \<exists>c'. dl_cpus t i = Some c' \<and> c_id c' = c_id c"
    "dl_mems s i = Some m \<Longrightarrow> \<exists>m'. dl_mems t i = Some m' \<and> m_id m' = m_id m"
    by (cases "dl_cpus t i"; cases "dl_mems t i"; simp)+
qed

lemma reverse_inst:
  assumes inv: "dl_inv s" and c: "dl_cpus s cid = Some c" and pl: "plain_inst regs c"
    and ex: "dl_exec (Ev_inst cid regs) s = Ok s'" and at: "at_point s' t"
  shows "\<exists>p t'. oracle_reverse_exec t = Ok (COMP_CPU, p, t') \<and> at_point s t'"
proof -
  define ws where "ws = narrow (reg_writes regs)"
  define es where "es = map (mk_entry c) ws"
  note app = inst_appended [OF inv c pl ex, folded ws_def, folded es_def]
  note ef = entries_facts [OF pl, folded ws_def, folded es_def]
  have wf: "wf_cpu c" "oracle_cpu (Some (c_id c)) s = Ok cid"
    "\<And>r. visible_id r \<Longrightarrow> looks_up (dl_nodes s) (r_last_write (slot c r)) r (r_data (slot c r))"
    using inv c by (auto simp: dl_inv_def)
  have tab: "tables t = tables s" using at app(1) by (simp add: at_point_def appended_def)
  have heap: "heap_le (dl_nodes s) (dl_nodes t)"
    using at app(1) heap_le_trans by (auto simp: at_point_def appended_def)
  obtain l where l: "o_last_exec s = Some l" "o_last_exec t = Some (dl_fresh s)"
    "dl_nodes s' (dl_fresh s) = Some \<lparr>n_data = n_data (inst_node (c_id c) None es), n_next = None, n_last_exec = Some l\<rparr>"
    using app(1) at by (auto simp: appended_def at_point_def)
  obtain y where y: "dl_nodes t (dl_fresh s) = Some y" "node_le \<lparr>n_data = n_data (inst_node (c_id c) None es),
      n_next = None, n_last_exec = Some l\<rparr> y"
    using at_point_node [OF at l(3)] by blast
  obtain d where d: "n_data y = D_inst d" "d_id d = Some (c_id c)" "d_n_reg d = word_of_nat (length es)"
    "d_reg d = map Some es" "n_last_exec y = Some l"
    using y(2) by (auto simp: node_le_def data_le_def inst_node_def)
  define c1 where "c1 = linked (dl_fresh s) ws (executed ws c)"
  have c1: "dl_cpus s' cid = Some c1" "wf_slots c1" using app(2) wf(1)
    by (simp_all add: c1_def linked_def executed_def wf_cpu_slots)
  obtain ct where ct: "dl_cpus t cid = Some ct" "regs_of c1 = regs_of ct"
    using at_point_regs [OF at c1(1)] by blast
  have ctid: "c_id ct = c_id c" using tables_get(1) [OF tab c] ct(1) by auto
  note cts = regs_of_slots [OF ct(2) c1(2)]
  define t1 where "t1 = set_cpu cid (ct\<lparr>c_last_exec := Some (dl_fresh s)\<rparr>) t"
  have lk: "\<forall>e\<in>set es. looks_up (dl_nodes t1) (rn_last_write e) (rn_id e) (r_data (slot c (rn_id e)))"
    using wf(3) ef(2) heap by (auto simp: es_def mk_entry_def t1_def set_cpu_def intro: looks_up_mono)
  have "wf_slots (ct\<lparr>c_last_exec := Some (dl_fresh s)\<rparr>)" using cts(1) by (simp add: wf_slots_def)
  from undo_regs [OF this ef(1,2) lk] obtain c2 where
    c2: "fold_result (undo_reg t1) (map Some es) (ct\<lparr>c_last_exec := Some (dl_fresh s)\<rparr>) = Ok c2"
      "wf_slots c2" "c_id c2 = c_id ct" and sl: "\<And>r. visible_id r \<Longrightarrow> r_data (slot c2 r) =
       (case map_of (map (\<lambda>e. (rn_id e, r_data (slot c (rn_id e)))) es) r of None \<Rightarrow> r_data (slot ct r) | Some v \<Rightarrow> v)"
    by (auto cong: option.case_cong)
  have "regs_of c2 = regs_of c"
  proof (rule regs_of_eqI)
    show "wf_slots c2" "wf_slots c" using c2(2) wf(1) wf_cpu_slots by auto
    fix r assume r: "visible_id r"
    have "map_of (map (\<lambda>e. (rn_id e, r_data (slot c (rn_id e)))) es) r = map_option (\<lambda>v. r_data (slot c r)) (map_of ws r)"
      using map_of_entries [of "\<lambda>i v. r_data (slot c i)" c ws r] by (simp add: es_def)
    then show "r_data (slot c2 r) = r_data (slot c r)"
      using sl [OF r] cts(2) [OF r] inst_slots(1) [OF wf(1) pl r, folded ws_def, of "dl_fresh s"]
      by (auto simp: c1_def split: option.splits)
  qed
  then have rf: "rfile (set_cpu cid c2 t1) = rfile s"
    using at app(2) c unfolding at_point_def rfile_fun t1_def set_cpu_def
    by (intro ext) (auto dest: fun_cong split: if_splits)
  have r15: "arr_get (c_regs c2) 15 = Ok (c_regs c2 ! 15)" using c2(2) by (simp add: arr_get_def wf_slots_def)
  have "cpu_reverse_exec cid t1 = Ok (r_data (c_regs c2 ! 15), set_cpu cid c2 t1)"
    using y(1) d ef(3) c2(1) r15
    by (simp add: cpu_reverse_exec_def t1_def get_cpu_def initialised_def set_cpu_def deref_def inst_of_def
        reg_prefix_inst)
  then have "oracle_reverse_exec t = Ok (COMP_CPU, P_cpu (ucast (c_id ct)) (r_data (c_regs c2 ! 15)),
      (set_cpu cid c2 t1)\<lparr>o_last_exec := Some l\<rparr>)"
    using l(2) y(1) d ct(1) wf(2) tables_cpu [OF tab]
    by (simp add: oracle_reverse_exec_def deref_def get_cpu_def initialised_def t1_def)
  moreover have "at_point s ((set_cpu cid c2 t1)\<lparr>o_last_exec := Some l\<rparr>)"
    using heap l(1) rf tab ct(1) c2(3) by (simp add: at_point_def t1_def set_cpu_def)
  ultimately show ?thesis by blast
qed

lemma forward_inst:
  assumes inv: "dl_inv s" and c: "dl_cpus s cid = Some c" and pl: "plain_inst regs c"
    and ex: "dl_exec (Ev_inst cid regs) s = Ok s'" and at: "at_point s t"
    and later: "heap_le (dl_nodes s') (dl_nodes t)"
  shows "\<exists>p t'. oracle_forward_exec t = Ok (COMP_CPU, p, t') \<and> at_point s' t'"
proof -
  define ws where "ws = narrow (reg_writes regs)"
  define es where "es = map (mk_entry c) ws"
  note app = inst_appended [OF inv c pl ex, folded ws_def, folded es_def]
  note ef = entries_facts [OF pl, folded ws_def, folded es_def]
  have wf: "wf_cpu c" "oracle_cpu (Some (c_id c)) s = Ok cid"
    using inv c by (auto simp: dl_inv_def)
  have tab: "tables t = tables s" using at by (simp add: at_point_def)
  obtain l z where l: "o_last_exec s = Some l" "dl_nodes s' l = Some z" "n_next z = Some (dl_fresh s)"
    "dl_nodes s' (dl_fresh s) = Some \<lparr>n_data = n_data (inst_node (c_id c) None es), n_next = None, n_last_exec = Some l\<rparr>"
    using app(1) by (auto simp: appended_def)
  obtain zt where zt: "dl_nodes t l = Some zt" "n_next zt = Some (dl_fresh s)"
    using heap_leD [OF later l(2)] l(3) by (auto simp: node_le_def)
  obtain y where y: "dl_nodes t (dl_fresh s) = Some y" "node_le \<lparr>n_data = n_data (inst_node (c_id c) None es),
      n_next = None, n_last_exec = Some l\<rparr> y"
    using heap_leD [OF later l(4)] by blast
  obtain d where d: "n_data y = D_inst d" "d_id d = Some (c_id c)" "d_n_reg d = word_of_nat (length es)"
    "d_reg d = map Some es"
    using y(2) by (auto simp: node_le_def data_le_def inst_node_def)
  obtain ct where ct: "dl_cpus t cid = Some ct" "regs_of c = regs_of ct"
    using at_point_regs [OF at c] by blast
  note cts = regs_of_slots [OF ct(2) wf_cpu_slots [OF wf(1)]]
  define n where "n = dl_fresh s"
  define t1 where "t1 = set_cpu cid (ct\<lparr>c_next_exec := Some n\<rparr>) t"
  have "wf_slots (ct\<lparr>c_next_exec := Some n\<rparr>)" using cts(1) by (simp add: wf_slots_def)
  from redo_regs [OF this ef(1,2), of n] obtain c2 where
    c2: "fold_result (redo_reg n) (map Some es) (ct\<lparr>c_next_exec := Some n\<rparr>) = Ok c2"
      "wf_slots c2" "c_id c2 = c_id ct" and sl: "\<And>r. visible_id r \<Longrightarrow> r_data (slot c2 r) =
       (case map_of (map (\<lambda>e. (rn_id e, rn_value e)) es) r of None \<Rightarrow> r_data (slot ct r) | Some v \<Rightarrow> v)"
    by (auto cong: option.case_cong)
  define c1 where "c1 = linked n ws (executed ws c)"
  have c1: "dl_cpus s' cid = Some c1" "wf_slots c1" using app(2) wf(1)
    by (simp_all add: c1_def linked_def executed_def wf_cpu_slots n_def)
  have "regs_of c2 = regs_of c1"
  proof (rule regs_of_eqI [OF c2(2) c1(2)])
    fix r assume r: "visible_id r"
    have "map_of (map (\<lambda>e. (rn_id e, rn_value e)) es) r = map_of ws r"
      using map_of_entries [of "\<lambda>i v. v" c ws r] by (simp add: es_def option.map_ident)
    then show "r_data (slot c2 r) = r_data (slot c1 r)"
      using sl [OF r] cts(2) [OF r] inst_slots(1) [OF wf(1) pl r, folded ws_def, of n]
      by (simp add: c1_def split: option.splits)
  qed
  then have rf: "rfile (set_cpu cid c2 t1) = rfile s'"
    using at app(2) unfolding at_point_def rfile_fun t1_def set_cpu_def
    by (intro ext) (auto simp: c1_def n_def dest: fun_cong split: if_splits)
  have r15: "arr_get (c_regs c2) 15 = Ok (c_regs c2 ! 15)" using c2(2) by (simp add: arr_get_def wf_slots_def)
  have "cpu_forward_exec cid t1 = Ok (r_data (c_regs c2 ! 15), set_cpu cid c2 t1)"
    using y(1) d ef(3) c2(1) r15
    by (simp add: cpu_forward_exec_def t1_def get_cpu_def initialised_def set_cpu_def deref_def inst_of_def
        reg_prefix_inst n_def)
  then have "oracle_forward_exec t = Ok (COMP_CPU, P_cpu (ucast (c_id ct)) (r_data (c_regs c2 ! 15)),
      (set_cpu cid c2 t1)\<lparr>o_last_exec := Some n\<rparr>)"
    using l(1) at zt y(1) d ct(1) wf(2) tables_cpu [OF tab]
    by (simp add: oracle_forward_exec_def deref_def get_cpu_def initialised_def t1_def n_def at_point_def)
  moreover have "at_point s' ((set_cpu cid c2 t1)\<lparr>o_last_exec := Some n\<rparr>)"
    using later rf tab ct(1) c2(3) app(1) by (simp add: at_point_def t1_def set_cpu_def appended_def n_def)
  ultimately show ?thesis by blast
qed

text \<open>Memory and device nodes leave the registers alone, in both directions.\<close>

lemma reverse_mem:
  assumes inv: "dl_inv s" and ex: "dl_exec (Ev_mem mid addr data width inst) s = Ok s'" and at: "at_point s' t"
  shows "\<exists>p t'. oracle_reverse_exec t = Ok (COMP_MEM, p, t') \<and> at_point s t'"
proof -
  obtain md m where app: "appended s s' (D_mem md)" "dl_cpus s' = dl_cpus s" "dl_mems s mid = Some m"
    "md_id md = Some (ucast (m_id m))"
    using mem_appended [OF inv ex] by blast
  have tab: "tables t = tables s" using at app(1) by (simp add: at_point_def appended_def)
  have heap: "heap_le (dl_nodes s) (dl_nodes t)"
    using at app(1) heap_le_trans by (auto simp: at_point_def appended_def)
  obtain l where l: "o_last_exec s = Some l" "o_last_exec t = Some (dl_fresh s)"
    "dl_nodes s' (dl_fresh s) = Some \<lparr>n_data = D_mem md, n_next = None, n_last_exec = Some l\<rparr>"
    using app(1) at by (auto simp: appended_def at_point_def)
  obtain y where y: "dl_nodes t (dl_fresh s) = Some y" "n_data y = D_mem md" "n_last_exec y = Some l"
    using at_point_node [OF at l(3)] by (auto simp: node_le_def data_le_def)
  obtain m' where m': "dl_mems t mid = Some m'" "m_id m' = m_id m" using tables_get(2) [OF tab app(3)] by blast
  have om: "oracle_mem (md_id md) t = Ok mid"
    using inv app(3,4) tables_mem [OF tab] by (simp add: dl_inv_def)
  have rf: "rfile t = rfile s" using at app(2) by (simp add: at_point_def rfile_fun)
  show ?thesis
    using l y m' om heap rf tab
    by (auto simp: oracle_reverse_exec_def deref_def get_mem_def initialised_def mem_reverse_exec_def set_mem_def mem_of_def
        mem_param_def Let_def at_point_def)
qed

lemma forward_mem:
  assumes inv: "dl_inv s" and ex: "dl_exec (Ev_mem mid addr data width inst) s = Ok s'" and at: "at_point s t"
    and later: "heap_le (dl_nodes s') (dl_nodes t)"
  shows "\<exists>p t'. oracle_forward_exec t = Ok (COMP_MEM, p, t') \<and> at_point s' t'"
proof -
  obtain md m where app: "appended s s' (D_mem md)" "dl_cpus s' = dl_cpus s" "dl_mems s mid = Some m"
    "md_id md = Some (ucast (m_id m))"
    using mem_appended [OF inv ex] by blast
  have tab: "tables t = tables s" "tables s' = tables s" using at app(1) by (simp_all add: at_point_def appended_def)
  obtain l z where l: "o_last_exec s = Some l" "dl_nodes s' l = Some z" "n_next z = Some (dl_fresh s)"
    "o_last_exec s' = Some (dl_fresh s)"
    "dl_nodes s' (dl_fresh s) = Some \<lparr>n_data = D_mem md, n_next = None, n_last_exec = Some l\<rparr>"
    using app(1) by (auto simp: appended_def)
  obtain zt where zt: "dl_nodes t l = Some zt" "n_next zt = Some (dl_fresh s)"
    using heap_leD [OF later l(2)] l(3) by (auto simp: node_le_def)
  obtain y where y: "dl_nodes t (dl_fresh s) = Some y" "n_data y = D_mem md"
    using heap_leD [OF later l(5)] by (auto simp: node_le_def data_le_def)
  obtain m' where m': "dl_mems t mid = Some m'" "m_id m' = m_id m" using tables_get(2) [OF tab(1) app(3)] by blast
  have om: "oracle_mem (md_id md) t = Ok mid"
    using inv app(3,4) tables_mem [OF tab(1)] by (simp add: dl_inv_def)
  have rf: "rfile t = rfile s'" "o_last_exec t = Some l" using at app(2) l(1) by (simp_all add: at_point_def rfile_fun)
  show ?thesis
    using l zt y m' om later rf tab
    by (auto simp: oracle_forward_exec_def deref_def get_mem_def initialised_def mem_forward_exec_def set_mem_def mem_of_def
        mem_param_def Let_def at_point_def)
qed

lemma reverse_dev:
  assumes inv: "dl_inv s" and ex: "dl_exec (Ev_dev mid) s = Ok s'" and at: "at_point s' t"
  shows "\<exists>p t'. oracle_reverse_exec t = Ok (COMP_PERIPH, p, t') \<and> at_point s t'"
proof -
  obtain m where app: "appended s s' (D_dev (Some (ucast (m_id m))))" "dl_cpus s' = dl_cpus s" "dl_mems s mid = Some m"
    using dev_appended [OF inv ex] by blast
  have tab: "tables t = tables s" using at app(1) by (simp add: at_point_def appended_def)
  have heap: "heap_le (dl_nodes s) (dl_nodes t)"
    using at app(1) heap_le_trans by (auto simp: at_point_def appended_def)
  obtain l where l: "o_last_exec s = Some l" "o_last_exec t = Some (dl_fresh s)"
    "dl_nodes s' (dl_fresh s) = Some \<lparr>n_data = D_dev (Some (ucast (m_id m))), n_next = None, n_last_exec = Some l\<rparr>"
    using app(1) at by (auto simp: appended_def at_point_def)
  obtain y where y: "dl_nodes t (dl_fresh s) = Some y" "n_data y = D_dev (Some (ucast (m_id m)))" "n_last_exec y = Some l"
    using at_point_node [OF at l(3)] by (auto simp: node_le_def data_le_def)
  obtain m' where m': "dl_mems t mid = Some m'" "m_id m' = m_id m" using tables_get(2) [OF tab app(3)] by blast
  have om: "oracle_mem (Some (ucast (m_id m))) t = Ok mid"
    using inv app(3) tables_mem [OF tab] by (simp add: dl_inv_def)
  have rf: "rfile t = rfile s" using at app(2) by (simp add: at_point_def rfile_fun)
  show ?thesis
    using l y m' om heap rf tab
    by (auto simp: oracle_reverse_exec_def deref_def get_mem_def initialised_def set_mem_def at_point_def)
qed

lemma forward_dev:
  assumes inv: "dl_inv s" and ex: "dl_exec (Ev_dev mid) s = Ok s'" and at: "at_point s t"
    and later: "heap_le (dl_nodes s') (dl_nodes t)"
  shows "\<exists>p t'. oracle_forward_exec t = Ok (COMP_PERIPH, p, t') \<and> at_point s' t'"
proof -
  obtain m where app: "appended s s' (D_dev (Some (ucast (m_id m))))" "dl_cpus s' = dl_cpus s" "dl_mems s mid = Some m"
    using dev_appended [OF inv ex] by blast
  have tab: "tables t = tables s" "tables s' = tables s" using at app(1) by (simp_all add: at_point_def appended_def)
  obtain l z where l: "o_last_exec s = Some l" "dl_nodes s' l = Some z" "n_next z = Some (dl_fresh s)"
    "o_last_exec s' = Some (dl_fresh s)"
    "dl_nodes s' (dl_fresh s) = Some \<lparr>n_data = D_dev (Some (ucast (m_id m))), n_next = None, n_last_exec = Some l\<rparr>"
    using app(1) by (auto simp: appended_def)
  obtain zt where zt: "dl_nodes t l = Some zt" "n_next zt = Some (dl_fresh s)"
    using heap_leD [OF later l(2)] l(3) by (auto simp: node_le_def)
  obtain y where y: "dl_nodes t (dl_fresh s) = Some y" "n_data y = D_dev (Some (ucast (m_id m)))"
    using heap_leD [OF later l(5)] by (auto simp: node_le_def data_le_def)
  obtain m' where m': "dl_mems t mid = Some m'" "m_id m' = m_id m" using tables_get(2) [OF tab(1) app(3)] by blast
  have om: "oracle_mem (Some (ucast (m_id m))) t = Ok mid"
    using inv app(3) tables_mem [OF tab(1)] by (simp add: dl_inv_def)
  have rf: "rfile t = rfile s'" "o_last_exec t = Some l" using at app(2) l(1) by (simp_all add: at_point_def rfile_fun)
  show ?thesis
    using l zt y m' om later rf tab
    by (auto simp: oracle_forward_exec_def deref_def get_mem_def initialised_def set_mem_def at_point_def)
qed

section \<open>Recorded runs\<close>

inductive dl_run :: "dl_state \<Rightarrow> dl_event list \<Rightarrow> dl_state \<Rightarrow> bool" where
  run_nil: "dl_run s [] s"
| run_snoc: "dl_run s es s1 \<Longrightarrow> plain_event e s1 \<Longrightarrow> dl_exec e s1 = Ok s2 \<Longrightarrow> dl_run s (es @ [e]) s2"

inductive_cases dl_run_nilE: "dl_run s [] s'"

fun reverse_n :: "nat \<Rightarrow> dl_state \<Rightarrow> dl_state result" where
  "reverse_n 0 s = Ok s"
| "reverse_n (Suc k) s = bind_result (oracle_reverse_exec s) (\<lambda>(t, p, s'). reverse_n k s')"

fun forward_n :: "nat \<Rightarrow> dl_state \<Rightarrow> dl_state result" where
  "forward_n 0 s = Ok s"
| "forward_n (Suc k) s = bind_result (oracle_forward_exec s) (\<lambda>(t, p, s'). forward_n k s')"

lemma forward_n_snoc:
  "forward_n k s = Ok s1 \<Longrightarrow> oracle_forward_exec s1 = Ok (t, p, s2) \<Longrightarrow> forward_n (Suc k) s = Ok s2"
  by (induction k arbitrary: s) (auto split: prod.splits)

lemma inv_looks_up:
  "dl_inv s \<Longrightarrow> dl_cpus s i = Some d \<Longrightarrow> visible_id r \<Longrightarrow>
     looks_up (dl_nodes s) (r_last_write (slot d r)) r (r_data (slot d r))"
  unfolding dl_inv_def by blast

lemma inst_inv:
  assumes inv: "dl_inv s" and c: "dl_cpus s cid = Some c" and pl: "plain_inst regs c"
    and ex: "dl_exec (Ev_inst cid regs) s = Ok s'"
  shows "dl_inv s'"
proof -
  define ws where "ws = narrow (reg_writes regs)"
  define es where "es = map (mk_entry c) ws"
  define n where "n = dl_fresh s"
  define c1 where "c1 = linked n ws (executed ws c)"
  note app = inst_appended [OF inv c pl ex, folded ws_def, folded es_def n_def, folded c1_def]
  note ef = entries_facts [OF pl, folded ws_def, folded es_def]
  have heap: "heap_le (dl_nodes s) (dl_nodes s')" and tab: "tables s' = tables s"
    using app(1) by (auto simp: appended_def)
  have wf: "wf_cpu c" "c_id c1 = c_id c" "wf_cpu c1"
    using inv c by (auto simp: dl_inv_def c1_def executed_def)
  obtain l where node: "dl_nodes s' n = Some \<lparr>n_data = n_data (inst_node (c_id c) None es), n_next = None, n_last_exec = Some l\<rparr>"
    using app(1) by (auto simp: appended_def n_def)
  have lk: "looks_up (dl_nodes s') (r_last_write (slot c1 r)) r (r_data (slot c1 r))" if r: "visible_id r" for r
  proof (cases "map_of ws r")
    case None
    then have "r_last_write (slot c1 r) = r_last_write (slot c r)" "r_data (slot c1 r) = r_data (slot c r)"
      using inst_slots [OF wf(1) pl r, folded ws_def, of n] by (simp_all add: c1_def)
    then show ?thesis using inv c r heap by (auto simp: dl_inv_def intro: looks_up_mono)
  next
    case (Some v)
    then have s1: "r_last_write (slot c1 r) = Some n" "r_data (slot c1 r) = v"
      using inst_slots [OF wf(1) pl r, folded ws_def, of n] by (simp_all add: c1_def)
    have mem: "mk_entry c (r, v) \<in> set es" using map_of_SomeD [OF Some] by (simp add: es_def)
    have "unat (word_of_nat (length es) :: u8) = length es" using ef(3) by (simp add: unat_of_nat)
    then have "find_reg r (unat (word_of_nat (length es) :: u8)) (map Some es) = Ok (Some (mk_entry c (r, v)))"
      using find_reg_mem [OF mem ef(1)] by (simp add: mk_entry_def)
    then show ?thesis
      using s1 node by (auto simp: looks_up_def inst_node_def mk_entry_def)
  qed
  show ?thesis
    unfolding dl_inv_def
  proof (intro conjI allI impI)
    fix i d assume d: "dl_cpus s' i = Some d"
    show "wf_cpu d" "oracle_cpu (Some (c_id d)) s' = Ok i"
      using d app(2) wf inv c tables_cpu [OF tab] by (auto simp: dl_inv_def split: if_splits)
    show "looks_up (dl_nodes s') (r_last_write (slot d r)) r (r_data (slot d r))" if "visible_id r" for r
      using d app(2) that lk looks_up_mono [OF inv_looks_up [OF inv] heap] by (auto split: if_splits)
  next
    show "oracle_mem (Some (ucast (m_id m))) s' = Ok mid" if "dl_mems s' mid = Some m" for mid m
      using that app(3) inv tables_mem [OF tab] by (auto simp: dl_inv_def)
    show "\<exists>l x. o_last_exec s' = Some l \<and> dl_nodes s' l = Some x \<and> n_next x = None"
      "dl_fresh s' \<le> k \<Longrightarrow> dl_nodes s' k = None" for k
      using app(1) by (auto simp: appended_def)
  qed
qed

lemma other_inv:
  assumes inv: "dl_inv s" and app: "appended s s' D" and same: "dl_cpus s' = dl_cpus s" "dl_mems s' = dl_mems s"
  shows "dl_inv s'"
proof -
  have heap: "heap_le (dl_nodes s) (dl_nodes s')" and tab: "tables s' = tables s"
    using app by (auto simp: appended_def)
  show ?thesis
    using inv same app looks_up_mono [OF _ heap] tables_cpu [OF tab] tables_mem [OF tab]
    by (auto simp: dl_inv_def appended_def)
qed

lemma appended_heap: "appended s s' D \<Longrightarrow> heap_le (dl_nodes s) (dl_nodes s')"
  by (simp add: appended_def)

lemma event_step:
  assumes inv: "dl_inv s" and pl: "plain_event e s" and ex: "dl_exec e s = Ok s'"
  shows "dl_inv s'" "heap_le (dl_nodes s) (dl_nodes s')"
    "at_point s' t \<Longrightarrow> \<exists>y p t'. oracle_reverse_exec t = Ok (y, p, t') \<and> at_point s t'"
    "at_point s t \<Longrightarrow> heap_le (dl_nodes s') (dl_nodes t) \<Longrightarrow>
       \<exists>y p t'. oracle_forward_exec t = Ok (y, p, t') \<and> at_point s' t'"
proof -
  have "dl_inv s' \<and> heap_le (dl_nodes s) (dl_nodes s')
      \<and> (at_point s' t \<longrightarrow> (\<exists>y p t'. oracle_reverse_exec t = Ok (y, p, t') \<and> at_point s t'))
      \<and> (at_point s t \<longrightarrow> heap_le (dl_nodes s') (dl_nodes t) \<longrightarrow>
           (\<exists>y p t'. oracle_forward_exec t = Ok (y, p, t') \<and> at_point s' t'))"
  proof (cases e)
    case (Ev_inst cid regs)
    then obtain c where c: "dl_cpus s cid = Some c" "plain_inst regs c" using pl by (auto simp: plain_event_def)
    note a = inv c ex [unfolded Ev_inst]
    show ?thesis
      using inst_inv [OF a] appended_heap [OF inst_appended(1) [OF a]] reverse_inst [OF a] forward_inst [OF a]
      by meson
  next
    case (Ev_mem mid addr data width inst)
    note a = inv ex [unfolded Ev_mem]
    obtain md where "appended s s' (D_mem md)" "dl_cpus s' = dl_cpus s" "dl_mems s' = dl_mems s"
      using mem_appended [OF a] by blast
    then show ?thesis
      using other_inv [OF inv] appended_heap reverse_mem [OF a] forward_mem [OF a] by meson
  next
    case (Ev_dev mid)
    note a = inv ex [unfolded Ev_dev]
    obtain m :: mem_t where "appended s s' (D_dev (Some (ucast (m_id m))))" "dl_cpus s' = dl_cpus s"
      "dl_mems s' = dl_mems s"
      using dev_appended [OF a] by blast
    then show ?thesis
      using other_inv [OF inv] appended_heap reverse_dev [OF a] forward_dev [OF a] by meson
  qed
  then show "dl_inv s'" "heap_le (dl_nodes s) (dl_nodes s')"
    "at_point s' t \<Longrightarrow> \<exists>y p t'. oracle_reverse_exec t = Ok (y, p, t') \<and> at_point s t'"
    "at_point s t \<Longrightarrow> heap_le (dl_nodes s') (dl_nodes t) \<Longrightarrow>
       \<exists>y p t'. oracle_forward_exec t = Ok (y, p, t') \<and> at_point s' t'"
    by blast+
qed

lemma reverse_nodes:
  assumes "oracle_reverse_exec t = Ok (y, p, t')"
  shows "dl_nodes t' = dl_nodes t"
proof -
  obtain x where x: "deref (o_last_exec t) t = Ok x" using assms by (auto simp: oracle_reverse_exec_def)
  show ?thesis
    using assms x by (cases "n_data x") (auto simp: oracle_reverse_exec_def cpu_reverse_exec_def
        mem_reverse_exec_def set_cpu_def set_mem_def Let_def)
qed

lemma forward_nodes:
  assumes "oracle_forward_exec t = Ok (y, p, t')"
  shows "dl_nodes t' = dl_nodes t"
proof -
  obtain l x where x: "deref (o_last_exec t) t = Ok l" "deref (n_next l) t = Ok x"
    using assms by (auto simp: oracle_forward_exec_def)
  show ?thesis
    using assms x by (cases "n_data x") (auto simp: oracle_forward_exec_def cpu_forward_exec_def
        mem_forward_exec_def set_cpu_def set_mem_def Let_def)
qed

lemma run_inv:
  "dl_run s es s' \<Longrightarrow> dl_inv s \<Longrightarrow> dl_inv s' \<and> heap_le (dl_nodes s) (dl_nodes s')"
  by (induction rule: dl_run.induct) (auto dest: event_step(1,2) intro: heap_le_trans)

lemma rewind:
  "dl_run s es s' \<Longrightarrow> dl_inv s \<Longrightarrow> at_point s' t \<Longrightarrow>
     \<exists>t'. reverse_n (length es) t = Ok t' \<and> at_point s t' \<and> dl_nodes t' = dl_nodes t"
proof (induction arbitrary: t rule: dl_run.induct)
  case (run_nil s)
  then show ?case by simp
next
  case (run_snoc s es s1 e s2)
  have "dl_inv s1" using run_inv [OF run_snoc(1)] run_snoc(5) by blast
  then obtain y p t1 where r: "oracle_reverse_exec t = Ok (y, p, t1)" "at_point s1 t1"
    using event_step(3) [OF _ run_snoc(2,3)] run_snoc(6) by blast
  then show ?case
    using run_snoc.IH [OF run_snoc(5) r(2)] reverse_nodes [OF r(1)] by auto
qed

lemma replay:
  "dl_run s es s' \<Longrightarrow> dl_inv s \<Longrightarrow> at_point s t \<Longrightarrow> heap_le (dl_nodes s') (dl_nodes t) \<Longrightarrow>
     \<exists>t'. forward_n (length es) t = Ok t' \<and> at_point s' t' \<and> dl_nodes t' = dl_nodes t"
proof (induction arbitrary: t rule: dl_run.induct)
  case (run_nil s)
  then show ?case by simp
next
  case (run_snoc s es s1 e s2)
  have i: "dl_inv s1" using run_inv [OF run_snoc(1)] run_snoc(5) by blast
  have "heap_le (dl_nodes s1) (dl_nodes t)"
    using event_step(2) [OF i run_snoc(2,3)] run_snoc(7) heap_le_trans by blast
  then obtain t1 where t1: "forward_n (length es) t = Ok t1" "at_point s1 t1" "dl_nodes t1 = dl_nodes t"
    using run_snoc.IH [OF run_snoc(5,6)] by blast
  then obtain y p t2 where "oracle_forward_exec t1 = Ok (y, p, t2)" "at_point s2 t2"
    using event_step(4) [OF i run_snoc(2,3)] run_snoc(7) by metis
  then show ?case
    using forward_n_snoc [OF t1(1)] forward_nodes t1(3) by auto
qed


section \<open>Starting the recorder\<close>

definition dl_start :: dl_state where
  "dl_start = \<lparr>dl_nodes = (\<lambda>_. None), dl_fresh = 0, dl_cpus = (\<lambda>_. None), dl_mems = (\<lambda>_. None),
     dl_memory = (\<lambda>_. zero_addr None), o_n_cpu = 0, o_n_mem = 0, o_cpu = [], o_mem = [], o_last_exec = None\<rparr>"

lemma visible_cases:
  assumes "visible_id r"
  shows "r \<in> {0, 1, 2, 3, 4, 5, 6, 7, 8, 9, 10, 11, 12, 13, 14, 15, 0xFF, 0xFE}"
proof (cases "r < 16")
  case True
  then have "unat r \<in> set [0..<16]" using u8_lt16 [OF True] by simp
  then have "unat r \<in> {0, 1, 2, 3, 4, 5, 6, 7, 8, 9, 10, 11, 12, 13, 14, 15}"
    by (simp add: upt_rec numeral_eq_Suc del: set_upt)
  then show ?thesis by (auto simp: word_unat_eq_iff)
next
  case False
  then show ?thesis using assms by (auto simp: visible_id_def)
qed

lemma reset_ids_eval [code]:
  "reset_ids = [(255, 0x400001D3), (254, 0), (0, 0), (1, 0), (2, 0), (3, 0), (4, 0), (5, 0), (6, 0), (7, 0),
     (8, 0), (24, 0), (9, 0), (25, 0), (10, 0), (26, 0), (11, 0), (27, 0), (12, 0), (28, 0),
     (13, 0), (29, 0), (45, 0), (61, 0), (77, 0), (93, 0), (14, 0), (30, 0), (46, 0), (62, 0), (78, 0), (94, 0),
     (15, 0), (80, 0), (96, 0), (112, 0), (64, 0), (80, 0)]"
  by (simp add: reset_ids_def upt_rec ARM_CPU_MODE_SVC_def REGID_FIQ_def BANK_SPSR_def)

definition reset_entries :: "nat \<Rightarrow> reg_node_t option list" where
  "reset_entries n = map (\<lambda>(r, v). Some \<lparr>rn_id = r, rn_value = v, rn_last_write = Some n\<rparr>) reset_ids"

definition reset_node :: "nat \<Rightarrow> inst_node_t" where
  "reset_node n = \<lparr>n_data = D_inst \<lparr>d_id = None, d_n_reg = ARM_REGS, d_n_mem = 0, d_reg = reset_entries n, d_mem = []\<rparr>,
     n_next = None, n_last_exec = Some n\<rparr>"

lemma find_reset:
  assumes "visible_id r"
  shows "find_reg r 37 (reset_entries n) = Ok (Some \<lparr>rn_id = r,
    rn_value = (if r = 0xFF then 0x400001D3 else 0), rn_last_write = Some n\<rparr>)"
  using visible_cases [OF assms] unfolding reset_entries_def reset_ids_eval
  by (elim insertE emptyE; simp add: initialised_def)

lemma slot_create:
  assumes "visible_id r"
  shows "slot (reset_cpu n (cpu_create i)) r = \<lparr>r_data = (if r = 0xFF then 0x400001D3 else 0), r_last_write = Some n\<rparr>"
  using assms by (auto simp: visible_id_def slot_def reset_cpu_def cpu_create_def reset_reg_def zero_reg_def
      u8_lt16 ARM_CPU_MODE_SVC_def)

lemma reset_looks_up:
  assumes "h n = Some (reset_node n)" "visible_id r"
  shows "looks_up h (r_last_write (slot (reset_cpu n (cpu_create i)) r)) r
    (r_data (slot (reset_cpu n (cpu_create i)) r))"
  using assms find_reset [OF assms(2), of n]
  by (simp add: looks_up_def slot_create reset_node_def ARM_REGS_def)

definition booted :: dl_state where
  "booted = dl_start\<lparr>dl_nodes := [0 \<mapsto> reset_node 0], dl_fresh := 1, o_n_cpu := 1, o_cpu := [Some 0],
    o_last_exec := Some 0, dl_cpus := [0 \<mapsto> reset_cpu 0 (cpu_create 0)]\<rparr>"

lemma booted_eq: "pg_comp_cpu 0 (set_cpu 0 (cpu_create 0) dl_start) = Ok booted"
  by (simp add: pg_comp_cpu_def get_cpu_def set_cpu_def initialised_def dl_start_def create_cpu_node_def new_node_def
      store_node_def realloc_def arr_set_def cpu_create_def booted_def reset_node_def reset_entries_def Let_def)

lemma booted_cpu:
  "dl_cpus booted 0 = Some (reset_cpu 0 (cpu_create 0))" "wf_cpu (reset_cpu 0 (cpu_create 0))"
  "c_id (reset_cpu 0 (cpu_create 0)) = 0"
  by (simp_all add: booted_def reset_cpu_def cpu_create_def wf_cpu_def)

lemma booted_inv: "dl_inv booted"
  using reset_looks_up [of "[0 \<mapsto> reset_node 0]" 0] booted_cpu(2,3)
  by (auto simp: dl_inv_def booted_def dl_start_def oracle_cpu_def initialised_def arr_get_def reset_node_def
      split: if_splits)


definition demo_inst :: exec_reg_t where
  "demo_inst = \<lparr>x_nreg = 2, x_id = [3, 15], x_data = [42, 0x8004]\<rparr>"

lemma demo_writes: "narrow (reg_writes demo_inst) = [(3, 42), (15, 0x8004)]"
  by (simp add: narrow_def reg_writes_def demo_inst_def)

lemma demo_plain: "plain_inst demo_inst (reset_cpu 0 (cpu_create 0))"
  by (simp add: plain_inst_def demo_inst_def wf_exec_reg_def reg_writes_def plain_write_def)

lemma demo_run:
  "\<exists>s'. dl_run booted [Ev_inst 0 demo_inst] s' \<and> rfile booted \<noteq> rfile s'"
proof -
  let ?c = "reset_cpu 0 (cpu_create 0)"
  define c1 where "c1 = linked (dl_fresh booted) (narrow (reg_writes demo_inst)) (executed (narrow (reg_writes demo_inst)) ?c)"
  have "o_last_exec booted = Some 0" "dl_nodes booted 0 = Some (reset_node 0)" by (simp_all add: booted_def)
  then obtain s' where ex: "dl_exec (Ev_inst 0 demo_inst) booted = Ok s'"
    using exec_inst [OF booted_inv booted_cpu(1) demo_plain] by blast
  have "dl_run booted ([] @ [Ev_inst 0 demo_inst]) s'"
    using booted_cpu(1) demo_plain ex by (intro run_snoc [OF run_nil]) (auto simp: plain_event_def)
  moreover have "rfile booted 0 \<noteq> rfile s' 0"
  proof
    assume "rfile booted 0 = rfile s' 0"
    then have "regs_of ?c = regs_of c1"
      using inst_appended(2) [OF booted_inv booted_cpu(1) demo_plain ex] booted_cpu(1)
      by (simp add: rfile_regs c1_def)
    moreover have v: "visible_id 3" by (simp add: visible_id_def)
    ultimately have "r_data (slot c1 3) = r_data (slot ?c 3)"
      using regs_of_slots(2) wf_cpu_slots [OF booted_cpu(2)] by metis
    moreover have "r_data (slot c1 3) = 42"
      using inst_slots(1) [OF booted_cpu(2) demo_plain v, of "dl_fresh booted"] by (simp add: c1_def demo_writes)
    moreover have "r_data (slot ?c 3) = 0" using slot_create [OF v, of 0 0] by simp
    ultimately show False by simp
  qed
  ultimately show ?thesis by auto
qed



end
