(* ===== verification/Delorean_Limits.thy ===== *)
theory Delorean_Limits
  imports Delorean_Travel
begin

text \<open>
  Where stepping back does not restore the past: instructions that write a register twice, changes of
  mode, stores. The runs are evaluated on the model. Also the oracle's tables, which are
  indexed by device ids but have one entry per registered device.
\<close>

section \<open>What is not undone\<close>

text \<open>Register 13 or 15 of processor 0, and the word at address 0, after a run.\<close>

definition reg_after :: "nat \<Rightarrow> dl_state result \<Rightarrow> u32 option" where
  "reg_after k r = (case r of Inl _ \<Rightarrow> None | Inr s \<Rightarrow> map_option (\<lambda>c. r_data (c_regs c ! k)) (dl_cpus s 0))"

definition word0_after :: "dl_state result \<Rightarrow> u32 option" where
  "word0_after r = (case r of Inl _ \<Rightarrow> None | Inr s \<Rightarrow> Some (sa_value (dl_memory s 0)))"

definition boot_run :: "dl_event list \<Rightarrow> dl_state result" where
  "boot_run es = fold_result dl_exec es booted"

text \<open>An instruction that names the program counter in its register list, to which the core adds
  it once more: stepping back gives the first of the two values, not the one before.\<close>

definition twice_inst :: exec_reg_t where
  "twice_inst = \<lparr>x_nreg = 2, x_id = [15, 15], x_data = [0x8000, 0x8004]\<rparr>"

lemma duplicate_not_undone:
  "reg_after 15 (boot_run []) = Some 0"
  "reg_after 15 (bind_result (boot_run [Ev_inst 0 twice_inst]) (reverse_n 1)) = Some 0x8000"
  by code_simp+

text \<open>A change of mode: the banks are exchanged before the recorder looks at the mode, so the
  exchange is not recorded, and stepping back leaves the stack pointer of the new mode.\<close>

definition sp_inst :: exec_reg_t where
  "sp_inst = \<lparr>x_nreg = 1, x_id = [13], x_data = [0x5000]\<rparr>"

definition irq_inst :: exec_reg_t where
  "irq_inst = \<lparr>x_nreg = 1, x_id = [0xFF], x_data = [0x12]\<rparr>"

lemma mode_change_not_undone:
  "reg_after 13 (boot_run [Ev_inst 0 sp_inst]) = Some 0x5000"
  "reg_after 13 (bind_result (boot_run [Ev_inst 0 sp_inst, Ev_inst 0 irq_inst]) (reverse_n 1)) = Some 0"
  by code_simp+

text \<open>The second of two stores to a word: stepping back writes the value of the store that is
  undone, not the value before it.\<close>

definition with_mem :: "dl_state result \<Rightarrow> dl_state result" where
  "with_mem r = bind_result r (\<lambda>s.
     bind_result (pg_comp_mem 0 (set_mem 0 \<lparr>m_id = 0, m_last_exec = None, m_next_exec = None\<rparr> s))
       (dl_exec (Ev_inst 0 sp_inst)))"

lemma store_not_undone:
  "word0_after (bind_result (with_mem (boot_run [])) (fold_result dl_exec
     [Ev_mem 0 0 [1, 0, 0, 0] 4 (Some 2), Ev_mem 0 0 [2, 0, 0, 0] 4 (Some 2)])) = Some 2"
  "word0_after (bind_result (bind_result (with_mem (boot_run [])) (fold_result dl_exec
     [Ev_mem 0 0 [1, 0, 0, 0] 4 (Some 2), Ev_mem 0 0 [2, 0, 0, 0] 4 (Some 2)])) (reverse_n 1)) = Some 2"
  by code_simp+



end
