(* ===== verification/Watson.thy ===== *)
theory Watson
  imports Core_Mem Hwe_Events
begin

text \<open>
  The coherence checker of \<open>tool/sherlock/src/watson/watson_main.c\<close>: for every byte address a
  small automaton follows the modifications, write-backs and reads of the caches and reports
  reads of stale data.

  The metadata of an address (\<open>mem_data_t\<close> of \<open>watson/cfg.h\<close>) is stored in the hash table
  of \<open>Core_Mem\<close>. Caches live in a heap, a pointer to a cache is its address. What the program
  prints is the list \<open>o_out\<close>; the text that \<open>printf\<close>, \<open>addr2line\<close> and
  \<open>nm\<close> make of an entry is not modelled. Arrays of a cache are functions on indices, every
  index is compared with \<open>MAX_PENDING\<close> before the access.
\<close>

section \<open>Structures\<close>

record writer_t =
  w_id :: u8
  w_cpu_id :: u8
  w_pc :: u32
  w_pre_order :: u64
  w_pos_order :: u64

definition zero_writer :: writer_t where
  "zero_writer = \<lparr>w_id = 0, w_cpu_id = 0, w_pc = 0, w_pre_order = 0, w_pos_order = 0\<rparr>"

definition STATE_INIT :: u8 where "STATE_INIT = 0"
definition STATE_ANALYSE :: u8 where "STATE_ANALYSE = 1"
definition STATE_MODIFY :: u8 where "STATE_MODIFY = 2"
definition STATE_WRITEBACK :: u8 where "STATE_WRITEBACK = 3"
definition STATE_PROBLEM :: u8 where "STATE_PROBLEM = 4"

lemmas state_defs = STATE_INIT_def STATE_ANALYSE_def STATE_MODIFY_def STATE_WRITEBACK_def STATE_PROBLEM_def

lemma states_distinct [simp]:
  "STATE_INIT \<noteq> STATE_ANALYSE" "STATE_INIT \<noteq> STATE_MODIFY" "STATE_INIT \<noteq> STATE_WRITEBACK"
  "STATE_INIT \<noteq> STATE_PROBLEM" "STATE_ANALYSE \<noteq> STATE_INIT" "STATE_ANALYSE \<noteq> STATE_MODIFY"
  "STATE_ANALYSE \<noteq> STATE_WRITEBACK" "STATE_ANALYSE \<noteq> STATE_PROBLEM" "STATE_MODIFY \<noteq> STATE_INIT"
  "STATE_MODIFY \<noteq> STATE_ANALYSE" "STATE_MODIFY \<noteq> STATE_WRITEBACK" "STATE_MODIFY \<noteq> STATE_PROBLEM"
  "STATE_WRITEBACK \<noteq> STATE_INIT" "STATE_WRITEBACK \<noteq> STATE_ANALYSE" "STATE_WRITEBACK \<noteq> STATE_MODIFY"
  "STATE_WRITEBACK \<noteq> STATE_PROBLEM" "STATE_PROBLEM \<noteq> STATE_INIT" "STATE_PROBLEM \<noteq> STATE_ANALYSE"
  "STATE_PROBLEM \<noteq> STATE_MODIFY" "STATE_PROBLEM \<noteq> STATE_WRITEBACK"
  by (simp_all add: state_defs)

definition WRITETHROUGH :: u8 where "WRITETHROUGH = 1"
definition WRITEBACK :: u8 where "WRITEBACK = 2"

datatype coherence_event_t =
    EVENT_WRITE_REQ
  | EVENT_READ_REQ
  | EVENT_ALLOC_REQ
  | EVENT_MODIFY_ACK
  | EVENT_WRITE_ACK
  | EVENT_READ_ACK

record w_mem_data_t =
  md_state :: u8
  md_n_readers :: u8
  md_bitmap_readers :: u32
  md_writer :: writer_t
  md_reader :: writer_t
  md_modifier :: writer_t
  md_bad_addr :: bool
  md_warn_addr :: bool

definition zero_mem_data :: w_mem_data_t where
  "zero_mem_data = \<lparr>md_state = STATE_INIT, md_n_readers = 0, md_bitmap_readers = 0, md_writer = zero_writer,
     md_reader = zero_writer, md_modifier = zero_writer, md_bad_addr = False, md_warn_addr = False\<rparr>"

record problem_t =
  p_total :: u32
  p_mod_read_ack :: u32
  p_mod_read_req :: u32
  p_write_read_ack :: u32
  p_write_flush :: u32

record warning_t =
  wn_total :: u32
  wn_mod_read_alloc :: u32
  wn_mod_write :: u32

datatype wmsg =
    M_addr u32
  | M_line char u8 u32 u64 u64
  | M_src string u32
  | M_error string

text \<open>The function pointer \<open>dfa_coherence\<close> has two targets.\<close>

datatype dfa_fn = Dfa_writethrough | Dfa_writeback

record oracle_t =
  o_sys_order :: u64
  o_n_comp :: u8
  o_write_policy :: u8
  o_problem :: problem_t
  o_warning :: warning_t
  o_undefined_total :: u32
  o_dfa_coherence :: dfa_fn
  o_comp :: "nat option list"
  o_out :: "wmsg list"

section \<open>Reports\<close>

definition PRINT_READER :: "writer_t option \<Rightarrow> wmsg list" where
  "PRINT_READER r = (case r of None \<Rightarrow> []
     | Some w \<Rightarrow> [M_line CHR ''R'' (w_id w) (w_pc w) (w_pre_order w) (w_pos_order w)])"

definition PRINT_WRITER :: "writer_t option \<Rightarrow> wmsg list" where
  "PRINT_WRITER r = (case r of None \<Rightarrow> []
     | Some w \<Rightarrow> [M_line CHR ''W'' (w_id w) (w_pc w) (w_pre_order w) (w_pos_order w)])"

definition PRINT_MODIFIER :: "writer_t option \<Rightarrow> wmsg list" where
  "PRINT_MODIFIER r = (case r of None \<Rightarrow> []
     | Some w \<Rightarrow> [M_line CHR ''M'' (w_id w) (w_pc w) (w_pre_order w) (w_pos_order w)])"

definition PRINT_SRC_READER :: "writer_t option \<Rightarrow> wmsg list" where
  "PRINT_SRC_READER r = (case r of None \<Rightarrow> [] | Some w \<Rightarrow> [M_src ''READER'' (w_pc w)])"

definition PRINT_SRC_WRITER :: "writer_t option \<Rightarrow> wmsg list" where
  "PRINT_SRC_WRITER r = (case r of None \<Rightarrow> [] | Some w \<Rightarrow> [M_src ''WRITER'' (w_pc w)])"

definition PRINT_SRC_MODIFIER :: "writer_t option \<Rightarrow> wmsg list" where
  "PRINT_SRC_MODIFIER r = (case r of None \<Rightarrow> [] | Some w \<Rightarrow> [M_src ''MODIFIER'' (w_pc w)])"

definition PRINT_ADDR :: "u32 \<Rightarrow> wmsg list" where
  "PRINT_ADDR a = [M_addr a]"

definition print_out :: "wmsg list \<Rightarrow> oracle_t \<Rightarrow> oracle_t" where
  "print_out ms s = s\<lparr>o_out := o_out s @ ms\<rparr>"

text \<open>The metadata of the address and the oracle, which one step of an automaton changes.\<close>

type_synonym dfa_st = "w_mem_data_t \<times> oracle_t"

text \<open>What the macros \<open>ASSERT_..._ORDER\<close> do when the order is not defined. Their \<open>break\<close>
  leaves the \<open>switch\<close>: the rest of the case is the argument \<open>k\<close>.\<close>

definition undefined_order :: "wmsg list \<Rightarrow> dfa_st \<Rightarrow> dfa_st" where
  "undefined_order ms = (\<lambda>(d, s). (d\<lparr>md_state := STATE_PROBLEM\<rparr>,
     print_out (ms @ [M_error ''Undefined Order'']) (s\<lparr>o_undefined_total := o_undefined_total s + 1\<rparr>)))"

definition ASSERT_MOD_READ_ORDER ::
  "u32 \<Rightarrow> writer_t \<Rightarrow> writer_t \<Rightarrow> (dfa_st \<Rightarrow> dfa_st result) \<Rightarrow> dfa_st \<Rightarrow> dfa_st result" where
  "ASSERT_MOD_READ_ORDER a m r k st =
     (if w_pos_order m > w_pre_order r
      then Ok (undefined_order (PRINT_ADDR a @ PRINT_MODIFIER (Some m) @ PRINT_READER (Some r)
                 @ PRINT_SRC_MODIFIER (Some m) @ PRINT_SRC_READER (Some r)) st)
      else k st)"

definition ASSERT_MOD_WRIT_ORDER ::
  "u32 \<Rightarrow> writer_t \<Rightarrow> writer_t \<Rightarrow> (dfa_st \<Rightarrow> dfa_st result) \<Rightarrow> dfa_st \<Rightarrow> dfa_st result" where
  "ASSERT_MOD_WRIT_ORDER a m w k st =
     (if w_pos_order m > w_pre_order w
      then Ok (undefined_order (PRINT_ADDR a @ PRINT_MODIFIER (Some m) @ PRINT_WRITER (Some w)
                 @ PRINT_SRC_MODIFIER (Some m) @ PRINT_SRC_WRITER (Some w)) st)
      else k st)"

definition ASSERT_READ_MOD_ORDER ::
  "u32 \<Rightarrow> writer_t \<Rightarrow> writer_t \<Rightarrow> (dfa_st \<Rightarrow> dfa_st result) \<Rightarrow> dfa_st \<Rightarrow> dfa_st result" where
  "ASSERT_READ_MOD_ORDER a r m k st =
     (if w_pos_order r > w_pre_order m
      then Ok (undefined_order (PRINT_ADDR a @ PRINT_READER (Some r) @ PRINT_MODIFIER (Some m)
                 @ PRINT_SRC_READER (Some r) @ PRINT_SRC_MODIFIER (Some m)) st)
      else k st)"

definition ASSERT_MOD_MOD_ORDER ::
  "u32 \<Rightarrow> writer_t \<Rightarrow> writer_t \<Rightarrow> (dfa_st \<Rightarrow> dfa_st result) \<Rightarrow> dfa_st \<Rightarrow> dfa_st result" where
  "ASSERT_MOD_MOD_ORDER a m1 m2 k st =
     (if w_id m1 \<noteq> w_id m2 \<and> w_pos_order m1 > w_pre_order m2
      then Ok (undefined_order (PRINT_ADDR a @ PRINT_MODIFIER (Some m1) @ PRINT_MODIFIER (Some m2)
                 @ PRINT_SRC_MODIFIER (Some m1) @ PRINT_SRC_MODIFIER (Some m2)) st)
      else k st)"

definition ASSERT_WRIT_MOD_ORDER ::
  "u32 \<Rightarrow> writer_t \<Rightarrow> writer_t \<Rightarrow> (dfa_st \<Rightarrow> dfa_st result) \<Rightarrow> dfa_st \<Rightarrow> dfa_st result" where
  "ASSERT_WRIT_MOD_ORDER a w m k st =
     (if w_pos_order w > w_pre_order m
      then Ok (undefined_order (PRINT_ADDR a @ PRINT_WRITER (Some w) @ PRINT_MODIFIER (Some m)
                 @ PRINT_SRC_WRITER (Some w) @ PRINT_SRC_MODIFIER (Some m)) st)
      else k st)"

definition ASSERT_WRIT_READ_ORDER ::
  "u32 \<Rightarrow> writer_t \<Rightarrow> writer_t \<Rightarrow> (dfa_st \<Rightarrow> dfa_st result) \<Rightarrow> dfa_st \<Rightarrow> dfa_st result" where
  "ASSERT_WRIT_READ_ORDER a w r k st =
     (if w_pos_order w > w_pre_order r
      then Ok (undefined_order (PRINT_ADDR a @ PRINT_WRITER (Some w) @ PRINT_READER (Some r)
                 @ PRINT_SRC_WRITER (Some w) @ PRINT_SRC_READER (Some r)) st)
      else k st)"

definition ASSERT_WRIT_WRIT_ORDER ::
  "u32 \<Rightarrow> writer_t \<Rightarrow> writer_t \<Rightarrow> (dfa_st \<Rightarrow> dfa_st result) \<Rightarrow> dfa_st \<Rightarrow> dfa_st result" where
  "ASSERT_WRIT_WRIT_ORDER a w1 w2 k st =
     (if w_pos_order w1 > w_pre_order w2
      then Ok (undefined_order (PRINT_ADDR a @ PRINT_WRITER (Some w1) @ PRINT_WRITER (Some w2)
                 @ PRINT_SRC_WRITER (Some w1) @ PRINT_SRC_WRITER (Some w2)) st)
      else k st)"

definition ASSERT_WRIT_READ_MOD_ORDER ::
  "u32 \<Rightarrow> writer_t \<Rightarrow> writer_t \<Rightarrow> writer_t \<Rightarrow> (dfa_st \<Rightarrow> dfa_st result) \<Rightarrow> dfa_st \<Rightarrow> dfa_st result" where
  "ASSERT_WRIT_READ_MOD_ORDER a w r m k st =
     (if w_pos_order r > w_pre_order m
      then Ok (undefined_order (PRINT_ADDR a @ PRINT_WRITER (Some w) @ PRINT_READER (Some r)
                 @ PRINT_MODIFIER (Some m) @ PRINT_SRC_WRITER (Some w) @ PRINT_SRC_READER (Some r)
                 @ PRINT_SRC_MODIFIER (Some m)) st)
      else k st)"

lemmas assert_defs = ASSERT_MOD_READ_ORDER_def ASSERT_MOD_WRIT_ORDER_def ASSERT_READ_MOD_ORDER_def
  ASSERT_MOD_MOD_ORDER_def ASSERT_WRIT_MOD_ORDER_def ASSERT_WRIT_READ_ORDER_def
  ASSERT_WRIT_WRIT_ORDER_def ASSERT_WRIT_READ_MOD_ORDER_def

definition MAX_ERRORS :: u32 where "MAX_ERRORS = 1000000"

definition PRINT_PROBLEM ::
  "u32 \<Rightarrow> writer_t option \<Rightarrow> writer_t option \<Rightarrow> writer_t option \<Rightarrow> oracle_t \<Rightarrow> oracle_t result" where
  "PRINT_PROBLEM a w m r s =
     (let s' = print_out (PRINT_ADDR a @ PRINT_WRITER w @ PRINT_MODIFIER m @ PRINT_READER r
                 @ PRINT_SRC_WRITER w @ PRINT_SRC_MODIFIER m @ PRINT_SRC_READER r) s;
          total = p_total (o_problem s') + 1;
          s'' = s'\<lparr>o_problem := (o_problem s')\<lparr>p_total := total\<rparr>\<rparr>
      in if total > MAX_ERRORS then Stop (Exit 1) else Ok s'')"

text \<open>\<open>1 << id\<close> on \<open>int\<close>: undefined from bit 31 on.\<close>

definition id_bit :: "u8 \<Rightarrow> u32 result" where
  "id_bit i = (if unat i < 31 then Ok (push_bit (unat i) 1) else Stop Undefined)"

section \<open>The write-back automaton\<close>

definition wb_init :: "writer_t \<Rightarrow> coherence_event_t \<Rightarrow> dfa_st \<Rightarrow> dfa_st result" where
  "wb_init ev event = (\<lambda>(d, s). case event of
     EVENT_MODIFY_ACK \<Rightarrow>
       bind_result (id_bit (w_id ev)) (\<lambda>bit.
       Ok (d\<lparr>md_writer := zero_writer, md_modifier := ev, md_reader := zero_writer,
            md_bitmap_readers := bit, md_state := STATE_MODIFY\<rparr>, s))
   | _ \<Rightarrow> Ok (d, s))"

definition wb_modify_read_ack :: "u32 \<Rightarrow> writer_t \<Rightarrow> dfa_st \<Rightarrow> dfa_st result" where
  "wb_modify_read_ack addr ev = (\<lambda>(d, s).
     let d = d\<lparr>md_reader := ev\<rparr> in
     if w_id (md_modifier d) \<noteq> w_id (md_reader d) then
       ASSERT_MOD_READ_ORDER addr (md_modifier d) (md_reader d) (\<lambda>(d, s).
         bind_result (PRINT_PROBLEM addr None (Some (md_modifier d)) (Some (md_reader d)) s) (\<lambda>s.
         Ok (d\<lparr>md_state := STATE_PROBLEM\<rparr>,
             print_out [M_error ''MODIFY->READ_ACK'']
               (s\<lparr>o_problem := (o_problem s)\<lparr>p_mod_read_ack := p_mod_read_ack (o_problem s) + 1\<rparr>\<rparr>)))) (d, s)
     else Ok (d, s))"

definition wb_modify_read_req :: "u32 \<Rightarrow> writer_t \<Rightarrow> dfa_st \<Rightarrow> dfa_st result" where
  "wb_modify_read_req addr ev = (\<lambda>(d, s).
     let d = d\<lparr>md_reader := ev\<rparr> in
     ASSERT_MOD_READ_ORDER addr (md_modifier d) (md_reader d) (\<lambda>(d, s).
       bind_result (PRINT_PROBLEM addr None (Some (md_modifier d)) (Some (md_reader d)) s) (\<lambda>s.
       Ok (d\<lparr>md_state := STATE_PROBLEM\<rparr>,
           print_out [M_error ''MODIFY->READ_REQ'']
             (s\<lparr>o_problem := (o_problem s)\<lparr>p_mod_read_req := p_mod_read_req (o_problem s) + 1\<rparr>\<rparr>)))) (d, s))"

definition wb_modify_alloc_req :: "dfa_st \<Rightarrow> dfa_st result" where
  "wb_modify_alloc_req = (\<lambda>(d, s).
     if \<not> md_warn_addr d then
       Ok (d\<lparr>md_warn_addr := True\<rparr>,
           s\<lparr>o_warning := (o_warning s)\<lparr>wn_mod_read_alloc := wn_mod_read_alloc (o_warning s) + 1,
                                        wn_total := wn_total (o_warning s) + 1\<rparr>\<rparr>)
     else Ok (d, s))"

definition wb_modify_modify_ack :: "u32 \<Rightarrow> writer_t \<Rightarrow> dfa_st \<Rightarrow> dfa_st result" where
  "wb_modify_modify_ack addr ev = (\<lambda>(d, s).
     ASSERT_READ_MOD_ORDER addr (md_reader d) ev (\<lambda>(d, s).
     ASSERT_MOD_MOD_ORDER addr (md_modifier d) ev (\<lambda>(d, s).
       bind_result (id_bit (w_id ev)) (\<lambda>bit.
       Ok (d\<lparr>md_writer := zero_writer, md_reader := zero_writer, md_modifier := ev,
            md_bitmap_readers := bit, md_state := STATE_MODIFY\<rparr>, s))) (d, s)) (d, s))"

definition wb_modify_write_req :: "u32 \<Rightarrow> writer_t \<Rightarrow> dfa_st \<Rightarrow> dfa_st result" where
  "wb_modify_write_req addr ev = (\<lambda>(d, s).
     if w_id (md_modifier d) = w_id ev then
       ASSERT_MOD_WRIT_ORDER addr (md_modifier d) ev (\<lambda>(d, s).
         bind_result (id_bit (w_id ev)) (\<lambda>bit.
         Ok (d\<lparr>md_writer := ev, md_reader := zero_writer, md_modifier := zero_writer,
              md_bitmap_readers := bit, md_state := STATE_WRITEBACK\<rparr>, s))) (d, s)
     else if \<not> md_warn_addr d then
       Ok (d\<lparr>md_warn_addr := True\<rparr>,
           s\<lparr>o_warning := (o_warning s)\<lparr>wn_mod_write := wn_mod_write (o_warning s) + 1,
                                        wn_total := wn_total (o_warning s) + 1\<rparr>\<rparr>)
     else Ok (d, s))"

definition wb_modify :: "u32 \<Rightarrow> writer_t \<Rightarrow> coherence_event_t \<Rightarrow> dfa_st \<Rightarrow> dfa_st result" where
  "wb_modify addr ev event st = (case event of
     EVENT_READ_ACK \<Rightarrow> wb_modify_read_ack addr ev st
   | EVENT_READ_REQ \<Rightarrow> wb_modify_read_req addr ev st
   | EVENT_ALLOC_REQ \<Rightarrow> wb_modify_alloc_req st
   | EVENT_MODIFY_ACK \<Rightarrow> wb_modify_modify_ack addr ev st
   | EVENT_WRITE_REQ \<Rightarrow> wb_modify_write_req addr ev st
   | _ \<Rightarrow> Ok (fst st, print_out [M_error ''Not supported event''] (snd st)))"

definition wb_writeback_read_ack :: "u32 \<Rightarrow> writer_t \<Rightarrow> dfa_st \<Rightarrow> dfa_st result" where
  "wb_writeback_read_ack addr ev = (\<lambda>(d, s).
     let d = d\<lparr>md_reader := ev\<rparr> in
     bind_result (id_bit (w_id ev)) (\<lambda>bit.
     if md_bitmap_readers d AND bit = 0 then
       ASSERT_WRIT_READ_ORDER addr (md_writer d) ev (\<lambda>(d, s).
         bind_result (PRINT_PROBLEM addr (Some (md_writer d)) None (Some ev) s) (\<lambda>s.
         Ok (d\<lparr>md_state := STATE_PROBLEM\<rparr>,
             print_out [M_error ''WRITEBACK->READ_ACK'']
               (s\<lparr>o_problem := (o_problem s)\<lparr>p_write_read_ack := p_write_read_ack (o_problem s) + 1\<rparr>\<rparr>)))) (d, s)
     else Ok (d, s)))"

definition wb_writeback_read_req :: "writer_t \<Rightarrow> dfa_st \<Rightarrow> dfa_st result" where
  "wb_writeback_read_req ev = (\<lambda>(d, s).
     let d = d\<lparr>md_reader := ev\<rparr> in
     bind_result (id_bit (w_id ev)) (\<lambda>bit.
     Ok (d\<lparr>md_bitmap_readers := md_bitmap_readers d OR bit\<rparr>, s)))"

definition wb_writeback_modify_ack :: "u32 \<Rightarrow> writer_t \<Rightarrow> dfa_st \<Rightarrow> dfa_st result" where
  "wb_writeback_modify_ack addr ev = (\<lambda>(d, s).
     ASSERT_WRIT_MOD_ORDER addr (md_writer d) ev (\<lambda>(d, s).
     ASSERT_WRIT_READ_MOD_ORDER addr (md_writer d) (md_reader d) ev (\<lambda>(d, s).
       bind_result (id_bit (w_id ev)) (\<lambda>bit.
       Ok (d\<lparr>md_writer := zero_writer, md_modifier := ev, md_bitmap_readers := bit,
            md_state := STATE_MODIFY\<rparr>, s))) (d, s)) (d, s))"

definition wb_writeback_write_req :: "u32 \<Rightarrow> writer_t \<Rightarrow> dfa_st \<Rightarrow> dfa_st result" where
  "wb_writeback_write_req addr ev = (\<lambda>(d, s).
     ASSERT_WRIT_WRIT_ORDER addr (md_writer d) ev (\<lambda>(d, s).
       bind_result (id_bit (w_id ev)) (\<lambda>bit.
       if md_bitmap_readers d AND bit \<noteq> 0 then
         Ok (d\<lparr>md_writer := ev, md_reader := zero_writer, md_modifier := zero_writer,
              md_bitmap_readers := bit\<rparr>, s)
       else
         bind_result (PRINT_PROBLEM addr (Some (md_writer d)) None (Some ev) s) (\<lambda>s.
         Ok (d\<lparr>md_state := STATE_PROBLEM\<rparr>,
             print_out [M_error ''WRITEBACK->FLUSH'']
               (s\<lparr>o_problem := (o_problem s)\<lparr>p_write_flush := p_write_flush (o_problem s) + 1\<rparr>\<rparr>))))) (d, s))"

definition wb_writeback :: "u32 \<Rightarrow> writer_t \<Rightarrow> coherence_event_t \<Rightarrow> dfa_st \<Rightarrow> dfa_st result" where
  "wb_writeback addr ev event st = (case event of
     EVENT_READ_ACK \<Rightarrow> wb_writeback_read_ack addr ev st
   | EVENT_ALLOC_REQ \<Rightarrow> wb_writeback_read_req ev st
   | EVENT_READ_REQ \<Rightarrow> wb_writeback_read_req ev st
   | EVENT_MODIFY_ACK \<Rightarrow> wb_writeback_modify_ack addr ev st
   | EVENT_WRITE_REQ \<Rightarrow> wb_writeback_write_req addr ev st
   | _ \<Rightarrow> Ok (fst st, print_out [M_error ''Not supported event''] (snd st)))"

definition wb_step :: "u32 \<Rightarrow> writer_t \<Rightarrow> coherence_event_t \<Rightarrow> dfa_st \<Rightarrow> dfa_st result" where
  "wb_step addr ev event st =
     (let state = md_state (fst st) in
      if state = STATE_INIT then wb_init ev event st
      else if state = STATE_MODIFY then wb_modify addr ev event st
      else if state = STATE_WRITEBACK then wb_writeback addr ev event st
      else if state = STATE_PROBLEM then Ok st
      else Ok (fst st, print_out [M_error ''This state does not exist''] (snd st)))"

section \<open>The write-through automaton\<close>

text \<open>The first component of the result tells whether \<open>stats.false_positive\<close> of the cache
  is incremented.\<close>

definition wt_init :: "writer_t \<Rightarrow> coherence_event_t \<Rightarrow> dfa_st \<Rightarrow> (bool \<times> dfa_st) result" where
  "wt_init ev event = (\<lambda>(d, s). case event of
     EVENT_WRITE_REQ \<Rightarrow>
       bind_result (id_bit (w_id ev)) (\<lambda>bit.
       Ok (False, d\<lparr>md_state := STATE_ANALYSE, md_writer := ev, md_bitmap_readers := bit\<rparr>, s))
   | _ \<Rightarrow> Ok (False, d, s))"

definition wt_analyse :: "u32 \<Rightarrow> writer_t \<Rightarrow> coherence_event_t \<Rightarrow> dfa_st \<Rightarrow> (bool \<times> dfa_st) result" where
  "wt_analyse addr ev event = (\<lambda>(d, s). case event of
     EVENT_WRITE_REQ \<Rightarrow>
       if w_pos_order (md_writer d) > w_pos_order ev then Stop (Exit 1)
       else bind_result (id_bit (w_id ev)) (\<lambda>bit.
         Ok (False, d\<lparr>md_writer := ev, md_bitmap_readers := bit\<rparr>, s))
   | EVENT_READ_REQ \<Rightarrow>
       let s = (if w_pre_order (md_writer d) > w_pos_order ev then print_out [M_error ''wrong order''] s else s);
           s = (if w_pos_order (md_writer d) > w_pre_order ev then print_out [M_error ''erroneours reader''] s else s)
       in bind_result (id_bit (w_id ev)) (\<lambda>bit.
         Ok (False, d\<lparr>md_bitmap_readers := md_bitmap_readers d OR bit\<rparr>, s))
   | EVENT_READ_ACK \<Rightarrow>
       bind_result (id_bit (w_id ev)) (\<lambda>bit.
       if md_bitmap_readers d AND bit = 0 then
         if w_pos_order (md_writer d) > w_pre_order ev then
           Ok (True, d\<lparr>md_bad_addr := True, md_state := STATE_PROBLEM\<rparr>,
               print_out ([M_error ''Not possible to define''] @ PRINT_ADDR addr @ PRINT_WRITER (Some (md_writer d))
                 @ PRINT_READER (Some ev) @ PRINT_SRC_WRITER (Some (md_writer d)) @ PRINT_SRC_READER (Some ev)) s)
         else
           Ok (False, d\<lparr>md_state := STATE_PROBLEM, md_bad_addr := True\<rparr>,
               print_out (PRINT_ADDR addr @ PRINT_WRITER (Some (md_writer d)) @ PRINT_READER (Some ev)
                 @ PRINT_SRC_WRITER (Some (md_writer d)) @ PRINT_SRC_READER (Some ev)) s)
       else Ok (False, d, s))
   | _ \<Rightarrow> Ok (False, d, print_out [M_error ''Not yet''] s))"

definition wt_step :: "u32 \<Rightarrow> writer_t \<Rightarrow> coherence_event_t \<Rightarrow> dfa_st \<Rightarrow> (bool \<times> dfa_st) result" where
  "wt_step addr ev event st =
     (let state = md_state (fst st) in
      if md_bad_addr (fst st) then Ok (False, st)
      else if state = STATE_INIT then wt_init ev event st
      else if state = STATE_ANALYSE then wt_analyse addr ev event st
      else if state = STATE_PROBLEM then Ok (False, st)
      else Ok (False, fst st, print_out [M_error ''Not yet''] (snd st)))"

section \<open>Caches and the whole state\<close>

definition MAX_PENDING :: u32 where "MAX_PENDING = 10 * 1024 * 1024"

record pend_t =
  pe_addr :: u32
  pe_event :: writer_t

record cache_data_t =
  cd_g_order :: u64
  cd_n_pend_read :: u32
  cd_n_pend_mod :: u32
  cd_pend_read :: "nat \<Rightarrow> pend_t"
  cd_pend_mod :: "nat \<Rightarrow> pend_t"
  cd_max_n_pend_read :: u32
  cd_max_n_pend_mod :: u32
  cd_false_positive :: u32

datatype cache_type_t = ICACHE | DCACHE

record cache_t =
  ca_id :: u8
  ca_type :: cache_type_t
  ca_data :: cache_data_t

record 'j watson =
  ws_oracle :: oracle_t
  ws_caches :: "nat \<rightharpoonup> cache_t"
  ws_table :: "('j, w_mem_data_t) ht"

definition get_cache :: "nat \<Rightarrow> 'j watson \<Rightarrow> cache_t result" where
  "get_cache p s = (case ws_caches s p of None \<Rightarrow> Stop Undefined | Some c \<Rightarrow> Ok c)"

definition set_cache_data :: "nat \<Rightarrow> (cache_data_t \<Rightarrow> cache_data_t) \<Rightarrow> 'j watson \<Rightarrow> 'j watson result" where
  "set_cache_data p f s =
     bind_result (get_cache p s) (\<lambda>c. Ok (s\<lparr>ws_caches := (ws_caches s)(p \<mapsto> c\<lparr>ca_data := f (ca_data c)\<rparr>)\<rparr>))"

definition watson_dfa_writeback ::
  "u32 \<Rightarrow> nat \<Rightarrow> writer_t \<Rightarrow> coherence_event_t \<Rightarrow> 'j watson \<Rightarrow> 'j watson result" where
  "watson_dfa_writeback addr cache ev event s =
     (let (meta, h) = mem_get_addr addr (ws_table s) in
      bind_result (wb_step addr ev event (sa_meta meta, ws_oracle s)) (\<lambda>(d, oc).
      Ok (s\<lparr>ws_oracle := oc, ws_table := ht_modify addr (\<lambda>m. m\<lparr>sa_meta := d\<rparr>) h\<rparr>)))"

definition watson_dfa_writethrough ::
  "u32 \<Rightarrow> nat \<Rightarrow> writer_t \<Rightarrow> coherence_event_t \<Rightarrow> 'j watson \<Rightarrow> 'j watson result" where
  "watson_dfa_writethrough addr cache ev event s =
     (let (meta, h) = mem_get_addr addr (ws_table s) in
      bind_result (wt_step addr ev event (sa_meta meta, ws_oracle s)) (\<lambda>(fp, d, oc).
      let s' = s\<lparr>ws_oracle := oc, ws_table := ht_modify addr (\<lambda>m. m\<lparr>sa_meta := d\<rparr>) h\<rparr> in
      if fp then set_cache_data cache (\<lambda>c. c\<lparr>cd_false_positive := cd_false_positive c + 1\<rparr>) s'
      else Ok s'))"

definition dfa_coherence ::
  "u32 \<Rightarrow> nat \<Rightarrow> writer_t \<Rightarrow> coherence_event_t \<Rightarrow> 'j watson \<Rightarrow> 'j watson result" where
  "dfa_coherence addr cache ev event s = (case o_dfa_coherence (ws_oracle s) of
     Dfa_writethrough \<Rightarrow> watson_dfa_writethrough addr cache ev event s
   | Dfa_writeback \<Rightarrow> watson_dfa_writeback addr cache ev event s)"

section \<open>Pending reads\<close>

text \<open>Appending an address to a list of pending accesses, with the statistics.\<close>

definition push_pend_read :: "u32 \<Rightarrow> cache_data_t \<Rightarrow> cache_data_t" where
  "push_pend_read addr c =
     (let i = unat (cd_n_pend_read c);
          c = c\<lparr>cd_pend_read := (cd_pend_read c)(i := (cd_pend_read c i)\<lparr>pe_addr := addr\<rparr>),
                cd_n_pend_read := cd_n_pend_read c + 1\<rparr>
      in if cd_n_pend_read c > cd_max_n_pend_read c
         then c\<lparr>cd_max_n_pend_read := cd_n_pend_read c\<rparr> else c)"

definition push_pend_mod :: "u32 \<Rightarrow> cache_data_t \<Rightarrow> cache_data_t" where
  "push_pend_mod addr c =
     (let i = unat (cd_n_pend_mod c);
          c = c\<lparr>cd_pend_mod := (cd_pend_mod c)(i := (cd_pend_mod c i)\<lparr>pe_addr := addr\<rparr>),
                cd_n_pend_mod := cd_n_pend_mod c + 1\<rparr>
      in if cd_n_pend_mod c > cd_max_n_pend_mod c
         then c\<lparr>cd_max_n_pend_mod := cd_n_pend_mod c\<rparr> else c)"

text \<open>The functions return a pointer to the new slot, here its index.\<close>

definition watson_pending_read_ack :: "nat \<Rightarrow> u32 \<Rightarrow> 'j watson \<Rightarrow> (nat \<times> 'j watson) result" where
  "watson_pending_read_ack p addr s =
     bind_result (get_cache p s) (\<lambda>c.
     let n = cd_n_pend_read (ca_data c) in
     if n > MAX_PENDING then Stop (Exit 1)
     else if \<not> unat n < unat MAX_PENDING then Stop Undefined
     else bind_result (set_cache_data p (push_pend_read addr) s) (\<lambda>s. Ok (unat n, s)))"

definition watson_pending_mod_ack :: "nat \<Rightarrow> u32 \<Rightarrow> 'j watson \<Rightarrow> (nat \<times> 'j watson) result" where
  "watson_pending_mod_ack p addr s =
     bind_result (get_cache p s) (\<lambda>c.
     let n = cd_n_pend_mod (ca_data c) in
     if n > MAX_PENDING then Stop (Exit 1)
     else if \<not> unat n < unat MAX_PENDING then Stop Undefined
     else bind_result (set_cache_data p (push_pend_mod addr) s) (\<lambda>s. Ok (unat n, s)))"

text \<open>A store through the pointer to the reader of a slot.\<close>

definition upd_pend_read :: "nat \<Rightarrow> (writer_t \<Rightarrow> writer_t) \<Rightarrow> cache_data_t \<Rightarrow> cache_data_t" where
  "upd_pend_read i f c =
     c\<lparr>cd_pend_read := (cd_pend_read c)(i := (cd_pend_read c i)\<lparr>pe_event := f (pe_event (cd_pend_read c i))\<rparr>)\<rparr>"

text \<open>The loop over the pending reads. An automaton does not change the list, but the loop reads
  it from the state as the code does.\<close>

fun g_order_loop :: "nat \<Rightarrow> u64 \<Rightarrow> nat list \<Rightarrow> 'j watson \<Rightarrow> 'j watson result" where
  "g_order_loop p order [] s = Ok s"
| "g_order_loop p order (i # is) s =
     (if \<not> i < unat MAX_PENDING then Stop Undefined
      else bind_result (set_cache_data p (upd_pend_read i (\<lambda>r. r\<lparr>w_pos_order := order\<rparr>)) s) (\<lambda>s.
      bind_result (get_cache p s) (\<lambda>c.
      bind_result (dfa_coherence (pe_addr (cd_pend_read (ca_data c) i)) p (pe_event (cd_pend_read (ca_data c) i))
          EVENT_READ_ACK s)
        (g_order_loop p order is))))"

definition watson_cache_g_order :: "nat \<Rightarrow> u64 \<Rightarrow> 'j watson \<Rightarrow> 'j watson result" where
  "watson_cache_g_order p order s =
     bind_result (get_cache p s) (\<lambda>c.
     bind_result (set_cache_data p (\<lambda>c. c\<lparr>cd_g_order := order\<rparr>) s) (\<lambda>s.
     bind_result (g_order_loop p order [0..<unat (cd_n_pend_read (ca_data c))] s)
       (set_cache_data p (\<lambda>c. c\<lparr>cd_n_pend_read := 0\<rparr>))))"

section \<open>Events\<close>

text \<open>An event with the event it refers to. The fields of the union \<open>hwe_cont\<close> that the plugin
  reads exist in events of these kinds; the access, width and address of an acknowledgement lie
  where a request has them.\<close>

record event_r =
  ev_hwe :: hwe_cont
  ev_ref :: hwe_cont

definition inst_body :: "hwe_cont \<Rightarrow> hwe_inst32_t result" where
  "inst_body c = (case hc_body c of B_inst i \<Rightarrow> Ok (ic_body i) | _ \<Rightarrow> Stop Undefined)"

definition mem_width :: "hwe_cont \<Rightarrow> u8 result" where
  "mem_width c = (case hc_body c of B_mem m \<Rightarrow> Ok (mm_width (mc_body m)) | B_ack a \<Rightarrow> Ok (ak_width a)
     | _ \<Rightarrow> Stop Undefined)"

definition mem_cpureq :: "hwe_cont \<Rightarrow> (u32 \<times> u8) result" where
  "mem_cpureq c = (case hc_body c of B_mem m \<Rightarrow> Ok (mm_cpureq_addr (mc_body m), mm_cpureq_width (mc_body m))
     | _ \<Rightarrow> Stop Undefined)"

definition comp_g_order :: "u8 \<Rightarrow> 'j watson \<Rightarrow> u64 result" where
  "comp_g_order devid s =
     bind_result (arr_get (o_comp (ws_oracle s)) (unat devid)) (\<lambda>q.
     case q of None \<Rightarrow> Stop Undefined
     | Some p \<Rightarrow> bind_result (get_cache p s) (\<lambda>c. Ok (cd_g_order (ca_data c))))"

text \<open>\<open>watson_event_to_reader\<close> and \<open>watson_event_to_writer\<close> fill a structure; \<open>cpu_id\<close>
  keeps what was there, since \<open>SMALL_MEMORY\<close> is defined.\<close>

definition watson_event_to_reader :: "event_r \<Rightarrow> writer_t \<Rightarrow> 'j watson \<Rightarrow> writer_t result" where
  "watson_event_to_reader e old s =
     bind_result (inst_body (ev_ref e)) (\<lambda>i.
     bind_result (comp_g_order (id_devid (hc_id (ev_hwe e))) s) (\<lambda>g.
     Ok (old\<lparr>w_id := id_devid (hc_id (ev_hwe e)), w_pc := in_pc i, w_pre_order := g, w_pos_order := 0\<rparr>)))"

definition watson_event_to_writer :: "event_r \<Rightarrow> writer_t \<Rightarrow> 'j watson \<Rightarrow> writer_t result" where
  "watson_event_to_writer e old s =
     bind_result (inst_body (ev_ref e)) (\<lambda>i.
     bind_result (comp_g_order (id_devid (hc_id (ev_hwe e))) s) (\<lambda>g.
     Ok (old\<lparr>w_id := id_devid (hc_id (ev_hwe e)), w_pc := in_pc i, w_pre_order := g, w_pos_order := 0\<rparr>)))"

datatype event_data_type_t =
    EVENT_NOOP | EVENT_INST | EVENT_READ | EVENT_WRITE | EVENT_MERGE | EVENT_FILL
  | EVENT_DEVICE_FILL | EVENT_INVAL | EVENT_ACK_READ | EVENT_ACK_WRITE | EVENT_ACK_MODIFY

definition exec_ack_read :: "nat \<Rightarrow> u32 \<Rightarrow> event_r \<Rightarrow> nat \<Rightarrow> 'j watson \<Rightarrow> 'j watson result" where
  "exec_ack_read p addr e i s =
     bind_result (watson_pending_read_ack p (addr + word_of_nat i) s) (\<lambda>(k, s).
     bind_result (get_cache p s) (\<lambda>c.
     bind_result (watson_event_to_reader e (pe_event (cd_pend_read (ca_data c) k)) s) (\<lambda>r.
     set_cache_data p (upd_pend_read k (\<lambda>_. r)) s)))"

definition exec_read :: "nat \<Rightarrow> u32 \<Rightarrow> event_r \<Rightarrow> bool \<Rightarrow> writer_t \<Rightarrow> nat \<Rightarrow> 'j watson \<Rightarrow> 'j watson result" where
  "exec_read p addr e alloc reader i s =
     (let a = addr + word_of_nat i in
      if \<not> alloc then
        bind_result (mem_cpureq (ev_hwe e)) (\<lambda>(ca, cw).
        if a < ca \<or> a > ca + ucast cw then dfa_coherence a p reader EVENT_ALLOC_REQ s
        else dfa_coherence a p reader EVENT_READ_REQ s)
      else dfa_coherence a p reader EVENT_ALLOC_REQ s)"

text \<open>\<open>junk\<close> is the uninitialised local structure.\<close>

definition watson_pg_exec_cache ::
  "writer_t \<Rightarrow> nat \<Rightarrow> event_data_type_t \<Rightarrow> u32 \<Rightarrow> event_r \<Rightarrow> 'j watson \<Rightarrow> 'j watson result" where
  "watson_pg_exec_cache junk cache ty addr e s =
     bind_result (mem_width (ev_hwe e)) (\<lambda>w.
     let size = unat w + 1 in
     case ty of
       EVENT_ACK_READ \<Rightarrow> fold_result (exec_ack_read cache addr e) [0..<size] s
     | EVENT_ACK_MODIFY \<Rightarrow>
         bind_result (watson_event_to_writer e junk s) (\<lambda>m.
         let m = m\<lparr>w_pos_order := w_pre_order m\<rparr> in
         fold_result (\<lambda>i. dfa_coherence (addr + word_of_nat i) cache m EVENT_MODIFY_ACK) [0..<size] s)
     | EVENT_READ \<Rightarrow>
         bind_result (watson_event_to_reader e junk s) (\<lambda>r.
         let r = r\<lparr>w_pos_order := w_pre_order r\<rparr> in
         bind_result (inst_body (ev_ref e)) (\<lambda>i.
         fold_result (exec_read cache addr e (in_str i \<noteq> 0) r) [0..<size] s))
     | EVENT_WRITE \<Rightarrow>
         bind_result (watson_event_to_writer e junk s) (\<lambda>w.
         let w = w\<lparr>w_pos_order := w_pre_order w\<rparr> in
         fold_result (\<lambda>i. dfa_coherence (addr + word_of_nat i) cache w EVENT_WRITE_REQ) [0..<size] s)
     | EVENT_NOOP \<Rightarrow> Ok s
     | _ \<Rightarrow> Ok (s\<lparr>ws_oracle := print_out [M_error ''Event not valid''] (ws_oracle s)\<rparr>))"

text \<open>A pointer to a component, with the byte that \<open>common_comp_t\<close> takes for its identifier: in a
  \<open>mem_t\<close>, which starts with a 32-bit identifier, it is the second byte of this.\<close>

datatype comp_ptr = CP_null | CP_cpu u8 | CP_cache nat | CP_mem mem_t

definition common_id :: "'j watson \<Rightarrow> comp_ptr \<Rightarrow> u8 result" where
  "common_id s c = (case c of CP_null \<Rightarrow> Stop Undefined | CP_cpu i \<Rightarrow> Ok i
     | CP_cache p \<Rightarrow> bind_result (get_cache p s) (\<lambda>c. Ok (ca_id c))
     | CP_mem m \<Rightarrow> Ok (ucast (drop_bit 8 (m_id m))))"

definition watson_pg_exec_mem :: "hwe_cont \<Rightarrow> comp_ptr \<Rightarrow> 'j watson \<Rightarrow> (int \<times> 'j watson) result" where
  "watson_pg_exec_mem hwe cd_ref s =
     (if cd_ref = CP_null
      then Ok (- 1, s\<lparr>ws_oracle := print_out [M_error ''No REF''] (ws_oracle s)\<rparr>)
      else
        let oc = ws_oracle s;
            oc = (if id_index (hc_id hwe) > o_sys_order oc then oc\<lparr>o_sys_order := id_index (hc_id hwe)\<rparr>
                  else print_out [M_error ''not well ordered''] oc);
            s = s\<lparr>ws_oracle := oc\<rparr>
        in bind_result (common_id s cd_ref) (\<lambda>i.
           bind_result (arr_get (o_comp (ws_oracle s)) (unat i)) (\<lambda>q.
           case q of None \<Rightarrow> Stop Undefined
           | Some p \<Rightarrow> bind_result (watson_cache_g_order p (o_sys_order (ws_oracle s)) s) (\<lambda>s. Ok (0, s)))))"

section \<open>Configuration\<close>

text \<open>\<open>cache_create\<close> of \<open>core_cache.c\<close>, which callocs the cache.\<close>

definition zero_pend :: pend_t where
  "zero_pend = \<lparr>pe_addr = 0, pe_event = zero_writer\<rparr>"

definition zero_cache_data :: cache_data_t where
  "zero_cache_data = \<lparr>cd_g_order = 0, cd_n_pend_read = 0, cd_n_pend_mod = 0, cd_pend_read = (\<lambda>_. zero_pend),
     cd_pend_mod = (\<lambda>_. zero_pend), cd_max_n_pend_read = 0, cd_max_n_pend_mod = 0, cd_false_positive = 0\<rparr>"

definition cache_create :: "u8 \<Rightarrow> bytes \<Rightarrow> cache_t" where
  "cache_create devid name = \<lparr>ca_id = devid,
     ca_type = (if name \<noteq> [] \<and> hd name = 0x49 then ICACHE else DCACHE), ca_data = zero_cache_data\<rparr>"

datatype w_comp_type_t = W_COMP_CPU | W_COMP_CACHE | W_COMP_MEM | W_COMP_PERIPH

definition watson_pg_comp :: "comp_ptr \<Rightarrow> w_comp_type_t \<Rightarrow> 'j watson \<Rightarrow> (int \<times> 'j watson) result" where
  "watson_pg_comp cp ty s =
     (let oc = ws_oracle s; n = unat (o_n_comp oc) in
      if cp = CP_null then
        Ok (1, s\<lparr>ws_oracle := (print_out [M_error ''WATSON: null component initialized''] oc)
                  \<lparr>o_n_comp := o_n_comp oc + 1\<rparr>\<rparr>)
      else
        bind_result (common_id s cp) (\<lambda>i.
        if o_n_comp oc \<noteq> i then Stop (Exit 1)
        else case ty of
          W_COMP_CACHE \<Rightarrow>
            (case cp of CP_cache p \<Rightarrow>
               bind_result (set_cache_data p (\<lambda>c. c\<lparr>cd_g_order := 0, cd_n_pend_read := 0, cd_n_pend_mod := 0,
                 cd_max_n_pend_mod := 0, cd_max_n_pend_read := 0, cd_false_positive := 0\<rparr>) s) (\<lambda>s.
               bind_result (arr_set (o_comp oc) n (Some p)) (\<lambda>cs.
               Ok (0, s\<lparr>ws_oracle := oc\<lparr>o_comp := cs, o_n_comp := o_n_comp oc + 1\<rparr>\<rparr>)))
             | _ \<Rightarrow> Stop Undefined)
        | _ \<Rightarrow>
            bind_result (arr_set (o_comp oc) n None) (\<lambda>cs.
            Ok (0, s\<lparr>ws_oracle := oc\<lparr>o_comp := cs, o_n_comp := o_n_comp oc + 1\<rparr>\<rparr>))))"

text \<open>The part of \<open>watson_pg_init\<close> that follows the command line and the debug information. The
  static oracle is zero before.\<close>

definition zero_problem :: problem_t where
  "zero_problem = \<lparr>p_total = 0, p_mod_read_ack = 0, p_mod_read_req = 0, p_write_read_ack = 0, p_write_flush = 0\<rparr>"

definition zero_warning :: warning_t where
  "zero_warning = \<lparr>wn_total = 0, wn_mod_read_alloc = 0, wn_mod_write = 0\<rparr>"

definition zero_oracle :: oracle_t where
  "zero_oracle = \<lparr>o_sys_order = 0, o_n_comp = 0, o_write_policy = 0, o_problem = zero_problem,
     o_warning = zero_warning, o_undefined_total = 0, o_dfa_coherence = Dfa_writethrough,
     o_comp = replicate 256 None, o_out = []\<rparr>"

definition watson_pg_init :: "'j watson \<Rightarrow> 'j watson" where
  "watson_pg_init s = s\<lparr>ws_oracle := (ws_oracle s)\<lparr>o_write_policy := WRITEBACK, o_dfa_coherence := Dfa_writeback,
     o_n_comp := 0, o_sys_order := 0, o_problem := zero_problem, o_warning := zero_warning,
     o_undefined_total := 0\<rparr>\<rparr>"

text \<open>The loop of \<open>watson_pg_exit\<close>. Its index is an \<open>int\<close>, \<open>n\<close> bounds the number of
  iterations before the index overflows.\<close>

fun exit_loop :: "nat \<Rightarrow> nat \<Rightarrow> 'j watson \<Rightarrow> 'j watson result" where
  "exit_loop 0 i s = Stop Undefined"
| "exit_loop (Suc n) i s =
     (if i > unat (o_n_comp (ws_oracle s)) then
        bind_result (arr_get (o_comp (ws_oracle s)) i) (\<lambda>q.
        case q of None \<Rightarrow> exit_loop n (i + 1) s
        | Some p \<Rightarrow>
            let order = o_sys_order (ws_oracle s) + 1 in
            bind_result (watson_cache_g_order p order (s\<lparr>ws_oracle := (ws_oracle s)\<lparr>o_sys_order := order\<rparr>\<rparr>))
              (exit_loop n (i + 1)))
      else Ok s)"

definition watson_pg_exit :: "'j watson \<Rightarrow> 'j watson result" where
  "watson_pg_exit s = exit_loop (2 ^ 31) 0 s"

end
