(* ===== verification/Watson_Reports.thy ===== *)
theory Watson_Reports
  imports Watson
begin

text \<open>
  What the write-back checker of \<open>Watson\<close> reports: the counters agree with the states of the
  addresses in every reachable state, the automaton of an address refines a coherence protocol
  over sets of caches, and stale reads are reported exactly when they should be.
\<close>

section \<open>One step\<close>

lemmas wb_defs = wb_step_def wb_init_def wb_modify_def wb_writeback_def wb_modify_read_ack_def
  wb_modify_read_req_def wb_modify_alloc_req_def wb_modify_modify_ack_def wb_modify_write_req_def
  wb_writeback_read_ack_def wb_writeback_read_req_def wb_writeback_modify_ack_def
  wb_writeback_write_req_def

lemma id_bit_Ok [simp]: "id_bit i = Inr b \<longleftrightarrow> unat i < 31 \<and> b = push_bit (unat i) 1"
  by (auto simp: id_bit_def)

lemma PRINT_PROBLEM_Ok:
  "PRINT_PROBLEM a w m r s = Inr s' \<longleftrightarrow> p_total (o_problem s) + 1 \<le> MAX_ERRORS \<and>
     s' = print_out (PRINT_ADDR a @ PRINT_WRITER w @ PRINT_MODIFIER m @ PRINT_READER r
            @ PRINT_SRC_WRITER w @ PRINT_SRC_MODIFIER m @ PRINT_SRC_READER r)
          (s\<lparr>o_problem := (o_problem s)\<lparr>p_total := p_total (o_problem s) + 1\<rparr>\<rparr>)"
  by (auto simp: PRINT_PROBLEM_def print_out_def Let_def)

lemma print_out_frame [simp]:
  "o_problem (print_out ms s) = o_problem s" "o_warning (print_out ms s) = o_warning s"
  "o_undefined_total (print_out ms s) = o_undefined_total s"
  "o_dfa_coherence (print_out ms s) = o_dfa_coherence s" "o_comp (print_out ms s) = o_comp s"
  "o_sys_order (print_out ms s) = o_sys_order s" "o_n_comp (print_out ms s) = o_n_comp s"
  by (simp_all add: print_out_def)

text \<open>The sums that the counters should have.\<close>

definition problem_sum :: "problem_t \<Rightarrow> u32" where
  "problem_sum p = p_mod_read_ack p + p_mod_read_req p + p_write_read_ack p + p_write_flush p"

definition warning_sum :: "warning_t \<Rightarrow> u32" where
  "warning_sum w = wn_mod_read_alloc w + wn_mod_write w"

definition reported :: "oracle_t \<Rightarrow> u32" where
  "reported s = p_total (o_problem s) + o_undefined_total s"

definition wb_states :: "u8 set" where
  "wb_states = {STATE_INIT, STATE_MODIFY, STATE_WRITEBACK, STATE_PROBLEM}"

definition bool_word :: "bool \<Rightarrow> u32" where
  "bool_word b = (if b then 1 else 0)"

lemma wb_step_counts:
  assumes "wb_step a ev e (d, s) = Ok (d', s')"
  shows "reported s' = reported s + bool_word (md_state d \<noteq> STATE_PROBLEM \<and> md_state d' = STATE_PROBLEM)"
    and "wn_total (o_warning s') = wn_total (o_warning s) + bool_word (\<not> md_warn_addr d \<and> md_warn_addr d')"
    and "md_state d = STATE_PROBLEM \<Longrightarrow> d' = d \<and> s' = s"
    and "md_warn_addr d \<Longrightarrow> md_warn_addr d'"
    and "md_state d \<in> wb_states \<Longrightarrow> md_state d' \<in> wb_states"
    and "p_total (o_problem s') - problem_sum (o_problem s') = p_total (o_problem s) - problem_sum (o_problem s)"
    and "wn_total (o_warning s') - warning_sum (o_warning s') = wn_total (o_warning s) - warning_sum (o_warning s)"
    and "p_total (o_problem s) \<le> MAX_ERRORS \<Longrightarrow> p_total (o_problem s') \<le> MAX_ERRORS"
    and "o_dfa_coherence s' = o_dfa_coherence s" "o_comp s' = o_comp s" "o_sys_order s' = o_sys_order s"
      "o_n_comp s' = o_n_comp s"
  using assms
  by (auto simp: wb_defs assert_defs undefined_order_def PRINT_PROBLEM_Ok Let_def reported_def bool_word_def
      problem_sum_def warning_sum_def wb_states_def
      split: if_splits coherence_event_t.splits)

section \<open>The automaton on the table\<close>

definition meta :: "'j watson \<Rightarrow> u32 \<Rightarrow> w_mem_data_t" where
  "meta s a = sa_meta (ht_abs (ws_table s) a)"

lemma meta_frame [simp]: "meta (s\<lparr>ws_caches := cs\<rparr>) = meta s" "meta (s\<lparr>ws_oracle := oc\<rparr>) = meta s"
  by (simp_all add: meta_def fun_eq_iff)

lemma dfa_writeback_spec:
  assumes "ht_wf (ws_table s)" "watson_dfa_writeback addr c ev e s = Ok s'"
  obtains d oc where "wb_step addr ev e (meta s addr, ws_oracle s) = Ok (d, oc)"
    "ht_wf (ws_table s')" "meta s' = (meta s)(addr := d)"
    "ws_caches s' = ws_caches s" "ws_oracle s' = oc"
proof -
  obtain m h where r: "mem_get_addr addr (ws_table s) = (m, h)" by fastforce
  note spec = ht_read_spec [OF assms(1) r [unfolded mem_get_addr_def]]
  show ?thesis
    using assms(2) r spec
    by (auto simp: watson_dfa_writeback_def hash_table.inv_poke hash_table.peek_poke meta_def fun_eq_iff
        intro!: that)
qed

lemma set_cache_data_Ok:
  "set_cache_data p f s = Inr s' \<longleftrightarrow> (\<exists>c. ws_caches s p = Some c \<and>
     s' = s\<lparr>ws_caches := (ws_caches s)(p \<mapsto> c\<lparr>ca_data := f (ca_data c)\<rparr>)\<rparr>)"
  by (auto simp: set_cache_data_def get_cache_def split: option.splits)

lemma get_cache_Ok: "get_cache p s = Inr c \<longleftrightarrow> ws_caches s p = Some c"
  by (auto simp: get_cache_def split: option.splits)

text \<open>A property of the checker that the automaton keeps, and that depends neither on the caches
  nor on the global order and the output, is kept by every operation.\<close>

locale watson_invariant =
  fixes P :: "'j watson \<Rightarrow> bool"
  assumes P_dfa: "P s \<Longrightarrow> dfa_coherence a c ev e s = Ok s' \<Longrightarrow> P s'"
    and P_caches: "P s \<Longrightarrow> P (s\<lparr>ws_caches := cs\<rparr>)"
    and P_print: "P s \<Longrightarrow> P (s\<lparr>ws_oracle := print_out ms (ws_oracle s)\<rparr>)"
    and P_order: "P s \<Longrightarrow> P (s\<lparr>ws_oracle := (ws_oracle s)\<lparr>o_sys_order := n\<rparr>\<rparr>)"
    and P_comp: "P s \<Longrightarrow> P (s\<lparr>ws_oracle := (ws_oracle s)\<lparr>o_comp := cs', o_n_comp := k\<rparr>\<rparr>)"
    and P_n_comp: "P s \<Longrightarrow> P (s\<lparr>ws_oracle := (ws_oracle s)\<lparr>o_n_comp := k\<rparr>\<rparr>)"
begin

lemma P_set_cache_data: "P s \<Longrightarrow> set_cache_data p f s = Ok s' \<Longrightarrow> P s'"
  by (auto simp: set_cache_data_Ok P_caches)

lemma P_g_order_loop: "P s \<Longrightarrow> g_order_loop p order is s = Ok s' \<Longrightarrow> P s'"
proof (induction "is" arbitrary: s)
  case Nil
  then show ?case by simp
next
  case (Cons i "is")
  then show ?case
    by (auto simp: Let_def split: if_splits intro: P_dfa dest: P_set_cache_data)
qed

lemma P_cache_g_order: "P s \<Longrightarrow> watson_cache_g_order p order s = Ok s' \<Longrightarrow> P s'"
  by (simp add: watson_cache_g_order_def) (meson P_set_cache_data P_g_order_loop)

lemma P_exec_mem:
  assumes "P s" "watson_pg_exec_mem hwe cd s = Ok (r, s')"
  shows "P s'"
proof -
  define s1 where "s1 = s\<lparr>ws_oracle := if o_sys_order (ws_oracle s) < id_index (hc_id hwe)
    then (ws_oracle s)\<lparr>o_sys_order := id_index (hc_id hwe)\<rparr>
    else print_out [M_error ''not well ordered''] (ws_oracle s)\<rparr>"
  have "P s1" using assms(1) by (simp add: s1_def P_print P_order)
  then show ?thesis
    using assms P_cache_g_order [of s1] unfolding watson_pg_exec_mem_def Let_def s1_def [symmetric]
    by (auto simp: P_print split: if_splits option.splits)
qed

lemma P_pending_read_ack: "P s \<Longrightarrow> watson_pending_read_ack p a s = Ok (k, s') \<Longrightarrow> P s'"
  using P_set_cache_data [of s p "push_pend_read a" s']
  by (auto simp: watson_pending_read_ack_def Let_def split: if_split_asm)

lemma P_exec_ack_read:
  assumes "P s" "exec_ack_read p addr e i s = Ok s'"
  shows "P s'"
proof -
  obtain k s1 r where "watson_pending_read_ack p (addr + word_of_nat i) s = Ok (k, s1)"
    "set_cache_data p (upd_pend_read k (\<lambda>_. r)) s1 = Ok s'"
    using assms(2) by (auto simp: exec_ack_read_def)
  then show ?thesis using P_pending_read_ack P_set_cache_data assms(1) by blast
qed

lemma P_exec_read: "P s \<Longrightarrow> exec_read p addr e al r i s = Ok s' \<Longrightarrow> P s'"
  by (auto simp: exec_read_def Let_def split: if_splits intro: P_dfa)

lemma P_fold:
  "(\<And>i s s'. P s \<Longrightarrow> f i s = Ok s' \<Longrightarrow> P s') \<Longrightarrow> P s \<Longrightarrow> fold_result f is s = Ok s' \<Longrightarrow> P s'"
  by (rule fold_result_invariant [where P = P]) auto

lemma P_loops:
  "P s \<Longrightarrow> fold_result (exec_ack_read p addr e) is s = Ok s' \<Longrightarrow> P s'"
  "P s \<Longrightarrow> fold_result (exec_read p addr e b r) is s = Ok s' \<Longrightarrow> P s'"
  "P s \<Longrightarrow> fold_result (\<lambda>i. dfa_coherence (addr + word_of_nat i) p m t) is s = Ok s' \<Longrightarrow> P s'"
  by (rule P_fold, erule (1) P_exec_ack_read P_exec_read P_dfa; assumption)+

lemma P_exec_cache:
  assumes "P s" "watson_pg_exec_cache junk p ty addr e s = Ok s'"
  shows "P s'"
  using assms P_loops [OF assms(1)] P_print [OF assms(1)]
  by (cases ty) (auto simp: watson_pg_exec_cache_def Let_def simp del: upt_Suc)

lemma P_pg_comp: "P s \<Longrightarrow> watson_pg_comp cp ty s = Ok (r, s') \<Longrightarrow> P s'"
  using P_comp P_comp [OF P_caches] P_n_comp [OF P_print]
  by (auto simp: watson_pg_comp_def Let_def set_cache_data_Ok split: if_splits w_comp_type_t.splits comp_ptr.splits)

end

section \<open>The counters\<close>

definition report_inv :: "'j watson \<Rightarrow> bool" where
  "report_inv s \<longleftrightarrow> ht_wf (ws_table s) \<and> o_dfa_coherence (ws_oracle s) = Dfa_writeback
     \<and> (\<forall>a. md_state (meta s a) \<in> wb_states)
     \<and> word_of_nat (card {a. md_state (meta s a) = STATE_PROBLEM}) = reported (ws_oracle s)
     \<and> word_of_nat (card {a. md_warn_addr (meta s a)}) = wn_total (o_warning (ws_oracle s))
     \<and> p_total (o_problem (ws_oracle s)) = problem_sum (o_problem (ws_oracle s))
     \<and> wn_total (o_warning (ws_oracle s)) = warning_sum (o_warning (ws_oracle s))
     \<and> p_total (o_problem (ws_oracle s)) \<le> MAX_ERRORS"

lemma card_upd:
  assumes "Q (f x) \<longrightarrow> Q d"
  shows "(word_of_nat (card {a :: u32. Q ((f(x := d)) a)}) :: u32) =
    word_of_nat (card {a. Q (f a)}) + bool_word (\<not> Q (f x) \<and> Q d)"
proof (cases "\<not> Q (f x) \<and> Q d")
  case True
  then have "{a. Q ((f(x := d)) a)} = insert x {a. Q (f a)}" by auto
  then show ?thesis using True by (simp add: bool_word_def)
next
  case False
  then have "{a. Q ((f(x := d)) a)} = {a. Q (f a)}" using assms by auto
  then show ?thesis using False by (simp add: bool_word_def)
qed

lemma report_inv_dfa:
  assumes inv: "report_inv s" and step: "dfa_coherence a c ev e s = Ok s'"
  shows "report_inv s'"
proof -
  have wb: "watson_dfa_writeback a c ev e s = Ok s'" "ht_wf (ws_table s)"
    using inv step by (simp_all add: report_inv_def dfa_coherence_def)
  from dfa_writeback_spec [OF wb(2,1)] obtain d oc where
    w: "wb_step a ev e (meta s a, ws_oracle s) = Ok (d, oc)" and s':
    "ht_wf (ws_table s')" "meta s' = (meta s)(a := d)" "ws_oracle s' = oc" by metis
  note cnt = wb_step_counts [OF w]
  have prob: "word_of_nat (card {x. md_state (meta s' x) = STATE_PROBLEM}) = reported oc"
    using inv cnt(1,3) card_upd [of "\<lambda>d. md_state d = STATE_PROBLEM" "meta s" a d]
    unfolding report_inv_def s' by auto
  have warn: "word_of_nat (card {x. md_warn_addr (meta s' x)}) = wn_total (o_warning oc)"
    using inv cnt(2,4) card_upd [of md_warn_addr "meta s" a d]
    unfolding report_inv_def s' by auto
  have sums: "p_total (o_problem oc) - problem_sum (o_problem oc) = 0"
    "wn_total (o_warning oc) - warning_sum (o_warning oc) = 0"
    using inv cnt(6,7) by (auto simp: report_inv_def)
  have states: "\<forall>x. md_state (meta s' x) \<in> wb_states"
    using inv cnt(5) unfolding s' report_inv_def by simp
  have "p_total (o_problem oc) \<le> MAX_ERRORS"
    using inv cnt(8) unfolding report_inv_def by blast
  then show ?thesis
    using inv cnt(9) prob warn sums states s' unfolding report_inv_def by simp
qed

interpretation reports: watson_invariant report_inv
proof
  fix s :: "'j watson" and a c ev e s'
  show "report_inv s \<Longrightarrow> dfa_coherence a c ev e s = Ok s' \<Longrightarrow> report_inv s'" by (rule report_inv_dfa)
qed (auto simp: report_inv_def reported_def)

inductive watson_reach :: "'j judy \<Rightarrow> 'j watson \<Rightarrow> bool" for J where
  reach_init: "watson_reach J (watson_pg_init
    \<lparr>ws_oracle = zero_oracle, ws_caches = Map.empty, ws_table = ht_init J zero_mem_data\<rparr>)"
| reach_create: "watson_reach J s \<Longrightarrow> ws_caches s p = None \<Longrightarrow>
    watson_reach J (s\<lparr>ws_caches := (ws_caches s)(p \<mapsto> cache_create devid name)\<rparr>)"
| reach_comp: "watson_reach J s \<Longrightarrow> watson_pg_comp cp ty s = Ok (r, s') \<Longrightarrow> watson_reach J s'"
| reach_cache: "watson_reach J s \<Longrightarrow> watson_pg_exec_cache junk p ty' addr e s = Ok s' \<Longrightarrow> watson_reach J s'"
| reach_mem: "watson_reach J s \<Longrightarrow> watson_pg_exec_mem hwe cd s = Ok (r, s') \<Longrightarrow> watson_reach J s'"

lemma reach_report_inv: "watson_reach J s \<Longrightarrow> judy_ok J \<Longrightarrow> report_inv s"
proof (induction rule: watson_reach.induct)
  case reach_init
  then show ?case
    by (simp add: report_inv_def watson_pg_init_def ht_init_wf ht_init_abs zero_addr_def zero_mem_data_def
        wb_states_def reported_def zero_problem_def zero_warning_def problem_sum_def warning_sum_def meta_def)
qed (blast intro: reports.P_caches reports.P_pg_comp reports.P_exec_cache reports.P_exec_mem)+

text \<open>C13: In every reachable state of the checker the number of addresses whose automaton is in the
  problem state is the number of problems and undefined orders counted, so no address is reported
  twice. Likewise for the warnings. The totals are the sums of the counters by kind, and the
  number of problems stays below the limit.\<close>

theorem counters_agree:
  assumes "watson_reach J s" "judy_ok J"
  shows "word_of_nat (card {a. md_state (meta s a) = STATE_PROBLEM})
      = p_total (o_problem (ws_oracle s)) + o_undefined_total (ws_oracle s)
    \<and> word_of_nat (card {a. md_warn_addr (meta s a)}) = wn_total (o_warning (ws_oracle s))
    \<and> p_total (o_problem (ws_oracle s)) = problem_sum (o_problem (ws_oracle s))
    \<and> wn_total (o_warning (ws_oracle s)) = warning_sum (o_warning (ws_oracle s))
    \<and> p_total (o_problem (ws_oracle s)) \<le> MAX_ERRORS"
  using reach_report_inv [OF assms] unfolding report_inv_def reported_def by blast


section \<open>Pending reads\<close>

definition pend_ok :: "u64 \<Rightarrow> cache_data_t \<Rightarrow> bool" where
  "pend_ok so c \<longleftrightarrow> cd_n_pend_read c \<le> MAX_PENDING \<and> cd_g_order c \<le> so
     \<and> (\<forall>i < unat (cd_n_pend_read c). w_pre_order (pe_event (cd_pend_read c i)) \<le> so)"

definition order_inv :: "'j watson \<Rightarrow> bool" where
  "order_inv s \<longleftrightarrow> report_inv s \<and> (\<forall>p c. ws_caches s p = Some c \<longrightarrow> pend_ok (o_sys_order (ws_oracle s)) (ca_data c))"

lemma order_inv_dfa:
  assumes "order_inv s" "dfa_coherence a c ev e s = Ok s'"
  shows "order_inv s' \<and> ws_caches s' = ws_caches s \<and> o_sys_order (ws_oracle s') = o_sys_order (ws_oracle s)"
proof -
  have inv: "report_inv s" using assms(1) by (simp add: order_inv_def)
  have wb: "watson_dfa_writeback a c ev e s = Ok s'" "ht_wf (ws_table s)"
    using inv assms(2) by (simp_all add: report_inv_def dfa_coherence_def)
  from dfa_writeback_spec [OF wb(2,1)] obtain d oc where
    w: "wb_step a ev e (meta s a, ws_oracle s) = Ok (d, oc)" and s':
    "ws_caches s' = ws_caches s" "ws_oracle s' = oc" by metis
  then show ?thesis
    using assms(1) report_inv_dfa [OF inv assms(2)] wb_step_counts(11) [OF w] by (simp add: order_inv_def)
qed

lemma order_inv_cache:
  assumes "order_inv s" "set_cache_data p f s = Ok s'"
    and "\<And>c. pend_ok (o_sys_order (ws_oracle s)) c \<Longrightarrow> pend_ok (o_sys_order (ws_oracle s)) (f c)"
  shows "order_inv s'"
  using assms by (auto simp: order_inv_def set_cache_data_Ok reports.P_caches split: if_split_asm)

lemma order_inv_loop:
  "order_inv s \<Longrightarrow> g_order_loop p order is s = Ok s' \<Longrightarrow>
     order_inv s' \<and> o_sys_order (ws_oracle s') = o_sys_order (ws_oracle s)"
proof (induction "is" arbitrary: s)
  case Nil
  then show ?case by simp
next
  case (Cons i "is")
  then obtain s1 s2 and c :: cache_t where s1: "set_cache_data p (upd_pend_read i (\<lambda>r. r\<lparr>w_pos_order := order\<rparr>)) s = Ok s1"
    and s2: "dfa_coherence (pe_addr (cd_pend_read (ca_data c) i)) p (pe_event (cd_pend_read (ca_data c) i))
      EVENT_READ_ACK s1 = Ok s2" "g_order_loop p order is s2 = Ok s'"
    by (simp split: if_split_asm) blast
  have "order_inv s1"
    by (rule order_inv_cache [OF Cons.prems(1) s1]) (simp add: pend_ok_def upd_pend_read_def)
  moreover have "o_sys_order (ws_oracle s1) = o_sys_order (ws_oracle s)"
    using s1 by (auto simp: set_cache_data_Ok)
  ultimately show ?case
    using order_inv_dfa [OF _ s2(1)] Cons.IH [OF _ s2(2)] by simp
qed

lemma order_inv_g_order:
  assumes "order_inv s" "watson_cache_g_order p (o_sys_order (ws_oracle s)) s = Ok s'"
  shows "order_inv s'"
proof -
  obtain s1 s2 and c :: cache_t where s1: "set_cache_data p (cd_g_order_update (\<lambda>_. o_sys_order (ws_oracle s))) s = Ok s1"
    and s2: "g_order_loop p (o_sys_order (ws_oracle s)) [0..<unat (cd_n_pend_read (ca_data c))] s1 = Ok s2"
    and s': "set_cache_data p (cd_n_pend_read_update (\<lambda>_. 0)) s2 = Ok s'"
    using assms(2) by (simp add: watson_cache_g_order_def) blast
  have "order_inv s1"
    by (rule order_inv_cache [OF assms(1) s1]) (simp add: pend_ok_def)
  then have "order_inv s2" using order_inv_loop s2 by blast
  then show ?thesis by (rule order_inv_cache [OF _ s']) (simp add: pend_ok_def)
qed

lemma order_inv_exec_mem:
  assumes "order_inv s" "watson_pg_exec_mem hwe cd s = Ok (r, s')"
  shows "order_inv s'"
proof -
  define s1 where "s1 = s\<lparr>ws_oracle := if o_sys_order (ws_oracle s) < id_index (hc_id hwe)
    then (ws_oracle s)\<lparr>o_sys_order := id_index (hc_id hwe)\<rparr>
    else print_out [M_error ''not well ordered''] (ws_oracle s)\<rparr>"
  have mono: "pend_ok n c \<Longrightarrow> n \<le> m \<Longrightarrow> pend_ok m c" for n m c
    by (auto simp: pend_ok_def intro: order_trans)
  have "order_inv s1"
    using assms(1) mono by (fastforce simp: s1_def order_inv_def reports.P_print reports.P_order)
  then show ?thesis
    using assms order_inv_g_order [of s1] unfolding watson_pg_exec_mem_def Let_def s1_def [symmetric]
    by (auto simp: order_inv_def reports.P_print split: if_splits option.splits)
qed

lemma comp_g_order_le: "order_inv s \<Longrightarrow> comp_g_order i s = Ok g \<Longrightarrow> g \<le> o_sys_order (ws_oracle s)"
  by (auto simp: comp_g_order_def get_cache_Ok order_inv_def pend_ok_def split: option.splits)

lemma push_upd_pend_ok:
  assumes "pend_ok so c" "unat (cd_n_pend_read c) < unat MAX_PENDING" "w_pre_order r \<le> so"
  shows "pend_ok so (upd_pend_read (unat (cd_n_pend_read c)) (\<lambda>_. r) (push_pend_read a c))"
proof -
  have "unat (cd_n_pend_read c + 1) = Suc (unat (cd_n_pend_read c))"
    using assms(2) by (simp add: unat_plus_if' MAX_PENDING_def)
  then show ?thesis
    using assms by (auto simp: pend_ok_def upd_pend_read_def push_pend_read_def Let_def less_Suc_eq
        word_le_nat_alt)
qed

lemma order_inv_ack_read:
  assumes inv: "order_inv s" and step: "exec_ack_read p addr e i s = Ok s'"
  shows "order_inv s'"
proof -
  let ?so = "o_sys_order (ws_oracle s)"
  obtain c where c: "ws_caches s p = Some c" "unat (cd_n_pend_read (ca_data c)) < unat MAX_PENDING"
    using step by (auto simp: exec_ack_read_def watson_pending_read_ack_def get_cache_Ok Let_def split: if_split_asm)
  define n where "n = unat (cd_n_pend_read (ca_data c))"
  define s1 where "s1 = s\<lparr>ws_caches := (ws_caches s)(p \<mapsto>
    c\<lparr>ca_data := push_pend_read (addr + word_of_nat i) (ca_data c)\<rparr>)\<rparr>"
  have "watson_pending_read_ack p (addr + word_of_nat i) s = Ok (n, s1)"
    using c by (auto simp: watson_pending_read_ack_def get_cache_def set_cache_data_def Let_def n_def s1_def
        word_less_nat_alt)
  then obtain old r where er: "watson_event_to_reader e old s1 = Ok r"
    and "set_cache_data p (upd_pend_read n (\<lambda>_. r)) s1 = Ok s'"
    using step by (auto simp: exec_ack_read_def)
  then have s': "s' = s\<lparr>ws_caches := (ws_caches s)(p \<mapsto>
      c\<lparr>ca_data := upd_pend_read n (\<lambda>_. r) (push_pend_read (addr + word_of_nat i) (ca_data c))\<rparr>)\<rparr>"
    by (simp add: set_cache_data_Ok s1_def)
  obtain g where r: "comp_g_order (id_devid (hc_id (ev_hwe e))) s1 = Ok g" "w_pre_order r = g"
    using er by (auto simp: watson_event_to_reader_def)
  have g: "cd_g_order (push_pend_read a d) = cd_g_order d" for a d
    by (simp add: push_pend_read_def Let_def)
  then have "comp_g_order (id_devid (hc_id (ev_hwe e))) s = Ok g"
    using r(1) c(1) unfolding s1_def comp_g_order_def get_cache_def
    by (auto split: option.splits if_split_asm)
  then have "w_pre_order r \<le> ?so" using comp_g_order_le [OF inv] r(2) by simp
  moreover have "pend_ok ?so (ca_data c)" using inv c(1) by (simp add: order_inv_def)
  ultimately have "pend_ok ?so (upd_pend_read n (\<lambda>_. r) (push_pend_read (addr + word_of_nat i) (ca_data c)))"
    unfolding n_def using c(2) by (intro push_upd_pend_ok)
  then show ?thesis
    using inv unfolding s' by (auto simp: order_inv_def reports.P_caches split: if_split_asm)
qed

lemma order_inv_exec_cache:
  assumes inv: "order_inv s" and step: "watson_pg_exec_cache junk p ty addr e s = Ok s'"
  shows "order_inv s'"
proof -
  have loop: "(\<And>i s s'. order_inv s \<Longrightarrow> f i s = Ok s' \<Longrightarrow> order_inv s') \<Longrightarrow>
      fold_result f is s = Ok s' \<Longrightarrow> order_inv s'" for f :: "nat \<Rightarrow> 'a watson \<Rightarrow> 'a watson result" and "is"
    using inv by (auto intro: fold_result_invariant [where P = order_inv and f = f])
  have ack: "fold_result (exec_ack_read p addr e) is s = Ok s' \<Longrightarrow> order_inv s'" for "is"
    by (rule loop, rule order_inv_ack_read)
  have rd: "fold_result (exec_read p addr e b r) is s = Ok s' \<Longrightarrow> order_inv s'" for "is" b r
    by (erule loop [rotated]) (auto simp: exec_read_def Let_def split: if_split_asm dest: order_inv_dfa)
  have wr: "fold_result (\<lambda>i. dfa_coherence (addr + word_of_nat i) p m t) is s = Ok s' \<Longrightarrow> order_inv s'" for "is" m t
    by (erule loop [rotated]) (simp add: order_inv_dfa)
  show ?thesis
    using step inv ack rd wr
    by (cases ty) (auto simp: watson_pg_exec_cache_def Let_def order_inv_def reports.P_print simp del: upt_Suc)
qed

lemma order_inv_comp:
  assumes inv: "order_inv s" and step: "watson_pg_comp cp ty s = Ok (r, s')"
  shows "order_inv s'"
proof -
  have "o_sys_order (ws_oracle s') = o_sys_order (ws_oracle s)"
    "\<forall>p c. ws_caches s' p = Some c \<longrightarrow> pend_ok (o_sys_order (ws_oracle s)) (ca_data c)"
    using step inv
    by (auto simp: watson_pg_comp_def Let_def set_cache_data_Ok order_inv_def pend_ok_def
        split: if_split_asm w_comp_type_t.splits comp_ptr.splits)
  then show ?thesis using reports.P_pg_comp step inv by (auto simp: order_inv_def)
qed

lemma reach_order_inv: "watson_reach J s \<Longrightarrow> judy_ok J \<Longrightarrow> order_inv s"
proof (induction rule: watson_reach.induct)
  case reach_init
  then show ?case
    using reach_report_inv [OF watson_reach.reach_init] by (auto simp: order_inv_def watson_pg_init_def)
next
  case (reach_create s p devid name)
  then show ?case
    by (auto simp: order_inv_def reports.P_caches cache_create_def zero_cache_data_def pend_ok_def)
qed (blast intro: order_inv_comp order_inv_exec_cache order_inv_exec_mem)+

text \<open>C17: The number of pending reads of a cache never exceeds the size of the array, so the test
  for an overflow never ends the program. When the array is full the next pending read is stored
  behind its end.\<close>

theorem pending_bounded:
  assumes "watson_reach J s" "judy_ok J" "ws_caches s p = Some c"
  shows "cd_n_pend_read (ca_data c) \<le> MAX_PENDING
    \<and> watson_pending_read_ack p a s \<noteq> Stop (Exit 1)
    \<and> (watson_pending_read_ack p a s = Stop Undefined \<longleftrightarrow> cd_n_pend_read (ca_data c) = MAX_PENDING)"
proof -
  have le: "cd_n_pend_read (ca_data c) \<le> MAX_PENDING"
    using reach_order_inv [OF assms(1,2)] assms(3) by (simp add: order_inv_def pend_ok_def)
  then have "cd_n_pend_read (ca_data c) = MAX_PENDING
      \<or> \<not> cd_n_pend_read (ca_data c) > MAX_PENDING \<and> unat (cd_n_pend_read (ca_data c)) < unat MAX_PENDING"
    by (auto simp: word_less_nat_alt word_le_nat_alt word_unat_eq_iff)
  then show ?thesis
    using le assms(3) by (auto simp: watson_pending_read_ack_def get_cache_def set_cache_data_def Let_def)
qed

section \<open>A run\<close>

definition watson_demo_head :: hwe_head_t where
  "watson_demo_head = \<lparr>hd_type = HWE_MEMACK, hd_rid = 1, hd_ndates = 0, hd_nrefs = 1, hd_expected = 0, hd_nchild = 0,
     hd_com_child = 0\<rparr>"

definition watson_demo_inst :: "u32 \<Rightarrow> hwe_inst32_t" where
  "watson_demo_inst pc = \<lparr>in_pc = pc, in_width = 3, in_abort = 0, in_jump = 0, in_regdata = 0, in_exec = 1, in_unalign = 0,
     in_cycles = 1, in_imem = 1, in_dmem = 1, in_excl = 0, in_str = 0, in_pad = 0, in_nregs = 0, in_regdst = 0,
     in_instr = 0\<rparr>"

definition watson_demo_event :: "u8 \<Rightarrow> u64 \<Rightarrow> u32 \<Rightarrow> hwe_body \<Rightarrow> event_r" where
  "watson_demo_event dev idx pc b = \<lparr>ev_hwe = \<lparr>hc_id = \<lparr>id_devid = dev, id_index = idx\<rparr>, hc_head = watson_demo_head, hc_dates = [], hc_body = b\<rparr>,
     ev_ref = \<lparr>hc_id = \<lparr>id_devid = dev + 2, id_index = idx\<rparr>, hc_head = watson_demo_head, hc_dates = [],
       hc_body = B_inst \<lparr>ic_body = watson_demo_inst pc, ic_jump_pc = 0, ic_reg_id = [], ic_reg_data = []\<rparr>\<rparr>\<rparr>"

definition watson_demo_start :: "(nat \<rightharpoonup> nat) watson" where
  "watson_demo_start = watson_pg_init
    \<lparr>ws_oracle = zero_oracle, ws_caches = Map.empty, ws_table = ht_init judy_map zero_mem_data\<rparr>"

definition watson_demo_caches :: "(nat \<rightharpoonup> nat) watson" where
  "watson_demo_caches = watson_demo_start\<lparr>ws_caches := (Map.empty (0 \<mapsto> cache_create 0 [0x44]))(1 \<mapsto> cache_create 1 [0x44])\<rparr>"

text \<open>Cache 0 modifies four bytes at 0x100, cache 1 requests two bytes at 0x102 before they are
  written back.\<close>

definition watson_demo :: "(nat \<rightharpoonup> nat) watson result" where
  "watson_demo =
     bind_result (watson_pg_comp (CP_cache 0) W_COMP_CACHE watson_demo_caches) (\<lambda>(_, s).
     bind_result (watson_pg_comp (CP_cache 1) W_COMP_CACHE s) (\<lambda>(_, s).
     bind_result (watson_pg_exec_cache zero_writer 0 EVENT_ACK_MODIFY 0x100
       (watson_demo_event 0 1 0x8000 (B_ack \<lparr>ak_access = 0, ak_pad = 0, ak_width = 3, ak_addr = 0x100\<rparr>)) s)
     (watson_pg_exec_cache zero_writer 1 EVENT_READ 0x102
       (watson_demo_event 1 1 0x9000 (B_mem \<lparr>mc_body = \<lparr>mm_access = 0, mm_inst = 0, mm_condfailed = 0, mm_usedata = 0,
          mm_rcvack = 0, mm_width = 1, mm_addr = 0x102, mm_cpureq_width = 1, mm_cpureq_addr = 0x102\<rparr>, mc_data = []\<rparr>)))))"

lemma watson_demo_Ok: "\<not> isl watson_demo \<and> p_total (o_problem (ws_oracle (projr watson_demo))) = 2
    \<and> o_undefined_total (ws_oracle (projr watson_demo)) = 0"
  by code_simp

lemma watson_demo_eq: "watson_demo = Ok (projr watson_demo)"
  using watson_demo_Ok by (metis sum.collapse(2))

lemma watson_demo_reach: "watson_demo = Ok s \<Longrightarrow> watson_reach judy_map s"
proof -
  have "watson_reach judy_map watson_demo_start"
    unfolding watson_demo_start_def by (rule reach_init)
  from reach_create [OF reach_create [OF this, of 0 0 "[0x44]"], of 1 1 "[0x44]"]
  have "watson_reach judy_map watson_demo_caches"
    by (simp add: watson_demo_caches_def watson_demo_start_def watson_pg_init_def)
  then show "watson_demo = Ok s \<Longrightarrow> watson_reach judy_map s"
    unfolding watson_demo_def by (fastforce dest: reach_comp reach_cache)
qed

theorem counters_agree_witness:
  "word_of_nat (card {a. md_state (meta (projr watson_demo) a) = STATE_PROBLEM}) = (2 :: u32)"
  using counters_agree [OF watson_demo_reach [OF watson_demo_eq] judy_map_ok] watson_demo_Ok by simp

theorem pending_bounded_witness:
  "\<exists>c. ws_caches (projr watson_demo) 1 = Some c \<and> cd_n_pend_read (ca_data c) \<le> MAX_PENDING"
proof -
  have "ws_caches (projr watson_demo) 1 \<noteq> None" by code_simp
  then obtain c where "ws_caches (projr watson_demo) 1 = Some c" by blast
  then show ?thesis
    using pending_bounded [OF watson_demo_reach [OF watson_demo_eq] judy_map_ok, of 1 c] by blast
qed

end
