(* ===== verification/Watson_Protocol.thy ===== *)
theory Watson_Protocol
  imports Watson_Reports
begin

text \<open>
  The coherence protocol behind the write-back checker: an abstract automaton over the set of
  caches that hold the written value, the refinement of the step on bitmaps to it, the exact
  condition under which a read is reported, and what the analysis of the pending reads of a cache,
  the end of the program and the registration of a memory do.
\<close>

section \<open>Sets of caches\<close>

definition holders :: "u32 \<Rightarrow> u8 set" where
  "holders b = {i. bit b (unat i)}"

lemma holders_bit [simp]: "unat i < 31 \<Longrightarrow> holders (2 ^ unat i) = {i}"
  by (auto simp: holders_def bit_simps word_unat_eq_iff)

lemma holders_or [simp]: "holders (a OR b) = holders a \<union> holders b"
  by (auto simp: holders_def bit_simps)

lemma holders_and:
  assumes "unat i < 31"
  shows "b AND 2 ^ unat i = 0 \<longleftrightarrow> i \<notin> holders (b :: u32)"
proof
  assume "b AND 2 ^ unat i = 0"
  then have "\<not> bit (b AND 2 ^ unat i) (unat i)" by simp
  then show "i \<notin> holders b" using assms by (simp add: holders_def bit_simps)
next
  assume "i \<notin> holders b"
  then show "b AND 2 ^ unat i = 0"
    by (intro bit_word_eqI) (auto simp: holders_def bit_simps)
qed

section \<open>The protocol\<close>

text \<open>\<open>A_dirty c\<close>: cache \<open>c\<close> holds a value that memory does not have. \<open>A_written c F\<close>: \<open>c\<close> has
  written it back, \<open>F\<close> are the caches that have fetched it since.\<close>

datatype protocol = A_clean | A_dirty u8 | A_written u8 "u8 set" | A_reported

fun protocol_step :: "coherence_event_t \<Rightarrow> u8 \<Rightarrow> protocol \<Rightarrow> protocol" where
  "protocol_step e i A_reported = A_reported"
| "protocol_step EVENT_MODIFY_ACK i _ = A_dirty i"
| "protocol_step e i A_clean = A_clean"
| "protocol_step EVENT_READ_ACK i (A_dirty m) = (if i = m then A_dirty m else A_reported)"
| "protocol_step EVENT_READ_REQ i (A_dirty m) = A_reported"
| "protocol_step EVENT_WRITE_REQ i (A_dirty m) = (if i = m then A_written i {i} else A_dirty m)"
| "protocol_step e i (A_dirty m) = A_dirty m"
| "protocol_step EVENT_READ_ACK i (A_written w F) = (if i \<in> F then A_written w F else A_reported)"
| "protocol_step EVENT_READ_REQ i (A_written w F) = A_written w (insert i F)"
| "protocol_step EVENT_ALLOC_REQ i (A_written w F) = A_written w (insert i F)"
| "protocol_step EVENT_WRITE_REQ i (A_written w F) = (if i \<in> F then A_written i {i} else A_reported)"
| "protocol_step e i (A_written w F) = A_written w F"

definition protocol_of :: "w_mem_data_t \<Rightarrow> protocol" where
  "protocol_of d =
     (if md_state d = STATE_INIT then A_clean
      else if md_state d = STATE_MODIFY then A_dirty (w_id (md_modifier d))
      else if md_state d = STATE_WRITEBACK then A_written (w_id (md_writer d)) (holders (md_bitmap_readers d))
      else A_reported)"

text \<open>The global order of the last access and of the event is not known: the two intervals overlap.\<close>

definition unordered :: "w_mem_data_t \<Rightarrow> writer_t \<Rightarrow> coherence_event_t \<Rightarrow> bool" where
  "unordered d ev e =
     (let after = (\<lambda>x. w_pos_order x > w_pre_order ev) in
      if md_state d = STATE_MODIFY then
        (case e of EVENT_READ_ACK \<Rightarrow> w_id (md_modifier d) \<noteq> w_id ev \<and> after (md_modifier d)
         | EVENT_READ_REQ \<Rightarrow> after (md_modifier d)
         | EVENT_MODIFY_ACK \<Rightarrow> after (md_reader d) \<or> w_id (md_modifier d) \<noteq> w_id ev \<and> after (md_modifier d)
         | EVENT_WRITE_REQ \<Rightarrow> w_id (md_modifier d) = w_id ev \<and> after (md_modifier d)
         | _ \<Rightarrow> False)
      else if md_state d = STATE_WRITEBACK then
        (case e of EVENT_READ_ACK \<Rightarrow> w_id ev \<notin> holders (md_bitmap_readers d) \<and> after (md_writer d)
         | EVENT_MODIFY_ACK \<Rightarrow> after (md_writer d) \<or> after (md_reader d)
         | EVENT_WRITE_REQ \<Rightarrow> after (md_writer d)
         | _ \<Rightarrow> False)
      else False)"

lemma PRINT_PROBLEM_room:
  "p_total (o_problem s) < MAX_ERRORS \<Longrightarrow> \<exists>s'. PRINT_PROBLEM a w m r s = Ok s'"
  by (simp add: PRINT_PROBLEM_Ok inc_le)

text \<open>C14: As long as the limit of reports is not reached and the cache has a bit in the bitmaps, a
  step of the write-back automaton returns, and it does what the protocol does on the set of caches
  that hold the value, or reports that the order of the accesses is not known.\<close>

theorem writeback_implements_protocol:
  assumes "md_state d \<in> wb_states" "unat (w_id ev) < 31" "p_total (o_problem s) < MAX_ERRORS"
  shows "\<exists>d' s'. wb_step a ev e (d, s) = Ok (d', s') \<and> protocol_of d' =
    (if unordered d ev e then A_reported else protocol_step e (w_id ev) (protocol_of d))"
proof -
  obtain pp where pr': "PRINT_PROBLEM a w m r s = Ok (pp w m r)" for w m r
    using PRINT_PROBLEM_room [OF assms(3)] by metis
  consider "md_state d = STATE_INIT" | "md_state d = STATE_MODIFY" | "md_state d = STATE_WRITEBACK"
    | "md_state d = STATE_PROBLEM" using assms(1) by (auto simp: wb_states_def)
  then show ?thesis
  proof cases
    case 1
    then show ?thesis using assms(2)
      by (cases e) (simp_all add: wb_defs id_bit_def unordered_def protocol_of_def)
  next
    case 2
    then show ?thesis using assms(2)
      by (cases e) (auto simp: wb_defs assert_defs id_bit_def unordered_def protocol_of_def pr' undefined_order_def
          Let_def)
  next
    case 3
    then show ?thesis using assms(2)
      by (cases e) (simp_all add: wb_defs assert_defs id_bit_def unordered_def protocol_of_def pr' undefined_order_def
          Let_def holders_and)
  next
    case 4
    then show ?thesis
      by (cases e) (simp_all add: wb_defs unordered_def protocol_of_def)
  qed
qed

theorem writeback_implements_protocol_witness:
  "\<exists>d' s'. wb_step 0x100 (zero_writer\<lparr>w_id := 3\<rparr>) EVENT_MODIFY_ACK (zero_mem_data, zero_oracle) = Ok (d', s')
     \<and> protocol_of d' = A_dirty 3"
  using writeback_implements_protocol [of zero_mem_data "zero_writer\<lparr>w_id := 3\<rparr>" zero_oracle "0x100" EVENT_MODIFY_ACK]
  by (simp add: zero_mem_data_def wb_states_def zero_oracle_def zero_problem_def MAX_ERRORS_def zero_writer_def
      unordered_def protocol_of_def)

section \<open>Reads after a write-back\<close>

text \<open>Requests for the line only add their caches to the bitmap.\<close>

lemma requests_run:
  assumes "md_state d = STATE_WRITEBACK"
    and "\<forall>(ev, e) \<in> set rs. (e = EVENT_READ_REQ \<or> e = EVENT_ALLOC_REQ) \<and> unat (w_id ev) < 31"
  shows "\<exists>d'. fold_result (\<lambda>(ev, e). wb_step a ev e) rs (d, s) = Ok (d', s) \<and> md_state d' = STATE_WRITEBACK
    \<and> md_writer d' = md_writer d
    \<and> holders (md_bitmap_readers d') = holders (md_bitmap_readers d) \<union> (\<lambda>(ev, e). w_id ev) ` set rs"
  using assms
proof (induction rs arbitrary: d)
  case Nil
  then show ?case by simp
next
  case (Cons r rs)
  obtain ev e where r: "r = (ev, e)" by fastforce
  define d1 where "d1 = d\<lparr>md_reader := ev, md_bitmap_readers := md_bitmap_readers d OR 2 ^ unat (w_id ev)\<rparr>"
  have step: "wb_step a ev e (d, s) = Ok (d1, s)"
    using Cons.prems r by (auto simp: wb_defs id_bit_def d1_def)
  moreover have "holders (md_bitmap_readers d1) = insert (w_id ev) (holders (md_bitmap_readers d))"
    using Cons.prems r by (simp add: d1_def)
  ultimately show ?case
    using Cons.IH [of d1] Cons.prems r by (simp add: d1_def)
qed

text \<open>C15: After a write-back only the writer is known to hold the value. Whatever caches request
  the line then, a read that is acknowledged and ordered after the write-back is reported exactly
  when its cache neither wrote the value nor requested it since.\<close>

theorem stale_read_reported:
  assumes "md_state d = STATE_WRITEBACK" "md_bitmap_readers d = push_bit (unat (w_id (md_writer d))) 1"
    and "unat (w_id (md_writer d)) < 31"
    and "\<forall>(ev, e) \<in> set rs. (e = EVENT_READ_REQ \<or> e = EVENT_ALLOC_REQ) \<and> unat (w_id ev) < 31"
    and "unat (w_id r) < 31" "w_pos_order (md_writer d) \<le> w_pre_order r"
    and "p_total (o_problem s) < MAX_ERRORS"
  shows "\<exists>d' s'. bind_result (fold_result (\<lambda>(ev, e). wb_step a ev e) rs (d, s)) (wb_step a r EVENT_READ_ACK)
      = Ok (d', s')
    \<and> (md_state d' = STATE_PROBLEM \<longleftrightarrow> w_id r \<noteq> w_id (md_writer d) \<and> w_id r \<notin> (\<lambda>(ev, e). w_id ev) ` set rs)
    \<and> p_write_read_ack (o_problem s') = p_write_read_ack (o_problem s) + bool_word (md_state d' = STATE_PROBLEM)"
proof -
  obtain d1 where run: "fold_result (\<lambda>(ev, e). wb_step a ev e) rs (d, s) = Ok (d1, s)"
    and d1: "md_state d1 = STATE_WRITEBACK" "md_writer d1 = md_writer d"
      "holders (md_bitmap_readers d1) = insert (w_id (md_writer d)) ((\<lambda>(ev, e). w_id ev) ` set rs)"
    using requests_run [OF assms(1,4), of a s] assms(2,3) by auto
  obtain pp where pp: "PRINT_PROBLEM a w m r s = Ok (pp w m r)" for w m r
    using PRINT_PROBLEM_room [OF assms(7)] by metis
  have frame: "o_problem (pp w m r) = (o_problem s)\<lparr>p_total := p_total (o_problem s) + 1\<rparr>" for w m r
    using pp [of w m r] by (simp add: PRINT_PROBLEM_Ok)
  show ?thesis
  proof (cases "w_id r \<in> holders (md_bitmap_readers d1)")
    case True
    then have "wb_step a r EVENT_READ_ACK (d1, s) = Ok (d1\<lparr>md_reader := r\<rparr>, s)"
      using d1(1) assms(5) by (simp add: wb_defs id_bit_def holders_and)
    then show ?thesis using True run d1 by (auto simp: bool_word_def)
  next
    case False
    moreover have "\<not> w_pre_order r < w_pos_order (md_writer d)" using assms(6) by simp
    ultimately have "wb_step a r EVENT_READ_ACK (d1, s) = Ok (d1\<lparr>md_reader := r, md_state := STATE_PROBLEM\<rparr>,
        print_out [M_error ''WRITEBACK->READ_ACK''] ((pp (Some (md_writer d)) None (Some r))
          \<lparr>o_problem := (o_problem (pp (Some (md_writer d)) None (Some r)))
            \<lparr>p_write_read_ack := p_write_read_ack (o_problem s) + 1\<rparr>\<rparr>))"
      using d1(1,2) assms(5) by (simp add: wb_defs assert_defs id_bit_def holders_and pp frame Let_def)
    then show ?thesis using False run d1 by (auto simp: bool_word_def)
  qed
qed

definition demo_written :: w_mem_data_t where
  "demo_written = zero_mem_data\<lparr>md_state := STATE_WRITEBACK, md_writer := zero_writer\<lparr>w_id := 2\<rparr>, md_bitmap_readers := 4\<rparr>"

theorem stale_read_reported_witness:
  "\<exists>d' s'. bind_result (fold_result (\<lambda>(ev, e). wb_step 0x40 ev e) [(zero_writer\<lparr>w_id := 5\<rparr>, EVENT_READ_REQ)]
      (demo_written, zero_oracle)) (wb_step 0x40 (zero_writer\<lparr>w_id := 6\<rparr>) EVENT_READ_ACK) = Ok (d', s')
    \<and> md_state d' = STATE_PROBLEM"
  using stale_read_reported [of demo_written "[(zero_writer\<lparr>w_id := 5\<rparr>, EVENT_READ_REQ)]" "zero_writer\<lparr>w_id := 6\<rparr>"
      zero_oracle "0x40"]
  by (auto simp: demo_written_def zero_writer_def zero_oracle_def zero_problem_def MAX_ERRORS_def)

section \<open>Analysis of the pending reads\<close>

lemma dfa_writeback_caches:
  "watson_dfa_writeback a p ev e (s\<lparr>ws_caches := cs\<rparr>) =
     bind_result (watson_dfa_writeback a p ev e s) (\<lambda>s'. Ok (s'\<lparr>ws_caches := cs\<rparr>))"
  by (auto simp: watson_dfa_writeback_def bind_result_def Let_def split: sum.splits prod.splits)

lemma dfa_writeback_keeps:
  assumes "watson_dfa_writeback a p ev e s = Ok s'"
  shows "ws_caches s' = ws_caches s \<and> o_dfa_coherence (ws_oracle s') = o_dfa_coherence (ws_oracle s)"
proof -
  obtain m h where "mem_get_addr a (ws_table s) = (m, h)" by fastforce
  then obtain d oc where "wb_step a ev e (sa_meta m, ws_oracle s) = Ok (d, oc)"
    "ws_caches s' = ws_caches s" "ws_oracle s' = oc"
    using assms by (auto simp: watson_dfa_writeback_def)
  then show ?thesis using wb_step_counts(9) by blast
qed

text \<open>The analysis of one pending read.\<close>

definition analyse :: "nat \<Rightarrow> u64 \<Rightarrow> cache_data_t \<Rightarrow> nat \<Rightarrow> 'j watson \<Rightarrow> 'j watson result" where
  "analyse p order c i =
     watson_dfa_writeback (pe_addr (cd_pend_read c i)) p ((pe_event (cd_pend_read c i))\<lparr>w_pos_order := order\<rparr>)
       EVENT_READ_ACK"

definition stamp :: "u64 \<Rightarrow> nat set \<Rightarrow> cache_data_t \<Rightarrow> cache_data_t" where
  "stamp order I c = c\<lparr>cd_pend_read := (\<lambda>i. if i \<in> I
     then (cd_pend_read c i)\<lparr>pe_event := (pe_event (cd_pend_read c i))\<lparr>w_pos_order := order\<rparr>\<rparr> else cd_pend_read c i)\<rparr>"

lemma stamp_insert:
  "i \<notin> I \<Longrightarrow> stamp order I (upd_pend_read i (\<lambda>r. r\<lparr>w_pos_order := order\<rparr>) c) = stamp order (insert i I) c"
  by (auto simp: stamp_def upd_pend_read_def fun_eq_iff)

lemma stamp_g_order: "stamp order I (c\<lparr>cd_g_order := g\<rparr>) = (stamp order I c)\<lparr>cd_g_order := g\<rparr>"
  by (cases c) (auto simp: stamp_def fun_eq_iff)

lemma analyse_caches:
  "fold_result (analyse p order c) is (s\<lparr>ws_caches := cs\<rparr>) =
     bind_result (fold_result (analyse p order c) is s) (\<lambda>s'. Ok (s'\<lparr>ws_caches := cs\<rparr>))"
proof (induction "is" arbitrary: s)
  case (Cons i "is")
  then show ?case
    by (cases "analyse p order c i s") (simp_all add: analyse_def dfa_writeback_caches)
qed simp

lemma analyse_upd:
  "j \<noteq> i \<Longrightarrow> analyse p order (upd_pend_read i f c) j = analyse p order c j"
  by (simp add: analyse_def upd_pend_read_def)

lemma g_order_loop_eq:
  assumes "distinct is" "\<forall>i \<in> set is. i < unat MAX_PENDING" "o_dfa_coherence (ws_oracle s) = Dfa_writeback"
    and "ws_caches s p = Some c"
  shows "g_order_loop p order is s = bind_result (fold_result (analyse p order (ca_data c)) is s) (\<lambda>s'.
    Ok (s'\<lparr>ws_caches := (ws_caches s)(p \<mapsto> c\<lparr>ca_data := stamp order (set is) (ca_data c)\<rparr>)\<rparr>))"
  using assms
proof (induction "is" arbitrary: s c)
  case Nil
  then have "(ws_caches s)(p \<mapsto> c) = ws_caches s" by auto
  then show ?case by (simp add: stamp_def del: fun_upd_apply)
next
  case (Cons i "is")
  define c1 where "c1 = c\<lparr>ca_data := upd_pend_read i (\<lambda>r. r\<lparr>w_pos_order := order\<rparr>) (ca_data c)\<rparr>"
  define s1 where "s1 = s\<lparr>ws_caches := (ws_caches s)(p \<mapsto> c1)\<rparr>"
  have s1: "set_cache_data p (upd_pend_read i (\<lambda>r. r\<lparr>w_pos_order := order\<rparr>)) s = Ok s1" "get_cache p s1 = Ok c1"
    using Cons.prems(4) by (simp_all add: set_cache_data_Ok get_cache_Ok s1_def c1_def)
  have pend: "cd_pend_read (ca_data c1) i =
      (cd_pend_read (ca_data c) i)\<lparr>pe_event := (pe_event (cd_pend_read (ca_data c) i))\<lparr>w_pos_order := order\<rparr>\<rparr>"
    by (simp add: c1_def upd_pend_read_def)
  have an: "fold_result (analyse p order (ca_data c1)) is = fold_result (analyse p order (ca_data c)) is"
    using Cons.prems(1) by (intro fold_result_cong) (auto simp: c1_def intro!: analyse_upd)
  have loop: "g_order_loop p order (i # is) s = bind_result (analyse p order (ca_data c) i s1) (g_order_loop p order is)"
    using Cons.prems s1 by (simp add: pend analyse_def dfa_coherence_def s1_def)
  show ?case
  proof (cases "analyse p order (ca_data c) i s")
    case (Inl e)
    then show ?thesis
      unfolding loop by (simp add: s1_def analyse_def dfa_writeback_caches)
  next
    case (Inr t)
    have t: "ws_caches t = ws_caches s" "o_dfa_coherence (ws_oracle t) = Dfa_writeback"
      using dfa_writeback_keeps [OF Inr [unfolded analyse_def]] Cons.prems(3) by auto
    have "analyse p order (ca_data c) i s1 = Ok (t\<lparr>ws_caches := (ws_caches s)(p \<mapsto> c1)\<rparr>)"
      using Inr by (simp add: s1_def analyse_def dfa_writeback_caches)
    moreover have "c1\<lparr>ca_data := stamp order (set is) (ca_data c1)\<rparr> =
        c\<lparr>ca_data := stamp order (set (i # is)) (ca_data c)\<rparr>"
      using Cons.prems(1) by (simp add: c1_def stamp_insert)
    ultimately show ?thesis
      using Cons.IH [of "t\<lparr>ws_caches := (ws_caches s)(p \<mapsto> c1)\<rparr>" c1] Cons.prems t Inr
      unfolding loop by (cases "fold_result (analyse p order (ca_data c)) is t")
        (simp_all add: an analyse_caches del: fun_upd_apply add: fun_upd_same)
  qed
qed


text \<open>C16: Acknowledging the global order of a cache analyses each of its pending reads once, in the
  order of their arrival and with the interval closed at the new order, and leaves no read pending.
  It stops exactly when one of these analyses stops.\<close>

theorem g_order_analyses_pending:
  assumes "watson_reach J s" "judy_ok J" "ws_caches s p = Some c"
  shows "watson_cache_g_order p order s =
    bind_result (fold_result (analyse p order (ca_data c)) [0..<unat (cd_n_pend_read (ca_data c))] s) (\<lambda>s'.
      Ok (s'\<lparr>ws_caches := (ws_caches s)(p \<mapsto> c\<lparr>ca_data :=
        (stamp order {0..<unat (cd_n_pend_read (ca_data c))} (ca_data c))\<lparr>cd_g_order := order, cd_n_pend_read := 0\<rparr>\<rparr>)\<rparr>))"
proof -
  define n where "n = unat (cd_n_pend_read (ca_data c))"
  define c1 where "c1 = c\<lparr>ca_data := (ca_data c)\<lparr>cd_g_order := order\<rparr>\<rparr>"
  have inv: "order_inv s" using reach_order_inv assms(1,2) .
  then have wb: "o_dfa_coherence (ws_oracle s) = Dfa_writeback" "n \<le> unat MAX_PENDING"
    using assms(3) by (auto simp: order_inv_def report_inv_def pend_ok_def n_def word_le_nat_alt)
  have an: "analyse p order (ca_data c1) = analyse p order (ca_data c)"
    by (simp add: c1_def analyse_def fun_eq_iff)
  have loop: "g_order_loop p order [0..<n] (s\<lparr>ws_caches := (ws_caches s)(p \<mapsto> c1)\<rparr>) =
    bind_result (fold_result (analyse p order (ca_data c)) [0..<n] s) (\<lambda>s'.
      Ok (s'\<lparr>ws_caches := (ws_caches s)(p \<mapsto> c1\<lparr>ca_data := stamp order {0..<n} (ca_data c1)\<rparr>)\<rparr>))"
    using g_order_loop_eq [of "[0..<n]" "s\<lparr>ws_caches := (ws_caches s)(p \<mapsto> c1)\<rparr>" p c1 order] wb
    by (cases "fold_result (analyse p order (ca_data c)) [0..<n] s") (auto simp: an analyse_caches)
  have fin: "set_cache_data p (cd_n_pend_read_update (\<lambda>_. 0)) (s'\<lparr>ws_caches := (ws_caches s)(p \<mapsto>
        c1\<lparr>ca_data := stamp order {0..<n} (ca_data c1)\<rparr>)\<rparr>) = Ok (s'\<lparr>ws_caches := (ws_caches s)(p \<mapsto>
        c\<lparr>ca_data := (stamp order {0..<n} (ca_data c))\<lparr>cd_g_order := order, cd_n_pend_read := 0\<rparr>\<rparr>)\<rparr>)"
    for s' :: "'a watson"
    by (simp add: set_cache_data_Ok c1_def stamp_g_order)
  show ?thesis
    using assms(3) unfolding watson_cache_g_order_def n_def [symmetric]
    by (cases "fold_result (analyse p order (ca_data c)) [0..<n] s")
      (simp_all add: get_cache_def set_cache_data_def [of p "cd_g_order_update (\<lambda>_. order)"] c1_def [symmetric]
        n_def [symmetric] loop fin del: fun_upd_apply)
qed


text \<open>C19: A memory whose device number fits in a byte is registered only as the first component. As
  any other it ends the program, because its identifier is read from the wrong byte.\<close>

theorem memory_registered_first:
  assumes "unat (m_id m) < 256" "length (o_comp (ws_oracle s)) = 256"
  shows "watson_pg_comp (CP_mem m) W_COMP_MEM s =
    (if o_n_comp (ws_oracle s) = 0
     then Ok (0, s\<lparr>ws_oracle := (ws_oracle s)\<lparr>o_comp := (o_comp (ws_oracle s))[0 := None], o_n_comp := 1\<rparr>\<rparr>)
     else Stop (Exit 1))"
proof -
  have "drop_bit 8 (m_id m) = 0"
    using assms(1) by (simp add: word_unat_eq_iff drop_bit_eq_div unat_div)
  then have "common_id s (CP_mem m) = Ok 0" by (simp add: common_id_def)
  then show ?thesis using assms(2) by (auto simp: watson_pg_comp_def Let_def arr_set_def)
qed

theorem memory_registered_first_witness:
  "watson_pg_comp (CP_mem \<lparr>m_id = 5, m_last_exec = None, m_next_exec = None\<rparr>) W_COMP_MEM
    (watson_demo_start\<lparr>ws_oracle := zero_oracle\<lparr>o_n_comp := 5\<rparr>\<rparr>) = Stop (Exit 1)"
  using memory_registered_first [of "\<lparr>m_id = 5, m_last_exec = None, m_next_exec = None\<rparr>"
      "watson_demo_start\<lparr>ws_oracle := zero_oracle\<lparr>o_n_comp := 5\<rparr>\<rparr>"]
  by (simp add: zero_oracle_def)

theorem g_order_analyses_pending_witness:
  "\<exists>c. ws_caches (projr watson_demo) 1 = Some c \<and> watson_cache_g_order 1 7 (projr watson_demo) =
    bind_result (fold_result (analyse 1 7 (ca_data c)) [0..<unat (cd_n_pend_read (ca_data c))] (projr watson_demo)) (\<lambda>s'.
      Ok (s'\<lparr>ws_caches := (ws_caches (projr watson_demo))(1 \<mapsto> c\<lparr>ca_data :=
        (stamp 7 {0..<unat (cd_n_pend_read (ca_data c))} (ca_data c))\<lparr>cd_g_order := 7, cd_n_pend_read := 0\<rparr>\<rparr>)\<rparr>))"
proof -
  have "ws_caches (projr watson_demo) 1 \<noteq> None" by code_simp
  then obtain c where "ws_caches (projr watson_demo) 1 = Some c" by blast
  then show ?thesis
    using g_order_analyses_pending [OF watson_demo_reach [OF watson_demo_eq] judy_map_ok, of 1 c 7] by blast
qed

end
