(* ===== verification/Gdb_Stub.thy ===== *)
theory Gdb_Stub
  imports Delorean
begin

text \<open>
  The debugger's remote protocol, \<open>tool/sherlock/src/delorean/gdbstub.c\<close>: the packet
  encoder and parser, the commands, break- and watchpoints, and the loop that alternates between
  the recorder and the debugger.

  The socket is a list of what the next reads return, then the peer has closed the connection;
  the results of the sends are a list too, and once it is used up a send takes everything.
  Strings are positions in \<open>line_buf\<close>, and reading behind its end is undefined. \<open>mem_buf\<close>, a
  local buffer, starts with arbitrary bytes \<open>junk\<close>.
\<close>

section \<open>State\<close>

definition GDB_MAX_PACKET_LENGTH :: nat where "GDB_MAX_PACKET_LENGTH = 4096 * 4"

datatype RSState = RS_IDLE | RS_GETLINE | RS_CHKSUM1 | RS_CHKSUM2

datatype gdb_running =
    GDB_STATE_CONTROL | GDB_STATE_STEP | GDB_STATE_CONTINUE | GDB_STATE_DETACH | GDB_STATE_INIT
  | GDB_STATE_REVERSE_STEP | GDB_STATE_REVERSE_CONTINUE

definition GDB_BREAKPOINT_SW :: int where "GDB_BREAKPOINT_SW = 0"
definition GDB_BREAKPOINT_HW :: int where "GDB_BREAKPOINT_HW = 1"
definition GDB_WATCHPOINT_WRITE :: int where "GDB_WATCHPOINT_WRITE = 2"
definition GDB_WATCHPOINT_READ :: int where "GDB_WATCHPOINT_READ = 3"
definition GDB_WATCHPOINT_ACCESS :: int where "GDB_WATCHPOINT_ACCESS = 4"

lemmas gdb_point_defs = GDB_BREAKPOINT_SW_def GDB_BREAKPOINT_HW_def GDB_WATCHPOINT_WRITE_def
  GDB_WATCHPOINT_READ_def GDB_WATCHPOINT_ACCESS_def

record watch_el_t =
  we_begin :: u64
  we_end :: u64
  we_type :: int

text \<open>A read returns bytes, is interrupted (\<open>EINTR\<close>), finds nothing yet (\<open>EAGAIN\<close>), finds the connection
  reset, or fails; a send takes some bytes, is interrupted or fails.\<close>

datatype net_in = N_data bytes | N_intr | N_again | N_reset | N_error
datatype net_send = S_sent nat | S_retry | S_fail

record gdb_t =
  g_fd :: int
  g_srv_sock_fd :: int
  g_c_cpu_index :: int
  g_g_cpu_index :: int
  g_query_cpu_index :: int
  g_state :: RSState
  g_running :: gdb_running
  g_line_buf :: "nat \<Rightarrow> u8"
  g_line_buf_index :: nat
  g_line_csum :: nat
  g_last_packet :: bytes
  g_cpu :: "u8 option"
  g_bp_addr :: "u64 list"
  g_bp_nb :: nat
  g_watch :: "watch_el_t list"
  g_watch_nb :: nat
  g_write_watchpoint :: bool
  g_watchpoint_new_value :: u64
  g_watchpoint_address :: u64
  g_in :: "net_in list"
  g_send :: "net_send list"
  g_out :: bytes
  g_dl :: dl_state

section \<open>Characters\<close>

definition fromhex :: "u8 \<Rightarrow> nat" where
  "fromhex v = (let n = unat v in
     if 48 \<le> n \<and> n \<le> 57 then n - 48
     else if 65 \<le> n \<and> n \<le> 70 then n - 65 + 10
     else if 97 \<le> n \<and> n \<le> 102 then n - 97 + 10
     else 0)"

definition tohex :: "nat \<Rightarrow> u8" where
  "tohex v = (if v < 10 then word_of_nat (v + 48) else word_of_nat (v - 10 + 97))"

fun memtohex :: "bytes \<Rightarrow> bytes" where
  "memtohex [] = []"
| "memtohex (c # cs) = tohex (unat c div 16) # tohex (unat c mod 16) # memtohex cs"

section \<open>The socket\<close>

text \<open>The loop of \<open>get_char\<close>: the byte, if any, and whether the connection is lost.\<close>

fun get_char_loop :: "net_in list \<Rightarrow> u8 option \<times> bool \<times> net_in list" where
  "get_char_loop [] = (None, True, [])"
| "get_char_loop (N_data [] # r) = get_char_loop r"
| "get_char_loop (N_data (b # bs) # r) = (Some b, False, if bs = [] then r else N_data bs # r)"
| "get_char_loop (N_intr # r) = get_char_loop r"
| "get_char_loop (N_again # r) = get_char_loop r"
| "get_char_loop (N_reset # r) = (None, True, r)"
| "get_char_loop (N_error # r) = (None, False, r)"

definition get_char :: "gdb_t \<Rightarrow> u8 option \<times> gdb_t" where
  "get_char s =
     (if g_fd s < 0 then (None, s)
      else let (c, lost, r) = get_char_loop (g_in s)
           in (c, s\<lparr>g_fd := (if lost then - 1 else g_fd s), g_in := r\<rparr>))"

text \<open>The loop of \<open>put_buffer\<close>: the bytes sent and whether a send failed.\<close>

fun send_loop :: "net_send list \<Rightarrow> bytes \<Rightarrow> bytes \<times> bool \<times> net_send list" where
  "send_loop ss [] = ([], False, ss)"
| "send_loop [] buf = (buf, False, [])"
| "send_loop (S_sent n # ss) buf =
     (let (sent, failed, ss') = send_loop ss (drop n buf) in (take n buf @ sent, failed, ss'))"
| "send_loop (S_retry # ss) buf = send_loop ss buf"
| "send_loop (S_fail # ss) buf = ([], True, ss)"

definition put_buffer :: "bytes \<Rightarrow> gdb_t \<Rightarrow> gdb_t" where
  "put_buffer buf s =
     (let (sent, failed, ss) = (if g_fd s < 0 then ([], buf \<noteq> [], g_send s) else send_loop (g_send s) buf);
          s' = s\<lparr>g_out := g_out s @ sent, g_send := ss\<rparr>
      in if failed then s'\<lparr>g_running := GDB_STATE_DETACH\<rparr> else s')"

fun insize :: "net_in list \<Rightarrow> nat" where
  "insize [] = 0"
| "insize (N_data bs # r) = 1 + length bs + insize r"
| "insize (x # r) = 1 + insize r"

lemma get_char_loop_insize: "get_char_loop i = (c, l, r) \<Longrightarrow> insize r \<le> insize i \<and> (c \<noteq> None \<longrightarrow> insize r < insize i)"
  by (induction i arbitrary: c l r rule: get_char_loop.induct) (auto split: if_splits)

lemma get_char_insize: "get_char s = (c, s') \<Longrightarrow> insize (g_in s') \<le> insize (g_in s)
    \<and> (c \<noteq> None \<longrightarrow> insize (g_in s') < insize (g_in s))"
  using get_char_loop_insize [of "g_in s"]
  by (auto simp: get_char_def split: if_splits prod.splits)

lemma put_buffer_in [simp]: "g_in (put_buffer b s) = g_in s" "g_fd (put_buffer b s) = g_fd s"
  by (auto simp: put_buffer_def Let_def split: prod.splits)

text \<open>The sum of the characters, which are signed.\<close>

definition csum :: "bytes \<Rightarrow> u32" where
  "csum buf = sum_list (map scast buf)"

definition packet :: "bytes \<Rightarrow> bytes" where
  "packet buf = [0x24] @ buf @ [0x23, tohex (unat (csum buf) div 16 mod 16), tohex (unat (csum buf) mod 16)]"

function put_packet_binary :: "bytes \<Rightarrow> gdb_t \<Rightarrow> (int \<times> gdb_t) result" where
  "put_packet_binary buf s =
     (if length buf + 4 > GDB_MAX_PACKET_LENGTH + 4 then Stop Undefined
      else case get_char (put_buffer (packet buf) (s\<lparr>g_last_packet := packet buf\<rparr>)) of
        (None, s') \<Rightarrow> Ok (- 1, s')
      | (Some c, s') \<Rightarrow> if c = 0x2B then Ok (0, s') else put_packet_binary buf s')"
  by pat_completeness auto
termination
proof (relation "measure (\<lambda>(buf, s). insize (g_in s))", goal_cases)
  case (2 buf s x y z)
  then show ?case using get_char_insize [of _ "Some z" y] by fastforce
qed simp

declare put_packet_binary.simps [simp del]

definition put_packet :: "bytes \<Rightarrow> gdb_t \<Rightarrow> gdb_t result" where
  "put_packet buf s = bind_result (put_packet_binary (takeWhile (\<lambda>c. c \<noteq> 0) buf) s) (\<lambda>(_, s'). Ok s')"

section \<open>Strings and numbers\<close>

type_synonym line = "nat \<Rightarrow> u8"

definition rd :: "line \<Rightarrow> nat \<Rightarrow> u8 result" where
  "rd f p = (if p < GDB_MAX_PACKET_LENGTH then Ok (f p) else Stop Undefined)"

text \<open>Whether the string at a position starts with the given characters (\<open>strncmp\<close> over all of
  them); for \<open>strcmp\<close> the terminating zero is one of them.\<close>

fun starts_with :: "line \<Rightarrow> nat \<Rightarrow> bytes \<Rightarrow> bool result" where
  "starts_with f p [] = Ok True"
| "starts_with f p (c # cs) =
     bind_result (rd f p) (\<lambda>x. if x = c then starts_with f (Suc p) cs else Ok False)"

definition is_space :: "u8 \<Rightarrow> bool" where
  "is_space c \<longleftrightarrow> c = 32 \<or> (9 \<le> c \<and> c \<le> 13)"

definition is_xdigit :: "u8 \<Rightarrow> bool" where
  "is_xdigit c \<longleftrightarrow> (48 \<le> c \<and> c \<le> 57) \<or> (65 \<le> c \<and> c \<le> 70) \<or> (97 \<le> c \<and> c \<le> 102)"

function skip_space :: "line \<Rightarrow> nat \<Rightarrow> nat result" where
  "skip_space f p =
     (if \<not> p < GDB_MAX_PACKET_LENGTH then Stop Undefined
      else if is_space (f p) then skip_space f (Suc p) else Ok p)"
  by pat_completeness auto
termination by (relation "measure (\<lambda>(f, p). GDB_MAX_PACKET_LENGTH - p)") auto

declare skip_space.simps [simp del]

function hex_digits :: "line \<Rightarrow> nat \<Rightarrow> nat \<Rightarrow> (nat \<times> nat) result" where
  "hex_digits f p acc =
     (if \<not> p < GDB_MAX_PACKET_LENGTH then Stop Undefined
      else if is_xdigit (f p) then hex_digits f (Suc p) (16 * acc + fromhex (f p)) else Ok (acc, p))"
  by pat_completeness auto
termination by (relation "measure (\<lambda>(f, p, acc). GDB_MAX_PACKET_LENGTH - p)") auto

declare hex_digits.simps [simp del]

text \<open>\<open>strtoull (p, &q, 16)\<close>: the value and the position behind the number.\<close>

definition hex_start :: "line \<Rightarrow> nat \<Rightarrow> nat result" where
  "hex_start f p =
     bind_result (rd f p) (\<lambda>c0.
     if c0 \<noteq> 0x30 then Ok p
     else bind_result (rd f (p + 1)) (\<lambda>c1.
       if c1 \<noteq> 0x78 \<and> c1 \<noteq> 0x58 then Ok p
       else bind_result (rd f (p + 2)) (\<lambda>c2. Ok (if is_xdigit c2 then p + 2 else p))))"

definition strtoull :: "line \<Rightarrow> nat \<Rightarrow> (u64 \<times> nat) result" where
  "strtoull f p =
     bind_result (skip_space f p) (\<lambda>p1.
     bind_result (rd f p1) (\<lambda>c.
     let neg = (c = 0x2D); p2 = (if c = 0x2D \<or> c = 0x2B then p1 + 1 else p1) in
     bind_result (hex_start f p2) (\<lambda>p3.
     bind_result (hex_digits f p3 0) (\<lambda>(n, q).
     if q = p3 then Ok (0, p)
     else if n \<ge> 2 ^ 64 then Ok (- 1, q)
     else Ok (if neg then - word_of_nat n else word_of_nat n, q)))))"

definition to_int :: "u64 \<Rightarrow> int" where
  "to_int x = sint (ucast x :: u32)"

text \<open>Skipping an optional separator.\<close>

definition skip_char :: "u8 \<Rightarrow> line \<Rightarrow> nat \<Rightarrow> nat result" where
  "skip_char c f p = bind_result (rd f p) (\<lambda>x. Ok (if x = c then p + 1 else p))"

text \<open>The conversions of \<open>printf\<close> that the replies use.\<close>

fun print_hex :: "nat \<Rightarrow> bytes" where
  "print_hex n = (if n < 16 then [tohex n] else print_hex (n div 16) @ [tohex (n mod 16)])"

declare print_hex.simps [simp del]

fun print_dec :: "nat \<Rightarrow> bytes" where
  "print_dec n = (if n < 10 then [word_of_nat (n + 48)] else print_dec (n div 10) @ [word_of_nat (n mod 10 + 48)])"

declare print_dec.simps [simp del]

definition print_int :: "int \<Rightarrow> bytes" where
  "print_int i = (if i < 0 then 0x2D # print_dec (nat (- i)) else print_dec (nat i))"

definition print_x :: "int \<Rightarrow> bytes" where
  "print_x i = print_hex (unat (word_of_int i :: u32))"

section \<open>Registers\<close>

definition NUM_CORE_REGS :: nat where "NUM_CORE_REGS = 26"

definition gdb_read_register :: "cpu_t \<Rightarrow> nat \<Rightarrow> bytes result" where
  "gdb_read_register cpu reg =
     (if reg < 16 then bind_result (arr_get (c_regs cpu) reg) (\<lambda>r. Ok (le32 (r_data r)))
      else if reg < 24 then Ok (replicate 12 0)
      else if reg = 24 then Ok (replicate 4 0)
      else if reg = 25 then Ok (le32 (r_data (c_cpsr cpu)))
      else Ok [])"

fun read_registers :: "cpu_t \<Rightarrow> nat list \<Rightarrow> bytes result" where
  "read_registers cpu [] = Ok []"
| "read_registers cpu (r # rs) =
     bind_result (gdb_read_register cpu r) (\<lambda>b. bind_result (read_registers cpu rs) (\<lambda>bs. Ok (b @ bs)))"

section \<open>Breakpoints and watchpoints\<close>

definition gdb_breakpoint_insert :: "u64 \<Rightarrow> u64 \<Rightarrow> int \<Rightarrow> gdb_t \<Rightarrow> gdb_t result" where
  "gdb_breakpoint_insert addr len type s =
     (if type = GDB_BREAKPOINT_SW \<or> type = GDB_BREAKPOINT_HW then
        bind_result (arr_set (g_bp_addr s) (g_bp_nb s) addr) (\<lambda>a. Ok (s\<lparr>g_bp_addr := a, g_bp_nb := g_bp_nb s + 1\<rparr>))
      else if type = GDB_WATCHPOINT_WRITE \<or> type = GDB_WATCHPOINT_READ \<or> type = GDB_WATCHPOINT_ACCESS then
        bind_result (arr_set (g_watch s) (g_watch_nb s) \<lparr>we_begin = addr, we_end = addr + len, we_type = type\<rparr>)
          (\<lambda>w. Ok (s\<lparr>g_watch := w, g_watch_nb := g_watch_nb s + 1\<rparr>))
      else Ok s)"

text \<open>The search and the shift of the following elements, for \<open>nb\<close> elements.\<close>

fun find_first :: "('a \<Rightarrow> bool) \<Rightarrow> 'a list \<Rightarrow> nat" where
  "find_first P [] = 0"
| "find_first P (x # xs) = (if P x then 0 else Suc (find_first P xs))"

fun shift_down :: "nat list \<Rightarrow> 'a list \<Rightarrow> 'a list" where
  "shift_down [] xs = xs"
| "shift_down (i # is) xs = shift_down is (xs[i := xs ! (i + 1)])"

definition remove_at :: "('a \<Rightarrow> bool) \<Rightarrow> nat \<Rightarrow> 'a list \<Rightarrow> nat \<times> 'a list" where
  "remove_at P nb xs =
     (let i = find_first P (take nb xs) in
      if i < nb then (nb - 1, shift_down [i..<nb - 1] xs) else (nb, xs))"

definition gdb_breakpoint_remove :: "u64 \<Rightarrow> u64 \<Rightarrow> int \<Rightarrow> gdb_t \<Rightarrow> gdb_t" where
  "gdb_breakpoint_remove addr len type s =
     (if type = GDB_BREAKPOINT_SW \<or> type = GDB_BREAKPOINT_HW then
        (let (nb, a) = remove_at (\<lambda>x. addr = x) (g_bp_nb s) (g_bp_addr s) in s\<lparr>g_bp_addr := a, g_bp_nb := nb\<rparr>)
      else if type = GDB_WATCHPOINT_WRITE \<or> type = GDB_WATCHPOINT_READ \<or> type = GDB_WATCHPOINT_ACCESS then
        (let (nb, w) = remove_at (\<lambda>x. addr = we_begin x \<and> addr + len = we_end x \<and> type = we_type x)
                         (g_watch_nb s) (g_watch s) in s\<lparr>g_watch := w, g_watch_nb := nb\<rparr>)
      else s)"

definition gdb_breakpoint_remove_all :: "gdb_t \<Rightarrow> gdb_t" where
  "gdb_breakpoint_remove_all s = s\<lparr>g_bp_nb := 0, g_watch_nb := 0\<rparr>"

definition gdb_continue :: "gdb_running \<Rightarrow> gdb_t \<Rightarrow> gdb_t" where
  "gdb_continue r s = s\<lparr>g_running := r\<rparr>"

section \<open>Commands\<close>

definition gdb_cpu :: "gdb_t \<Rightarrow> cpu_t result" where
  "gdb_cpu s = bind_result (initialised (g_cpu s)) (\<lambda>i. get_cpu i (g_dl s))"

definition cmd_halted :: "gdb_t \<Rightarrow> gdb_t result" where
  "cmd_halted s =
     bind_result (gdb_cpu s) (\<lambda>cpu.
     bind_result (put_packet (str ''T05thread:'' @ print_hex (unat (c_id cpu) + 1) @ str '';'') s) (\<lambda>s.
     Ok (gdb_breakpoint_remove_all s)))"

definition cmd_read_registers :: "gdb_t \<Rightarrow> gdb_t result" where
  "cmd_read_registers s =
     bind_result (gdb_cpu s) (\<lambda>cpu.
     bind_result (read_registers cpu [0..<NUM_CORE_REGS]) (\<lambda>b. put_packet (memtohex b) s))"

definition cmd_set_thread :: "nat \<Rightarrow> gdb_t \<Rightarrow> gdb_t result" where
  "cmd_set_thread p s =
     (let f = g_line_buf s in
      bind_result (rd f p) (\<lambda>type.
      bind_result (strtoull f (p + 1)) (\<lambda>(x, _).
      let thread = to_int x in
      if thread = - 1 \<or> thread = 0 then
        put_packet (str ''OK'') (if type = 0x63 then s\<lparr>g_c_cpu_index := - 1\<rparr> else s)
      else if type = 0x63 \<or> type = 0x67 then
        (if thread = - (2 ^ 31) then Stop Undefined
         else put_packet (str ''OK'') (if type = 0x63 then s\<lparr>g_c_cpu_index := thread - 1\<rparr>
                else s\<lparr>g_g_cpu_index := thread - 1\<rparr>))
      else put_packet (str ''E22'') s)))"

text \<open>\<open>mem_buf\<close> after the loop over \<open>n\<close> words: the words from \<open>mem_get_addr_value\<close> in front,
  then what was there.\<close>

fun read_words :: "nat \<Rightarrow> u64 \<Rightarrow> gdb_t \<Rightarrow> bytes" where
  "read_words 0 addr s = []"
| "read_words (Suc n) addr s = le32 (sa_value (dl_memory (g_dl s) (ucast addr))) @ read_words n (addr + 4) s"

definition fill_buf :: "(nat \<Rightarrow> u8) \<Rightarrow> bytes \<Rightarrow> nat \<Rightarrow> bytes" where
  "fill_buf junk bs len = map (\<lambda>i. if i < length bs then bs ! i else junk i) [0..<len]"

definition cmd_read_memory :: "(nat \<Rightarrow> u8) \<Rightarrow> nat \<Rightarrow> gdb_t \<Rightarrow> gdb_t result" where
  "cmd_read_memory junk p s =
     (let f = g_line_buf s in
      bind_result (strtoull f p) (\<lambda>(addr, p).
      bind_result (skip_char 0x2C f p) (\<lambda>p.
      bind_result (strtoull f p) (\<lambda>(l, _).
      let len = to_int l;
          n = (if len < 0 then 0 else if len div 4 = 0 then 1 else nat (len div 4)) in
      if 4 * n > GDB_MAX_PACKET_LENGTH then Stop Undefined
      else if 2 * nat len + 1 > GDB_MAX_PACKET_LENGTH then Stop Undefined
      else
        let bs = (if g_write_watchpoint s \<and> addr = g_watchpoint_address s
                  then le32 (ucast (g_watchpoint_new_value s)) else read_words n addr s)
        in put_packet (memtohex (fill_buf junk bs (nat len))) s))))"

definition report_cpuinfo :: "gdb_t \<Rightarrow> gdb_t result" where
  "report_cpuinfo s =
     (if g_query_cpu_index s < int (unat (o_n_cpu (g_dl s))) then
        bind_result (put_packet (str ''m'' @ print_x (g_query_cpu_index s + 1)) s) (\<lambda>s.
        Ok (s\<lparr>g_query_cpu_index := g_query_cpu_index s + 1\<rparr>))
      else put_packet (str ''l'') s)"

definition unknown_command :: "gdb_t \<Rightarrow> gdb_t result" where
  "unknown_command s = put_packet [] s"

definition cmd_extra_info :: "nat \<Rightarrow> gdb_t \<Rightarrow> gdb_t result" where
  "cmd_extra_info p s =
     bind_result (strtoull (g_line_buf s) p) (\<lambda>(x, _).
     let thread = to_int x in
     if thread > int (unat (o_n_cpu (g_dl s))) then put_packet (str ''E14'') s
     else put_packet (memtohex (str ''CPU '' @ print_int thread @ str '' ['' @
            (if g_state s \<noteq> RS_IDLE then str ''halted '' else str ''running'') @ str '']'')) s)"

definition cmd_query :: "nat \<Rightarrow> gdb_t \<Rightarrow> gdb_t result" where
  "cmd_query p s =
     (let f = g_line_buf s in
      bind_result (starts_with f p (str ''C'' @ [0])) (\<lambda>b.
      if b then put_packet (str ''QC1'') s
      else bind_result (starts_with f p (str ''Offsets'')) (\<lambda>b.
      if b then put_packet (str ''Text=0;Data=0;Bss=0'') s
      else bind_result (starts_with f p (str ''Supported'')) (\<lambda>b.
      if b then put_packet (str ''PacketSize='' @ print_hex GDB_MAX_PACKET_LENGTH @ str '';ReverseContinue+;ReverseStep+'') s
      else bind_result (starts_with f p (str ''fThreadInfo'' @ [0])) (\<lambda>b.
      if b then report_cpuinfo (s\<lparr>g_query_cpu_index := 0\<rparr>)
      else bind_result (starts_with f p (str ''sThreadInfo'' @ [0])) (\<lambda>b.
      if b then report_cpuinfo s
      else bind_result (starts_with f p (str ''ThreadExtraInfo,'')) (\<lambda>b.
      if b then cmd_extra_info (p + 16) s
      else unknown_command s)))))))"

definition cmd_step :: "nat \<Rightarrow> gdb_t \<Rightarrow> gdb_t result" where
  "cmd_step p s =
     bind_result (rd (g_line_buf s) p) (\<lambda>c.
     bind_result (if c \<noteq> 0 then bind_result (strtoull (g_line_buf s) p) (\<lambda>_. Ok ()) else Ok ()) (\<lambda>_.
     Ok (gdb_continue GDB_STATE_STEP s)))"

definition cmd_thread_alive :: "nat \<Rightarrow> gdb_t \<Rightarrow> gdb_t result" where
  "cmd_thread_alive p s =
     bind_result (strtoull (g_line_buf s) p) (\<lambda>(x, _).
     let thread = to_int x in
     if thread > 0 \<and> thread \<le> int (unat (o_n_cpu (g_dl s))) then put_packet (str ''OK'') s
     else put_packet (str ''E22'') s)"

definition cmd_vcont :: "nat \<Rightarrow> gdb_t \<Rightarrow> gdb_t result" where
  "cmd_vcont p s =
     (let f = g_line_buf s in
      bind_result (starts_with f p (str ''Cont'')) (\<lambda>b.
      if \<not> b then Ok s
      else let p = p + 4 in
      bind_result (starts_with f p (str ''?'' @ [0])) (\<lambda>b.
      if b then put_packet (str ''vCont;c;C;s;S'') s
      else bind_result (rd f p) (\<lambda>c.
      if c \<noteq> 0x3B then Ok s
      else bind_result (rd f (p + 1)) (\<lambda>c.
      if c = 0x63 then
        bind_result (rd f (p + 2)) (\<lambda>c.
        if c = 0x3A then
          bind_result (strtoull f (p + 3)) (\<lambda>(x, _).
          Ok (gdb_continue GDB_STATE_CONTINUE (s\<lparr>g_c_cpu_index := to_int (x - 1)\<rparr>)))
        else Ok (gdb_continue GDB_STATE_CONTINUE s))
      else if c = 0x73 then
        bind_result (rd f (p + 2)) (\<lambda>c.
        if c = 0x3A then
          (if g_write_watchpoint s then put_packet (str ''S05'') s
           else bind_result (strtoull f (p + 3)) (\<lambda>(x, _).
             Ok (gdb_continue GDB_STATE_STEP (s\<lparr>g_c_cpu_index := to_int (x - 1)\<rparr>))))
        else Ok (gdb_continue GDB_STATE_STEP s))
      else unknown_command s)))))"

definition cmd_backward :: "nat \<Rightarrow> gdb_t \<Rightarrow> gdb_t result" where
  "cmd_backward p s =
     bind_result (rd (g_line_buf s) p) (\<lambda>c.
     if c = 0x63 then Ok (gdb_continue GDB_STATE_REVERSE_CONTINUE s)
     else if c = 0x73 then Ok (gdb_continue GDB_STATE_REVERSE_STEP s)
     else unknown_command s)"

definition cmd_point :: "bool \<Rightarrow> nat \<Rightarrow> gdb_t \<Rightarrow> gdb_t result" where
  "cmd_point ins p s =
     (let f = g_line_buf s in
      bind_result (strtoull f p) (\<lambda>(ty, p).
      bind_result (skip_char 0x2C f p) (\<lambda>p.
      bind_result (strtoull f p) (\<lambda>(addr, p).
      bind_result (skip_char 0x2C f p) (\<lambda>p.
      bind_result (strtoull f p) (\<lambda>(l, _).
      let type = to_int ty; len = scast (ucast l :: u32) in
      bind_result (if ins then gdb_breakpoint_insert addr len type s
                   else Ok (gdb_breakpoint_remove addr len type s)) (\<lambda>s.
      put_packet (str ''OK'') s)))))))"

text \<open>The packet handler; its result \<open>RS_IDLE\<close> is stored by the caller.\<close>

definition gdb_handle_packet :: "(nat \<Rightarrow> u8) \<Rightarrow> gdb_t \<Rightarrow> gdb_t result" where
  "gdb_handle_packet junk s =
     bind_result (rd (g_line_buf s) 0) (\<lambda>ch.
     if ch = 0x3F then cmd_halted s
     else if ch = 0x63 \<or> ch = 0x43 then Ok (gdb_continue GDB_STATE_CONTINUE s)
     else if ch = 0x44 then put_packet (str ''OK'') (gdb_continue GDB_STATE_DETACH s)
     else if ch = 0x67 then cmd_read_registers s
     else if ch = 0x48 then cmd_set_thread 1 s
     else if ch = 0x6B then Stop (Exit 0)
     else if ch = 0x6D then cmd_read_memory junk 1 s
     else if ch = 0x47 \<or> ch = 0x4D \<or> ch = 0x70 \<or> ch = 0x50 then Ok s
     else if ch = 0x71 \<or> ch = 0x51 then cmd_query 1 s
     else if ch = 0x73 then cmd_step 1 s
     else if ch = 0x54 then cmd_thread_alive 1 s
     else if ch = 0x76 then cmd_vcont 1 s
     else if ch = 0x62 then cmd_backward 1 s
     else if ch = 0x5A then cmd_point True 1 s
     else if ch = 0x7A then cmd_point False 1 s
     else unknown_command s)"

section \<open>Parsing\<close>

definition gdb_read_byte :: "(nat \<Rightarrow> u8) \<Rightarrow> u8 \<Rightarrow> gdb_t \<Rightarrow> gdb_t result" where
  "gdb_read_byte junk ch s = (case g_state s of
     RS_IDLE \<Rightarrow> Ok (if ch = 0x24 then s\<lparr>g_line_buf_index := 0, g_state := RS_GETLINE\<rparr> else s)
   | RS_GETLINE \<Rightarrow>
       Ok (if ch = 0x23 then s\<lparr>g_state := RS_CHKSUM1\<rparr>
           else if g_line_buf_index s \<ge> GDB_MAX_PACKET_LENGTH - 1 then s\<lparr>g_state := RS_IDLE\<rparr>
           else s\<lparr>g_line_buf := (g_line_buf s)(g_line_buf_index s := ch), g_line_buf_index := g_line_buf_index s + 1\<rparr>)
   | RS_CHKSUM1 \<Rightarrow>
       if \<not> g_line_buf_index s < GDB_MAX_PACKET_LENGTH then Stop Undefined
       else Ok (s\<lparr>g_line_buf := (g_line_buf s)(g_line_buf_index s := 0), g_line_csum := 16 * fromhex ch,
                 g_state := RS_CHKSUM2\<rparr>)
   | RS_CHKSUM2 \<Rightarrow>
       let s = s\<lparr>g_line_csum := g_line_csum s + fromhex ch\<rparr>;
           sum = csum (map (g_line_buf s) [0..<g_line_buf_index s]) in
       if g_line_csum s \<noteq> unat (sum AND 0xff) then Ok ((put_buffer [0x2D] s)\<lparr>g_state := RS_IDLE\<rparr>)
       else bind_result (gdb_handle_packet junk (put_buffer [0x2B] s)) (\<lambda>s. Ok (s\<lparr>g_state := RS_IDLE\<rparr>)))"


section \<open>Stopping\<close>

lemma put_packet_binary_insize: "put_packet_binary b s = Ok (r, s') \<Longrightarrow> insize (g_in s') \<le> insize (g_in s)"
proof (induction b s arbitrary: r s' rule: put_packet_binary.induct)
  case (1 b s)
  obtain c t where c: "get_char (put_buffer (packet b) (s\<lparr>g_last_packet := packet b\<rparr>)) = (c, t)" by fastforce
  note le = get_char_insize [OF c]
  show ?case
    using 1 c le by (cases c) (fastforce simp: put_packet_binary.simps [of b s] split: if_splits)+
qed

lemma put_packet_insize: "put_packet b s = Ok s' \<Longrightarrow> insize (g_in s') \<le> insize (g_in s)"
  by (auto simp: put_packet_def dest: put_packet_binary_insize)

text \<open>What every command keeps: a relation between the state before and after that sending a
  packet and changing the fields of the commands keep.\<close>

locale command_frame =
  fixes R :: "gdb_t \<Rightarrow> gdb_t \<Rightarrow> bool"
  assumes R_refl: "R s s"
    and R_put: "put_packet b s' = Ok s'' \<Longrightarrow> R s s' \<Longrightarrow> R s s''"
    and R_c_cpu: "R s s' \<Longrightarrow> R s (s'\<lparr>g_c_cpu_index := i\<rparr>)"
    and R_g_cpu: "R s s' \<Longrightarrow> R s (s'\<lparr>g_g_cpu_index := i\<rparr>)"
    and R_query: "R s s' \<Longrightarrow> R s (s'\<lparr>g_query_cpu_index := i\<rparr>)"
    and R_running: "R s s' \<Longrightarrow> R s (s'\<lparr>g_running := r\<rparr>)"
    and R_points: "R s s' \<Longrightarrow> R s (s'\<lparr>g_bp_addr := a, g_bp_nb := n\<rparr>)"
    and R_watches: "R s s' \<Longrightarrow> R s (s'\<lparr>g_watch := w, g_watch_nb := n\<rparr>)"
    and R_clear: "R s s' \<Longrightarrow> R s (s'\<lparr>g_bp_nb := n, g_watch_nb := m\<rparr>)"
begin

lemmas R_intros = R_refl R_c_cpu R_g_cpu R_query R_running R_points R_watches R_clear

lemma R_small_commands:
  "cmd_halted s = Ok s' \<Longrightarrow> R s s'" "cmd_read_registers s = Ok s' \<Longrightarrow> R s s'"
  "cmd_set_thread p s = Ok s' \<Longrightarrow> R s s'" "cmd_read_memory junk p s = Ok s' \<Longrightarrow> R s s'"
  "unknown_command s = Ok s' \<Longrightarrow> R s s'" "cmd_extra_info p s = Ok s' \<Longrightarrow> R s s'"
  "cmd_step p s = Ok s' \<Longrightarrow> R s s'" "cmd_thread_alive p s = Ok s' \<Longrightarrow> R s s'" "cmd_backward p s = Ok s' \<Longrightarrow> R s s'"
  by (auto simp: cmd_halted_def gdb_breakpoint_remove_all_def cmd_read_registers_def cmd_set_thread_def
      cmd_read_memory_def unknown_command_def cmd_extra_info_def cmd_step_def gdb_continue_def
      cmd_thread_alive_def cmd_backward_def Let_def split: if_split_asm prod.splits intro: R_intros R_put)

lemma R_report: "report_cpuinfo s = Ok s' \<Longrightarrow> R t s \<Longrightarrow> R t s'"
  by (auto simp: report_cpuinfo_def split: if_split_asm intro: R_intros R_put)

lemma R_query_command: "cmd_query p s = Ok s' \<Longrightarrow> R s s'"
  by (auto simp: cmd_query_def Let_def split: if_split_asm intro: R_intros R_put R_small_commands R_report)

lemma R_vcont: "cmd_vcont p s = Ok s' \<Longrightarrow> R s s'"
  by (auto simp: cmd_vcont_def gdb_continue_def Let_def split: if_split_asm intro: R_intros R_put R_small_commands)

lemma R_point: "cmd_point ins p s = Ok s' \<Longrightarrow> R s s'"
  by (auto simp: cmd_point_def gdb_breakpoint_insert_def gdb_breakpoint_remove_def Let_def
      split: if_split_asm prod.splits intro: R_intros R_put)

lemma R_handle_packet: "gdb_handle_packet junk s = Ok s' \<Longrightarrow> R s s'"
  by (auto simp: gdb_handle_packet_def gdb_continue_def split: if_split_asm
      intro: R_intros R_put R_small_commands R_query_command R_vcont R_point)

end

definition consumes :: "gdb_t \<Rightarrow> gdb_t \<Rightarrow> bool" where
  "consumes s s' \<longleftrightarrow> insize (g_in s') \<le> insize (g_in s)"

interpretation input: command_frame consumes
  by unfold_locales (auto simp: consumes_def dest: put_packet_insize)

lemma handle_packet_insize: "gdb_handle_packet junk s = Ok s' \<Longrightarrow> insize (g_in s') \<le> insize (g_in s)"
  using input.R_handle_packet by (simp add: consumes_def)

lemma read_byte_insize: "gdb_read_byte junk c s = Ok s' \<Longrightarrow> insize (g_in s') \<le> insize (g_in s)"
  by (auto simp: gdb_read_byte_def Let_def split: RSState.splits if_split_asm dest!: handle_packet_insize)

lemma read_bytes_insize:
  "fold_result (gdb_read_byte junk) cs s = Ok s' \<Longrightarrow> insize (g_in s') \<le> insize (g_in s)"
  by (induction cs arbitrary: s) (auto dest!: read_byte_insize intro: order_trans)

text \<open>The inner loop of \<open>gdb_loop\<close>: packets are read until one of them lets the program run.\<close>

function (sequential) gdb_session :: "(nat \<Rightarrow> u8) \<Rightarrow> gdb_t \<Rightarrow> gdb_t result" where
  "gdb_session junk s =
     (if g_running s \<noteq> GDB_STATE_CONTROL then Ok s
      else if g_fd s < 0 then Ok (s\<lparr>g_running := GDB_STATE_DETACH\<rparr>)
      else case g_in s of
        N_data bs # r \<Rightarrow>
          bind_result (fold_result (gdb_read_byte junk) (take 256 bs)
            (s\<lparr>g_in := (if length bs \<le> 256 then r else N_data (drop 256 bs) # r)\<rparr>)) (gdb_session junk)
      | N_again # r \<Rightarrow> gdb_session junk (s\<lparr>g_in := r\<rparr>)
      | _ \<Rightarrow> Ok (s\<lparr>g_running := GDB_STATE_DETACH\<rparr>))"
  by pat_completeness auto
termination
proof (relation "measure (\<lambda>(junk, s). insize (g_in s))", goal_cases)
  case (2 junk s x xs bs y)
  then show ?case using read_bytes_insize [OF 2(5)] by (auto split: if_splits)
next
  case (3 junk s x xs)
  then show ?case by simp
qed simp

declare gdb_session.simps [simp del]

definition watch_name :: "int \<Rightarrow> bytes result" where
  "watch_name t = (if t = GDB_WATCHPOINT_WRITE then Ok (str ''watch'')
     else if t = GDB_WATCHPOINT_READ then Ok (str ''rwatch'')
     else if t = GDB_WATCHPOINT_ACCESS then Ok (str ''awatch'') else Stop Undefined)"

definition reg_reply :: "string \<Rightarrow> u32 \<Rightarrow> bytes" where
  "reg_reply n v = str n @ str '':'' @ memtohex (le32 v) @ str '';''"

definition stop_registers :: "cpu_t \<Rightarrow> bytes result" where
  "stop_registers cpu =
     bind_result (arr_get (c_regs cpu) 15) (\<lambda>pc.
     bind_result (arr_get (c_regs cpu) 13) (\<lambda>sp.
     bind_result (arr_get (c_regs cpu) 14) (\<lambda>lr.
     Ok (reg_reply ''0f'' (r_data pc) @ reg_reply ''0d'' (r_data sp) @ reg_reply ''19'' (r_data (c_cpsr cpu))
         @ reg_reply ''0e'' (r_data lr)))))"

definition stop_watch :: "nat option \<Rightarrow> bool \<Rightarrow> u64 \<Rightarrow> gdb_t \<Rightarrow> (bytes \<times> gdb_t) result" where
  "stop_watch idx bwrite new_val s = (case idx of
     None \<Rightarrow> Ok ([], s)
   | Some i \<Rightarrow>
       bind_result (arr_get (g_watch s) i) (\<lambda>w.
       bind_result (watch_name (we_type w)) (\<lambda>n.
       Ok (n @ str '':'' @ print_hex (unat (we_begin w)) @ str '';'',
           if bwrite then s\<lparr>g_write_watchpoint := True, g_watchpoint_new_value := new_val,
                           g_watchpoint_address := we_begin w\<rparr> else s))))"

definition stop_reply :: "nat option \<Rightarrow> bool \<Rightarrow> u64 \<Rightarrow> u16 \<Rightarrow> gdb_t \<Rightarrow> gdb_t result" where
  "stop_reply idx bwrite new_val cpu_i s =
     bind_result (gdb_cpu s) (\<lambda>cpu.
     bind_result (stop_registers cpu) (\<lambda>regs.
     bind_result (stop_watch idx bwrite new_val s) (\<lambda>(w, s).
     put_packet (str ''T05'' @ regs @ w @ str ''thread:'' @ print_hex (unat cpu_i + 1) @ str '';'') s)))"

definition gdb_loop :: "(nat \<Rightarrow> u8) \<Rightarrow> nat option \<Rightarrow> bool \<Rightarrow> u64 \<Rightarrow> u16 \<Rightarrow> gdb_t \<Rightarrow> gdb_t result" where
  "gdb_loop junk idx bwrite new_val cpu_i s =
     bind_result (arr_get (o_cpu (g_dl s)) (unat cpu_i)) (\<lambda>c.
     let s = s\<lparr>g_write_watchpoint := False, g_cpu := c\<rparr> in
     bind_result (if g_running s \<noteq> GDB_STATE_INIT then stop_reply idx bwrite new_val cpu_i s else Ok s) (\<lambda>s.
     if g_running s = GDB_STATE_DETACH then Ok s
     else gdb_session junk (s\<lparr>g_g_cpu_index := int (unat cpu_i), g_state := RS_IDLE, g_running := GDB_STATE_CONTROL\<rparr>)))"

definition gdb_condition :: "u32 \<Rightarrow> gdb_t \<Rightarrow> nat" where
  "gdb_condition addr s =
     (if g_running s = GDB_STATE_DETACH then 0
      else if g_running s = GDB_STATE_STEP \<or> g_running s = GDB_STATE_INIT \<or> g_running s = GDB_STATE_REVERSE_STEP then 1
      else if find_first (\<lambda>x. ucast addr = x) (take (g_bp_nb s) (g_bp_addr s)) < g_bp_nb s then 2
      else 0)"

definition gdb_exec_direction :: "gdb_t \<Rightarrow> bool" where
  "gdb_exec_direction s \<longleftrightarrow> g_running s = GDB_STATE_REVERSE_CONTINUE \<or> g_running s = GDB_STATE_REVERSE_STEP"

text \<open>The parameter of \<open>gdb_verify\<close> is a union: \<open>cpu.pc\<close> and \<open>mem.addr\<close> share their place.\<close>

record gdb_param_t =
  pm_id :: u16
  pm_ref :: "u16 option"
  pm_word :: u32
  pm_val :: "u32 option"

definition set_param :: "gdb_param \<Rightarrow> gdb_param_t \<Rightarrow> gdb_param_t" where
  "set_param p m = (case p of P_none \<Rightarrow> m | P_cpu i pc \<Rightarrow> m\<lparr>pm_id := i, pm_word := pc\<rparr>
     | P_mem i a v \<Rightarrow> m\<lparr>pm_id := i, pm_word := a, pm_val := Some v\<rparr>)"

definition gdb_move :: "comp_type_t \<Rightarrow> gdb_param_t \<Rightarrow> gdb_t \<Rightarrow> (comp_type_t \<times> gdb_param_t \<times> gdb_t) result" where
  "gdb_move ty pm s =
     (if gdb_exec_direction s then
        bind_result (oracle_reverse_exec (g_dl s)) (\<lambda>(ty, p, d). Ok (ty, set_param p pm, s\<lparr>g_dl := d\<rparr>))
      else
        bind_result (oracle_get_trace (g_dl s)) (\<lambda>tr.
        if \<not> tr then
          bind_result (oracle_forward_exec (g_dl s)) (\<lambda>(ty, p, d). Ok (ty, set_param p pm, s\<lparr>g_dl := d\<rparr>))
        else Ok (ty, pm, s)))"

definition watch_hit :: "u32 \<Rightarrow> watch_el_t \<Rightarrow> bool" where
  "watch_hit addr w \<longleftrightarrow> ucast addr \<ge> we_begin w \<and> ucast addr < we_end w \<and>
     (we_type w = GDB_WATCHPOINT_WRITE \<or> we_type w = GDB_WATCHPOINT_ACCESS)"

definition gdb_stop :: "(nat \<Rightarrow> u8) \<Rightarrow> comp_type_t \<Rightarrow> gdb_param_t \<Rightarrow> gdb_t \<Rightarrow> gdb_t result" where
  "gdb_stop junk ty pm s = (case ty of
     COMP_CPU \<Rightarrow> if gdb_condition (pm_word pm) s \<noteq> 0 then gdb_loop junk None False 0 (pm_id pm) s else Ok s
   | COMP_MEM \<Rightarrow>
       let i = find_first (watch_hit (pm_word pm)) (take (g_watch_nb s) (g_watch s)) in
       if i < g_watch_nb s then
         bind_result (initialised (pm_val pm)) (\<lambda>v.
         bind_result (initialised (pm_ref pm)) (\<lambda>r. gdb_loop junk (Some i) True (ucast v) r s))
       else Ok s
   | _ \<Rightarrow> Ok s)"

definition gdb_again :: "gdb_t \<Rightarrow> bool result" where
  "gdb_again s = (if gdb_exec_direction s then Ok True
     else bind_result (oracle_get_trace (g_dl s)) (\<lambda>tr. Ok (\<not> tr)))"

definition gdb_verify_step ::
  "(nat \<Rightarrow> u8) \<Rightarrow> comp_type_t \<Rightarrow> gdb_param_t \<Rightarrow> gdb_t \<Rightarrow> (bool \<times> comp_type_t \<times> gdb_param_t \<times> gdb_t) result" where
  "gdb_verify_step junk ty pm s =
     bind_result (gdb_move ty pm s) (\<lambda>(ty, pm, s).
     bind_result (gdb_stop junk ty pm s) (\<lambda>s.
     bind_result (gdb_again s) (\<lambda>b. Ok (b, ty, pm, s))))"

text \<open>The loop of \<open>gdb_verify\<close> may run forever; \<open>None\<close> is that it does not return.\<close>

partial_function (option) gdb_verify ::
  "(nat \<Rightarrow> u8) \<Rightarrow> comp_type_t \<Rightarrow> gdb_param_t \<Rightarrow> gdb_t \<Rightarrow> gdb_t result option" where
  "gdb_verify junk ty pm s =
     (let r = gdb_verify_step junk ty pm s in
      if isl r then Some (Stop (projl r))
      else if fst (projr r)
           then gdb_verify junk (fst (snd (projr r))) (fst (snd (snd (projr r)))) (snd (snd (snd (projr r))))
           else Some (Ok (snd (snd (snd (projr r))))))"

text \<open>\<open>gdb_start_and_wait\<close> once the socket is open and a debugger has connected, and \<open>gdb_process\<close>.\<close>

definition gdb_start_and_wait :: "int \<Rightarrow> int \<Rightarrow> gdb_t \<Rightarrow> int \<times> gdb_t" where
  "gdb_start_and_wait srv fd s =
     (if srv < 0 then (- 1, s\<lparr>g_running := GDB_STATE_DETACH, g_srv_sock_fd := srv\<rparr>)
      else (0, s\<lparr>g_srv_sock_fd := srv, g_fd := fd, g_running := GDB_STATE_INIT, g_c_cpu_index := - 1\<rparr>))"

definition gdb_process :: "(nat \<Rightarrow> u8) \<Rightarrow> cpu_t \<Rightarrow> u32 \<Rightarrow> gdb_t \<Rightarrow> gdb_t result option" where
  "gdb_process junk cpu pc s =
     gdb_verify junk COMP_CPU \<lparr>pm_id = ucast (c_id cpu), pm_ref = None, pm_word = pc, pm_val = None\<rparr> s"

end
