(* ===== verification/Gdb_Protocol.thy ===== *)
theory Gdb_Protocol
  imports Gdb_Stub "HOL-Library.Code_Target_Nat"
begin

text \<open>
  The packets of the debugger: what is sent is what is parsed, a wrong checksum is refused, the
  line buffer is never overrun, and a reply is repeated until it is acknowledged.
\<close>

section \<open>Hexadecimal digits\<close>

lemma unat_tohex: "n < 16 \<Longrightarrow> unat (tohex n) = (if n < 10 then n + 48 else n + 87)"
  by (auto simp: tohex_def unat_of_nat simp del: of_nat_add)

lemma fromhex_tohex [simp]: "n < 16 \<Longrightarrow> fromhex (tohex n) = n"
  by (auto simp: fromhex_def Let_def unat_tohex)

lemma fromhex_less: "fromhex c < 16"
  by (auto simp: fromhex_def Let_def)

text \<open>Reading a hexadecimal dump back.\<close>

fun hextomem :: "bytes \<Rightarrow> bytes" where
  "hextomem (a # b # r) = word_of_nat (16 * fromhex a + fromhex b) # hextomem r"
| "hextomem _ = []"

lemma hextomem_memtohex: "hextomem (memtohex bs) = bs"
proof (induction bs)
  case (Cons c cs)
  have "unat c div 16 < 16" using unsigned_less [of c, where ?'a = nat] by (simp add: less_mult_imp_div_less)
  then show ?case using Cons by simp
qed simp

lemma length_memtohex [simp]: "length (memtohex bs) = 2 * length bs"
  by (induction bs) auto

lemma tohex_nonzero: "n < 16 \<Longrightarrow> tohex n \<noteq> 0 \<and> tohex n \<noteq> 0x23"
  using unat_tohex [of n] by (auto split: if_splits)

lemma memtohex_nonzero: "c \<in> set (memtohex bs) \<Longrightarrow> c \<noteq> 0"
proof (induction bs)
  case (Cons b bs)
  have "unat b div 16 < 16" using unsigned_less [of b, where ?'a = nat] by (simp add: less_mult_imp_div_less)
  then show ?case using Cons tohex_nonzero [of "unat b div 16"] tohex_nonzero [of "unat b mod 16"] by auto
qed simp

section \<open>Checksums\<close>

lemma take_bit_scast: "take_bit 8 (scast (b :: u8) :: u32) = ucast b"
proof (rule bit_word_eqI)
  fix n assume "n < LENGTH(32)"
  show "bit (take_bit 8 (scast b :: u32)) n = bit (ucast b :: u32) n"
    using bit_imp_le_length [of b n] by (cases "n < 7"; cases "n = 7") (auto simp: bit_simps min_def)
qed

lemma unat_scast_mod: "unat (scast (b :: u8) :: u32) mod 256 = unat b"
proof -
  have "unat (take_bit 8 (scast b :: u32)) = unat b"
    unfolding take_bit_scast by (simp add: unsigned_ucast_eq take_bit_nat_eq_self order.strict_trans [OF unat_u8_less])
  then show ?thesis by (simp add: take_bit_eq_mod unat_mod)
qed

lemma csum_mod: "unat (csum buf) mod 256 = sum_list (map unat buf) mod 256"
proof (induction buf)
  case (Cons b bs)
  have "unat (csum (b # bs)) mod 256 = (unat (scast b :: u32) + unat (csum bs)) mod 256"
    by (simp add: csum_def unat_word_ariths mod_mod_cancel)
  also have "\<dots> = (unat (scast b :: u32) mod 256 + unat (csum bs) mod 256) mod 256"
    by (simp add: mod_add_eq)
  also have "\<dots> = (unat b + sum_list (map unat bs)) mod 256"
    unfolding unat_scast_mod Cons by (simp add: mod_add_right_eq)
  finally show ?case by simp
qed (simp add: csum_def)

lemma csum_and: "unat (csum buf AND 0xff) = sum_list (map unat buf) mod 256"
proof -
  have "csum buf AND 0xff = take_bit 8 (csum buf)" by (simp add: take_bit_eq_mask mask_eq_exp_minus_1)
  then show ?thesis by (simp add: csum_mod [symmetric] take_bit_eq_mod unat_mod)
qed

section \<open>Parsing a packet\<close>

definition put_line :: "bytes \<Rightarrow> line \<Rightarrow> line" where
  "put_line buf f = (\<lambda>k. if k < length buf then buf ! k else f k)"

lemma put_line_snoc: "(put_line buf f)(length buf := c) = put_line (buf @ [c]) f"
  by (auto simp: put_line_def fun_eq_iff nth_append)

lemma map_put_line: "map (put_line buf f) [0..<length buf] = buf"
  by (auto simp: put_line_def intro: nth_equalityI)

lemma bind_fold_Nil: "bind_result r (fold_result f []) = r"
  by (cases r) simp_all

lemma read_line:
  assumes "0x23 \<notin> set cs" "length buf + length cs < GDB_MAX_PACKET_LENGTH"
  shows "fold_result (gdb_read_byte junk) cs
      (s\<lparr>g_line_buf := put_line buf f, g_line_buf_index := length buf, g_state := RS_GETLINE\<rparr>) =
    Ok (s\<lparr>g_line_buf := put_line (buf @ cs) f, g_line_buf_index := length buf + length cs, g_state := RS_GETLINE\<rparr>)"
  using assms
proof (induction cs arbitrary: buf)
  case (Cons c cs)
  have "gdb_read_byte junk c (s\<lparr>g_line_buf := put_line buf f, g_line_buf_index := length buf, g_state := RS_GETLINE\<rparr>)
    = Ok (s\<lparr>g_line_buf := put_line (buf @ [c]) f, g_line_buf_index := length (buf @ [c]), g_state := RS_GETLINE\<rparr>)"
    using Cons.prems by (simp add: gdb_read_byte_def put_line_snoc)
  then show ?case using Cons.IH [of "buf @ [c]"] Cons.prems by simp
qed simp

text \<open>The state in which the handler of a line runs.\<close>

definition with_line :: "bytes \<Rightarrow> nat \<Rightarrow> gdb_t \<Rightarrow> gdb_t" where
  "with_line buf chk s = s\<lparr>g_line_buf := put_line (buf @ [0]) (g_line_buf s), g_line_buf_index := length buf,
     g_state := RS_CHKSUM2, g_line_csum := chk\<rparr>"

lemma packet_parsed_sum:
  assumes "g_state s = RS_IDLE" "0x23 \<notin> set buf" "length buf < GDB_MAX_PACKET_LENGTH"
  shows "fold_result (gdb_read_byte junk) (0x24 # buf @ [0x23, c1, c2]) s =
    (let s' = with_line buf (16 * fromhex c1 + fromhex c2) s in
     if 16 * fromhex c1 + fromhex c2 = sum_list (map unat buf) mod 256
     then bind_result (gdb_handle_packet junk (put_buffer [0x2B] s')) (\<lambda>t. Ok (t\<lparr>g_state := RS_IDLE\<rparr>))
     else Ok ((put_buffer [0x2D] s')\<lparr>g_state := RS_IDLE\<rparr>))"
proof -
  let ?s1 = "s\<lparr>g_line_buf := put_line [] (g_line_buf s), g_line_buf_index := length ([] :: bytes), g_state := RS_GETLINE\<rparr>"
  have idle: "gdb_read_byte junk 0x24 s = Ok ?s1"
    using assms(1) by (simp add: gdb_read_byte_def put_line_def)
  have line: "fold_result (gdb_read_byte junk) buf ?s1 =
      Ok (s\<lparr>g_line_buf := put_line buf (g_line_buf s), g_line_buf_index := length buf, g_state := RS_GETLINE\<rparr>)"
    using read_line [where cs = buf and buf = "[]" and f = "g_line_buf s" and s = s and junk = junk] assms(2,3) by simp
  have hash: "gdb_read_byte junk 0x23 (s\<lparr>g_line_buf := put_line buf (g_line_buf s), g_line_buf_index := length buf,
        g_state := RS_GETLINE\<rparr>) =
      Ok (s\<lparr>g_line_buf := put_line buf (g_line_buf s), g_line_buf_index := length buf, g_state := RS_CHKSUM1\<rparr>)"
    by (simp add: gdb_read_byte_def)
  have digit1: "gdb_read_byte junk c1 (s\<lparr>g_line_buf := put_line buf (g_line_buf s), g_line_buf_index := length buf,
        g_state := RS_CHKSUM1\<rparr>) = Ok (with_line buf (16 * fromhex c1) s)"
    using assms(3) by (cases s) (simp add: gdb_read_byte_def put_line_snoc with_line_def)
  have map: "map (put_line (buf @ [0]) f) [0..<length buf] = buf" for f
    by (auto simp: put_line_def nth_append intro: nth_equalityI)
  have digit2: "gdb_read_byte junk c2 (with_line buf (16 * fromhex c1) s) =
    (let s' = with_line buf (16 * fromhex c1 + fromhex c2) s in
     if 16 * fromhex c1 + fromhex c2 = sum_list (map unat buf) mod 256
     then bind_result (gdb_handle_packet junk (put_buffer [0x2B] s')) (\<lambda>t. Ok (t\<lparr>g_state := RS_IDLE\<rparr>))
     else Ok ((put_buffer [0x2D] s')\<lparr>g_state := RS_IDLE\<rparr>))"
    using csum_and [of buf] by (simp add: gdb_read_byte_def with_line_def map Let_def)
  show ?thesis
    using idle line hash digit1 digit2 by (simp add: bind_fold_Nil)
qed

text \<open>C22: A packet that arrives byte by byte is acknowledged and handled exactly when its two
  digits are the sum of its characters modulo 256; else the debugger is asked to repeat it. Either
  way the parser waits for the next packet afterwards.\<close>

theorem packet_parsed:
  assumes "g_state s = RS_IDLE" "0x23 \<notin> set buf" "length buf < GDB_MAX_PACKET_LENGTH"
  shows "fold_result (gdb_read_byte junk) (0x24 # buf @ [0x23, c1, c2]) s =
    (let s' = with_line buf (16 * fromhex c1 + fromhex c2) s in
     if 16 * fromhex c1 + fromhex c2 = sum_list (map unat buf) mod 256
     then bind_result (gdb_handle_packet junk (put_buffer [0x2B] s')) (\<lambda>t. Ok (t\<lparr>g_state := RS_IDLE\<rparr>))
     else Ok ((put_buffer [0x2D] s')\<lparr>g_state := RS_IDLE\<rparr>))"
  using packet_parsed_sum [OF assms] .

text \<open>C23: What the encoder frames the parser hands to the command handler unchanged.\<close>

theorem packet_round_trip:
  assumes "g_state s = RS_IDLE" "0x23 \<notin> set buf" "length buf < GDB_MAX_PACKET_LENGTH"
  shows "fold_result (gdb_read_byte junk) (packet buf) s =
    bind_result (gdb_handle_packet junk (put_buffer [0x2B] (with_line buf (sum_list (map unat buf) mod 256) s)))
      (\<lambda>t. Ok (t\<lparr>g_state := RS_IDLE\<rparr>))"
proof -
  define n where "n = unat (csum buf)"
  have "16 * (n div 16 mod 16) + n mod 16 = n mod 256"
    using mod_mult2_eq [of n 16 16] by (simp add: algebra_simps)
  then have "16 * (n div 16 mod 16) + n mod 16 = sum_list (map unat buf) mod 256"
    using csum_mod [of buf] by (simp add: n_def)
  then show ?thesis
    using packet_parsed_sum [OF assms, of junk "tohex (n div 16 mod 16)" "tohex (n mod 16)"]
    by (simp add: packet_def n_def)
qed

text \<open>A stub that waits for packets, for the examples.\<close>

definition demo_gdb :: gdb_t where
  "demo_gdb = \<lparr>g_fd = 4, g_srv_sock_fd = 3, g_c_cpu_index = - 1, g_g_cpu_index = 0, g_query_cpu_index = 0,
     g_state = RS_IDLE, g_running = GDB_STATE_CONTROL, g_line_buf = (\<lambda>_. 0), g_line_buf_index = 0, g_line_csum = 0,
     g_last_packet = [], g_cpu = None, g_bp_addr = replicate 100 0, g_bp_nb = 0,
     g_watch = replicate 100 \<lparr>we_begin = 0, we_end = 0, we_type = 0\<rparr>, g_watch_nb = 0, g_write_watchpoint = False,
     g_watchpoint_new_value = 0, g_watchpoint_address = 0, g_in = [N_data [0x2B]], g_send = [], g_out = [],
     g_dl = \<lparr>dl_nodes = (\<lambda>_. None), dl_fresh = 0, dl_cpus = (\<lambda>_. None), dl_mems = (\<lambda>_. None),
       dl_memory = (\<lambda>_. zero_addr None), o_n_cpu = 0, o_n_mem = 0, o_cpu = [], o_mem = [], o_last_exec = None\<rparr>\<rparr>"

theorem packet_parsed_witness:
  "fold_result (gdb_read_byte (\<lambda>_. 0)) (0x24 # str ''bc'' @ [0x23, 0x63, 0x35]) demo_gdb =
     bind_result (gdb_handle_packet (\<lambda>_. 0) (put_buffer [0x2B] (with_line (str ''bc'') 0xC5 demo_gdb)))
       (\<lambda>t. Ok (t\<lparr>g_state := RS_IDLE\<rparr>))
   \<and> fold_result (gdb_read_byte (\<lambda>_. 0)) (0x24 # str ''bc'' @ [0x23, 0x63, 0x36]) demo_gdb =
     Ok ((put_buffer [0x2D] (with_line (str ''bc'') 0xC6 demo_gdb))\<lparr>g_state := RS_IDLE\<rparr>)"
  using packet_parsed [of demo_gdb "str ''bc''" "\<lambda>_. 0" "0x63" "0x35"]
    packet_parsed [of demo_gdb "str ''bc''" "\<lambda>_. 0" "0x63" "0x36"]
  by (simp add: demo_gdb_def str_def GDB_MAX_PACKET_LENGTH_def fromhex_def of_char_def)

theorem packet_round_trip_witness:
  "fold_result (gdb_read_byte (\<lambda>_. 0)) (packet (str ''bs'')) demo_gdb =
     bind_result (gdb_handle_packet (\<lambda>_. 0) (put_buffer [0x2B] (with_line (str ''bs'') 0xD5 demo_gdb)))
       (\<lambda>t. Ok (t\<lparr>g_state := RS_IDLE\<rparr>))"
  using packet_round_trip [of demo_gdb "str ''bs''" "\<lambda>_. 0"]
  by (simp add: demo_gdb_def str_def GDB_MAX_PACKET_LENGTH_def of_char_def)

section \<open>The line buffer\<close>

definition same_line :: "gdb_t \<Rightarrow> gdb_t \<Rightarrow> bool" where
  "same_line s s' \<longleftrightarrow> g_line_buf s' = g_line_buf s \<and> g_line_buf_index s' = g_line_buf_index s
     \<and> g_state s' = g_state s \<and> g_dl s' = g_dl s \<and> g_line_csum s' = g_line_csum s"

lemma put_buffer_same: "same_line s s' \<Longrightarrow> same_line s (put_buffer b s')"
  by (auto simp: same_line_def put_buffer_def Let_def split: prod.splits)

lemma get_char_same: "get_char s' = (c, s'') \<Longrightarrow> same_line s s' \<Longrightarrow> same_line s s''"
  by (auto simp: same_line_def get_char_def split: if_splits prod.splits)

lemma put_packet_same: "put_packet_binary b s' = Ok (r, s'') \<Longrightarrow> same_line s s' \<Longrightarrow> same_line s s''"
proof (induction b s' arbitrary: r s'' rule: put_packet_binary.induct)
  case (1 b t)
  obtain c u where c: "get_char (put_buffer (packet b) (t\<lparr>g_last_packet := packet b\<rparr>)) = (c, u)" by fastforce
  have "same_line s (t\<lparr>g_last_packet := packet b\<rparr>)" using 1(3) by (simp add: same_line_def)
  then have "same_line s u" using c get_char_same put_buffer_same by blast
  then show ?case
    using 1 c by (cases c) (auto simp: put_packet_binary.simps [of b t] split: if_splits)
qed

interpretation lines: command_frame same_line
  by unfold_locales (auto simp: same_line_def put_packet_def dest: put_packet_same [unfolded same_line_def])

lemma read_byte_index:
  assumes "gdb_read_byte junk c s = Ok s'" "g_line_buf_index s < GDB_MAX_PACKET_LENGTH"
  shows "g_line_buf_index s' < GDB_MAX_PACKET_LENGTH"
  using assms lines.R_handle_packet
  by (auto simp: gdb_read_byte_def Let_def same_line_def put_buffer_def split: RSState.splits if_split_asm prod.splits)

lemma read_byte_dl: "gdb_read_byte junk c s = Ok s' \<Longrightarrow> g_dl s' = g_dl s"
  using lines.R_handle_packet
  by (auto simp: gdb_read_byte_def Let_def same_line_def put_buffer_def split: RSState.splits if_split_asm prod.splits)

text \<open>C24: Whatever bytes arrive, the line buffer is not overrun and the bytes that frame a packet
  are always accepted: only the command of a complete packet can end the program.\<close>

theorem line_buffer_bounded:
  assumes "g_line_buf_index s < GDB_MAX_PACKET_LENGTH" "fold_result (gdb_read_byte junk) cs s = Ok s'"
  shows "g_line_buf_index s' < GDB_MAX_PACKET_LENGTH
    \<and> (g_state s' \<noteq> RS_CHKSUM2 \<longrightarrow> (\<exists>t. gdb_read_byte junk c s' = Ok t))"
proof -
  have "g_line_buf_index s' < GDB_MAX_PACKET_LENGTH"
    using assms read_byte_index by (rule_tac fold_result_invariant [where xs = cs and s = s and f = "gdb_read_byte junk"]) auto
  then show ?thesis by (cases "g_state s'") (auto simp: gdb_read_byte_def)
qed

theorem line_buffer_bounded_witness:
  "\<exists>s'. fold_result (gdb_read_byte (\<lambda>_. 0)) (str ''$vCo'') demo_gdb = Ok s' \<and> g_line_buf_index s' < GDB_MAX_PACKET_LENGTH"
proof -
  have "\<not> isl (fold_result (gdb_read_byte (\<lambda>_. 0)) (str ''$vCo'') demo_gdb)" by code_simp
  then obtain s' where s': "fold_result (gdb_read_byte (\<lambda>_. 0)) (str ''$vCo'') demo_gdb = Ok s'"
    by (metis sum.collapse(2))
  then show ?thesis
    using line_buffer_bounded [OF _ s'] by (simp add: demo_gdb_def GDB_MAX_PACKET_LENGTH_def)
qed

lemma session_result:
  "gdb_session junk s = Ok s' \<Longrightarrow> g_running s' \<noteq> GDB_STATE_CONTROL \<and> g_dl s' = g_dl s"
proof (induction junk s rule: gdb_session.induct)
  case (1 junk s)
  show ?case
  proof (cases "g_running s = GDB_STATE_CONTROL \<and> g_fd s \<ge> 0")
    case False
    then show ?thesis using 1(3) by (auto simp: gdb_session.simps [of junk s] split: if_split_asm)
  next
    case True
    show ?thesis
    proof (cases "g_in s")
      case Nil
      then show ?thesis using True 1(3) by (auto simp: gdb_session.simps [of junk s])
    next
      case (Cons x r)
      have fold: "g_dl t' = g_dl t" if "fold_result (gdb_read_byte junk) cs t = Ok t'" for cs t t'
        by (rule fold_result_invariant [where P = "\<lambda>u. g_dl u = g_dl t" and xs = cs and s = t and f = "gdb_read_byte junk"])
          (use that read_byte_dl in auto)
      show ?thesis
        using Cons True 1 fold by (cases x) (fastforce simp: gdb_session.simps [of junk s])+
    qed
  qed
qed


definition demo_session :: "gdb_t result" where
  "demo_session = gdb_session (\<lambda>_. 0) (demo_gdb\<lparr>g_in := [N_data (packet (str ''Z0,1000,4'')), N_again, N_data [0x2B],
     N_data (packet (str ''bc''))]\<rparr>)"

lemma demo_session_run:
  "case demo_session of Inl e \<Rightarrow> False | Inr s \<Rightarrow> g_running s = GDB_STATE_REVERSE_CONTINUE \<and> g_bp_nb s = 1
     \<and> g_out s = 0x2B # packet (str ''OK'') @ [0x2B]"
  by code_simp


section \<open>Replies\<close>

lemma send_all: "S_fail \<notin> set ss \<Longrightarrow> \<exists>ss'. send_loop ss buf = (buf, False, ss') \<and> set ss' \<subseteq> set ss"
proof (induction ss buf rule: send_loop.induct)
  case (3 n ss v va)
  then show ?case
    by (auto simp: Let_def simp del: take_Suc_Cons drop_Suc_Cons)
qed auto

text \<open>C26: A reply is sent whole, even when the socket takes it in pieces, and it is repeated once
  for each byte that does not acknowledge it; the bytes behind the acknowledgement stay unread.\<close>

theorem reply_repeated:
  assumes "g_fd s \<ge> 0" "S_fail \<notin> set (g_send s)" "length buf \<le> GDB_MAX_PACKET_LENGTH"
    and "g_in s = N_data (naks @ 0x2B # rest) # r" "0x2B \<notin> set naks"
  shows "\<exists>s'. put_packet_binary buf s = Ok (0, s')
    \<and> g_out s' = g_out s @ concat (replicate (Suc (length naks)) (packet buf))
    \<and> g_in s' = (if rest = [] then r else N_data rest # r) \<and> g_running s' = g_running s"
  using assms
proof (induction naks arbitrary: s)
  case Nil
  then obtain ss' where "send_loop (g_send s) (packet buf) = (packet buf, False, ss')" using send_all by blast
  then show ?case
    using Nil by (simp add: put_packet_binary.simps [of buf s] put_buffer_def get_char_def)
next
  case (Cons c naks)
  obtain ss' where ss: "send_loop (g_send s) (packet buf) = (packet buf, False, ss')" "set ss' \<subseteq> set (g_send s)"
    using send_all Cons.prems(2) by blast
  define t where "t = s\<lparr>g_last_packet := packet buf, g_out := g_out s @ packet buf, g_send := ss',
    g_in := N_data (naks @ 0x2B # rest) # r\<rparr>"
  have step: "put_packet_binary buf s = put_packet_binary buf t"
    using Cons.prems ss by (simp add: put_packet_binary.simps [of buf s] put_buffer_def get_char_def t_def) 
  have "S_fail \<notin> set ss'" using Cons.prems(2) ss(2) by blast
  then show ?case
    using Cons.IH [of t] Cons.prems unfolding step by (auto simp: t_def)
qed

theorem reply_repeated_witness:
  "\<exists>s'. put_packet_binary (str ''OK'') (demo_gdb\<lparr>g_in := [N_data [0x2D, 0x2B]], g_send := [S_sent 2, S_retry]\<rparr>) = Ok (0, s')
    \<and> g_out s' = packet (str ''OK'') @ packet (str ''OK'')"
  using reply_repeated [of "demo_gdb\<lparr>g_in := [N_data [0x2D, 0x2B]], g_send := [S_sent 2, S_retry]\<rparr>" "str ''OK''" "[0x2D]" "[]" "[]"]
  by (auto simp: demo_gdb_def str_def GDB_MAX_PACKET_LENGTH_def)

end
