(* ===== verification/Gdb_Debugger.thy ===== *)
theory Gdb_Debugger
  imports Gdb_Protocol Delorean_Travel
begin

text \<open>
  The debugger on the recorded execution: break- and watchpoints as lists, the register dump, and
  \<open>gdb_verify\<close>, which steps the recorder back and forth between the sessions.
\<close>

section \<open>Lists of points\<close>

lemma find_first_le: "find_first P xs \<le> length xs"
  by (induction xs) auto

lemma find_first_less: "find_first P xs < length xs \<longleftrightarrow> (\<exists>x \<in> set xs. P x)"
  by (induction xs) auto

lemma find_first_remove1:
  "x \<in> set xs \<Longrightarrow> remove1 x xs = take (find_first (\<lambda>y. x = y) xs) xs @ drop (Suc (find_first (\<lambda>y. x = y) xs)) xs"
  by (induction xs) auto

lemma length_shift_down [simp]: "length (shift_down is xs) = length xs"
  by (induction "is" xs rule: shift_down.induct) auto

lemma nth_shift_down:
  "m < length xs \<Longrightarrow> i \<le> m \<Longrightarrow> k < length xs \<Longrightarrow>
     shift_down [i..<m] xs ! k = (if i \<le> k \<and> k < m then xs ! (k + 1) else xs ! k)"
proof (induction "m - i" arbitrary: i xs)
  case 0
  then show ?case by auto
next
  case (Suc d)
  then have "[i..<m] = i # [Suc i..<m]" by (simp add: upt_conv_Cons)
  then show ?case
    using Suc(1) [of "Suc i" "xs[i := xs ! (i + 1)]"] Suc(2-) by (auto simp: nth_list_update)
qed

lemma take_shift_down:
  assumes "i < nb" "nb \<le> length xs"
  shows "take (nb - 1) (shift_down [i..<nb - 1] xs) = take i xs @ drop (Suc i) (take nb xs)"
proof (rule nth_equalityI)
  fix k assume "k < length (take (nb - 1) (shift_down [i..<nb - 1] xs))"
  then have k: "k < nb - 1" "k < length xs" "nb - 1 < length xs" "i \<le> nb - 1" using assms by auto
  then show "take (nb - 1) (shift_down [i..<nb - 1] xs) ! k = (take i xs @ drop (Suc i) (take nb xs)) ! k"
    using assms nth_shift_down [OF k(3,4,2)] by (auto simp: nth_append min_def)
qed (use assms in auto)

lemma remove_at_found:
  assumes "nb \<le> length xs" "\<exists>x \<in> set (take nb xs). P x" "i = find_first P (take nb xs)"
  shows "\<exists>xs'. remove_at P nb xs = (nb - 1, xs') \<and> length xs' = length xs
    \<and> take (nb - 1) xs' = take i (take nb xs) @ drop (Suc i) (take nb xs)"
proof -
  have "length (take nb xs) = nb" using assms(1) by simp
  then have "i < nb" using assms(2,3) find_first_less [of P "take nb xs"] by simp
  then show ?thesis
    using assms take_shift_down [of i nb xs] by (simp add: remove_at_def min_def)
qed

lemma remove_at_absent:
  assumes "nb \<le> length xs" "\<not> (\<exists>x \<in> set (take nb xs). P x)"
  shows "remove_at P nb xs = (nb, xs)"
proof -
  have "length (take nb xs) = nb" using assms(1) by simp
  then show ?thesis using assms(2) find_first_less [of P "take nb xs"] by (simp add: remove_at_def)
qed

definition points_ok :: "gdb_t \<Rightarrow> bool" where
  "points_ok s \<longleftrightarrow> length (g_bp_addr s) = 100 \<and> g_bp_nb s \<le> 100 \<and> length (g_watch s) = 100 \<and> g_watch_nb s \<le> 100"

definition bps :: "gdb_t \<Rightarrow> u64 list" where
  "bps s = take (g_bp_nb s) (g_bp_addr s)"

definition watches :: "gdb_t \<Rightarrow> watch_el_t list" where
  "watches s = take (g_watch_nb s) (g_watch s)"

lemma remove_bps:
  assumes "points_ok s"
  shows "bps (gdb_breakpoint_remove addr len GDB_BREAKPOINT_SW s) = remove1 addr (bps s)
    \<and> points_ok (gdb_breakpoint_remove addr len GDB_BREAKPOINT_SW s)"
proof (cases "addr \<in> set (bps s)")
  case True
  define i where "i = find_first (\<lambda>x. addr = x) (take (g_bp_nb s) (g_bp_addr s))"
  have nb: "g_bp_nb s \<le> length (g_bp_addr s)" using assms by (simp add: points_ok_def)
  obtain xs' where x: "remove_at (\<lambda>x. addr = x) (g_bp_nb s) (g_bp_addr s) = (g_bp_nb s - 1, xs')"
    "length xs' = length (g_bp_addr s)" "take (g_bp_nb s - 1) xs' = take i (bps s) @ drop (Suc i) (bps s)"
    using remove_at_found [OF nb _ i_def] True by (auto simp: bps_def)
  then show ?thesis
    using find_first_remove1 [OF True] assms
    by (auto simp: gdb_breakpoint_remove_def bps_def i_def points_ok_def)
next
  case False
  then have "remove_at (\<lambda>x. addr = x) (g_bp_nb s) (g_bp_addr s) = (g_bp_nb s, g_bp_addr s)"
    using assms by (intro remove_at_absent) (auto simp: points_ok_def bps_def)
  then show ?thesis
    using False assms by (simp add: gdb_breakpoint_remove_def bps_def remove1_idem points_ok_def)
qed

text \<open>C27: The breakpoints are a list of at most 100 addresses: inserting appends, removing takes the
  first occurrence away, and a running program stops at an address exactly when it is in the list.
  Inserting one more than 100 is undefined.\<close>

theorem breakpoints_are_a_list:
  assumes "points_ok s"
  shows "(if length (bps s) < 100
      then (\<exists>s'. gdb_breakpoint_insert addr len GDB_BREAKPOINT_SW s = Ok s' \<and> bps s' = bps s @ [addr]
              \<and> watches s' = watches s \<and> points_ok s')
      else gdb_breakpoint_insert addr len GDB_BREAKPOINT_SW s = Stop Undefined)
    \<and> bps (gdb_breakpoint_remove addr len GDB_BREAKPOINT_SW s) = remove1 addr (bps s)
    \<and> points_ok (gdb_breakpoint_remove addr len GDB_BREAKPOINT_SW s)
    \<and> (g_running s = GDB_STATE_CONTINUE \<or> g_running s = GDB_STATE_REVERSE_CONTINUE \<longrightarrow>
         gdb_condition pc s = (if ucast pc \<in> set (bps s) then 2 else 0))"
proof -
  have len: "length (bps s) = g_bp_nb s" using assms by (simp add: bps_def points_ok_def)
  have ins: "\<exists>s'. gdb_breakpoint_insert addr len GDB_BREAKPOINT_SW s = Ok s' \<and> bps s' = bps s @ [addr]
      \<and> watches s' = watches s \<and> points_ok s'" if "length (bps s) < 100"
  proof -
    have "take (Suc (g_bp_nb s)) ((g_bp_addr s)[g_bp_nb s := addr]) = bps s @ [addr]"
      using that len assms by (simp add: take_Suc_conv_app_nth bps_def points_ok_def)
    then show ?thesis
      using that len assms by (simp add: gdb_breakpoint_insert_def bps_def watches_def points_ok_def arr_set_def)
  qed
  have full: "gdb_breakpoint_insert addr len GDB_BREAKPOINT_SW s = Stop Undefined" if "\<not> length (bps s) < 100"
    using that len assms by (simp add: gdb_breakpoint_insert_def points_ok_def arr_set_def)
  have "find_first (\<lambda>x. ucast pc = x) (bps s) < g_bp_nb s \<longleftrightarrow> ucast pc \<in> set (bps s)"
    using find_first_less [of "\<lambda>x. ucast pc = x" "bps s"] len by auto
  then show ?thesis
    using ins full remove_bps [OF assms, of addr len] by (auto simp: gdb_condition_def bps_def)
qed

theorem breakpoints_are_a_list_witness:
  "\<exists>s'. gdb_breakpoint_insert 0x8000 4 GDB_BREAKPOINT_SW demo_gdb = Ok s' \<and> bps s' = [0x8000]"
  using breakpoints_are_a_list [of demo_gdb "0x8000" 4 0]
  by (auto simp: demo_gdb_def points_ok_def bps_def)

section \<open>The register dump\<close>

definition register_image :: "cpu_t \<Rightarrow> bytes" where
  "register_image cpu = concat (map (\<lambda>r. le32 (r_data r)) (c_regs cpu)) @ replicate 100 0 @ le32 (r_data (c_cpsr cpu))"

lemma read_registers_append:
  "read_registers cpu (xs @ ys) =
     bind_result (read_registers cpu xs) (\<lambda>a. bind_result (read_registers cpu ys) (\<lambda>b. Ok (a @ b)))"
  by (induction xs) (auto simp: bind_result_def split: sum.splits)

lemma read_core:
  "n \<le> length (c_regs cpu) \<Longrightarrow> n \<le> 16 \<Longrightarrow>
     read_registers cpu [0..<n] = Ok (concat (map (\<lambda>r. le32 (r_data r)) (take n (c_regs cpu))))"
  by (induction n) (auto simp: read_registers_append gdb_read_register_def arr_get_def take_Suc_conv_app_nth)

text \<open>C28: The register dump of the debugger is the sixteen registers, a hundred zero bytes for the
  floating point registers and the status register, all least significant byte first; reading the
  hexadecimal digits of the reply back gives these bytes.\<close>

theorem register_dump:
  assumes "gdb_cpu s = Ok cpu" "wf_cpu cpu"
  shows "cmd_read_registers s = put_packet (memtohex (register_image cpu)) s
    \<and> hextomem (memtohex (register_image cpu)) = register_image cpu \<and> length (register_image cpu) = 168"
proof -
  have len: "length (c_regs cpu) = 16" using assms(2) by (simp add: wf_cpu_def)
  have "[0..<NUM_CORE_REGS] = [0..<16] @ [16, 17, 18, 19, 20, 21, 22, 23, 24, 25]"
    by (simp add: NUM_CORE_REGS_def upt_rec numeral_eq_Suc del: set_upt)
  moreover have "read_registers cpu [16, 17, 18, 19, 20, 21, 22, 23, 24, 25] =
      Ok (replicate 100 0 @ le32 (r_data (c_cpsr cpu)))"
    by (simp add: gdb_read_register_def numeral_eq_Suc)
  ultimately have "read_registers cpu [0..<NUM_CORE_REGS] = Ok (register_image cpu)"
    using read_core [of 16 cpu] len by (simp add: read_registers_append register_image_def)
  moreover have "length (concat (map (\<lambda>r. le32 (r_data r)) rs)) = 4 * length rs" for rs :: "reg_t list"
    by (induction rs) (auto simp: le32_def)
  ultimately show ?thesis
    using assms(1) len by (simp add: cmd_read_registers_def hextomem_memtohex register_image_def le32_def)
qed

definition demo_stopped :: gdb_t where
  "demo_stopped = demo_gdb\<lparr>g_cpu := Some 0, g_dl := booted\<rparr>"

theorem register_dump_witness:
  "cmd_read_registers demo_stopped = put_packet (memtohex (register_image (reset_cpu 0 (cpu_create 0)))) demo_stopped"
  using register_dump [of demo_stopped "reset_cpu 0 (cpu_create 0)"] booted_cpu
  by (simp add: demo_stopped_def gdb_cpu_def get_cpu_def initialised_def)

section \<open>Running the recorded execution\<close>

lemma forward_not_end: "oracle_forward_exec d = Ok x \<Longrightarrow> oracle_get_trace d = Ok False"
  by (auto simp: oracle_forward_exec_def oracle_get_trace_def deref_def split: option.splits)

lemma verify_unfold:
  "gdb_verify junk ty pm s = (case gdb_verify_step junk ty pm s of Inl e \<Rightarrow> Some (Stop e)
     | Inr (b, ty', pm', s') \<Rightarrow> if b then gdb_verify junk ty' pm' s' else Some (Ok s'))"
  by (subst gdb_verify.simps) (auto simp: Let_def split: sum.splits prod.splits)

definition unattended :: "gdb_t \<Rightarrow> bool" where
  "unattended s \<longleftrightarrow> (g_running s = GDB_STATE_CONTINUE \<or> g_running s = GDB_STATE_DETACH) \<and> g_bp_nb s = 0 \<and> g_watch_nb s = 0"

lemma unattended_runs: "unattended s \<Longrightarrow> gdb_stop junk ty pm s = Ok s \<and> \<not> gdb_exec_direction s"
  by (cases ty) (auto simp: unattended_def gdb_stop_def gdb_condition_def gdb_exec_direction_def)

lemma verify_replays:
  assumes "unattended s" "forward_n n d = Ok d'" "oracle_get_trace d' = Ok True"
  shows "gdb_verify junk ty pm (s\<lparr>g_dl := d\<rparr>) = Some (Ok (s\<lparr>g_dl := d'\<rparr>))"
  using assms(2)
proof (induction n arbitrary: d ty pm)
  case 0
  have "unattended (s\<lparr>g_dl := d'\<rparr>)" using assms(1) by (simp add: unattended_def)
  note p = unattended_runs [OF this]
  show ?case
    using 0 assms(3) p
    by (subst verify_unfold) (simp add: gdb_verify_step_def gdb_move_def gdb_again_def)
next
  case (Suc n)
  then obtain ty' p d1 where d1: "oracle_forward_exec d = Ok (ty', p, d1)" "forward_n n d1 = Ok d'" by auto
  have tr: "oracle_get_trace d1 = Ok (n = 0)"
    using d1(2) assms(3) by (cases n) (auto dest: forward_not_end)
  have "unattended (s\<lparr>g_dl := x\<rparr>)" for x using assms(1) by (simp add: unattended_def)
  note p = unattended_runs [OF this]
  have step: "gdb_verify_step junk ty pm (s\<lparr>g_dl := d\<rparr>) = Ok (n \<noteq> 0, ty', set_param p pm, s\<lparr>g_dl := d1\<rparr>)"
    using d1(1) forward_not_end [OF d1(1)] p tr
    by (simp add: gdb_verify_step_def gdb_move_def gdb_again_def)
  show ?case
    using Suc.IH [OF d1(2)] d1(2) by (subst verify_unfold) (cases n, simp_all add: step)
qed





end
