(* ===== verification/Avl_Tree.thy ===== *)
theory Avl_Tree
  imports Sherlock_Prelude
begin

text \<open>
  The balanced search tree of the debug information library
  (\<open>lib/debughelper/debughelperlib/src/avl_tree.c\<close>). A tree owns its nodes, so it is a datatype;
  a null pointer is \<open>NULL\<close>, and dereferencing it is undefined. Depths are kept as unsigned
  long and read into an int, as in the code. The theory shows that insertion keeps the tree sorted,
  balanced and correctly labelled, that search finds the greatest key below the argument, and that
  no tree is deep enough for the depth arithmetic to overflow.
\<close>

section \<open>The code\<close>

datatype 'a avl_tree = NULL
  | Avl (a_left: "'a avl_tree") (a_right: "'a avl_tree") (a_key: u64) (a_depth: u64) (a_flags: int) (a_data: 'a)

definition AVL_FLAGS_BALANCED :: int where "AVL_FLAGS_BALANCED = 0"
definition AVL_FLAGS_LEFT_HEAVY :: int where "AVL_FLAGS_LEFT_HEAVY = - 1"
definition AVL_FLAGS_RIGHT_HEAVY :: int where "AVL_FLAGS_RIGHT_HEAVY = 1"
definition AVL_FLAGS_LEFT_UNBAL :: int where "AVL_FLAGS_LEFT_UNBAL = - 2"
definition AVL_FLAGS_RIGHT_UNBAL :: int where "AVL_FLAGS_RIGHT_UNBAL = 2"

lemmas avl_flags_defs = AVL_FLAGS_BALANCED_def AVL_FLAGS_LEFT_HEAVY_def AVL_FLAGS_RIGHT_HEAVY_def
  AVL_FLAGS_LEFT_UNBAL_def AVL_FLAGS_RIGHT_UNBAL_def

text \<open>An int that is 0 unless the pointer is set, and then the depth of the node.\<close>

fun depth_of :: "'a avl_tree \<Rightarrow> int" where
  "depth_of NULL = 0"
| "depth_of (Avl l r k d f x) = sint (ucast d :: u32)"

fun avl_right_rotate :: "'a avl_tree \<Rightarrow> 'a avl_tree result" where
  "avl_right_rotate (Avl (Avl l2 r2 k2 _ _ x2) r1 k1 _ _ x1) =
     (let n1_d = max (depth_of r2) (depth_of r1) + 1;
          n2_d = max (depth_of l2) n1_d + 1
      in Ok (Avl l2 (Avl r2 r1 k1 (word_of_int n1_d) (depth_of r1 - depth_of r2) x1)
               k2 (word_of_int n2_d) (n1_d - depth_of l2) x2))"
| "avl_right_rotate _ = Stop Undefined"

fun avl_left_rotate :: "'a avl_tree \<Rightarrow> 'a avl_tree result" where
  "avl_left_rotate (Avl l1 (Avl l2 r2 k2 _ _ x2) k1 _ _ x1) =
     (let n1_d = max (depth_of l1) (depth_of l2) + 1;
          n2_d = max n1_d (depth_of r2) + 1
      in Ok (Avl (Avl l1 l2 k1 (word_of_int n1_d) (depth_of l2 - depth_of l1) x1) r2
               k2 (word_of_int n2_d) (depth_of r2 - n1_d) x2))"
| "avl_left_rotate _ = Stop Undefined"

definition flags_of :: "'a avl_tree \<Rightarrow> int result" where
  "flags_of t = (case t of NULL \<Rightarrow> Stop Undefined | Avl _ _ _ _ f _ \<Rightarrow> Ok f)"

definition key_of :: "'a avl_tree \<Rightarrow> u64 result" where
  "key_of t = (case t of NULL \<Rightarrow> Stop Undefined | Avl _ _ k _ _ _ \<Rightarrow> Ok k)"

fun avl_balance :: "'a avl_tree \<Rightarrow> 'a avl_tree result" where
  "avl_balance NULL = Stop Undefined"
| "avl_balance (Avl l r k d f x) =
     (if f = AVL_FLAGS_LEFT_UNBAL then
        bind_result (flags_of l) (\<lambda>lf.
        bind_result (if lf = AVL_FLAGS_RIGHT_HEAVY then avl_left_rotate l else Ok l) (\<lambda>l.
          avl_right_rotate (Avl l r k d f x)))
      else if f = AVL_FLAGS_RIGHT_UNBAL then
        bind_result (flags_of r) (\<lambda>rf.
        bind_result (if rf = AVL_FLAGS_LEFT_HEAVY then avl_right_rotate r else Ok r) (\<lambda>r.
          avl_left_rotate (Avl l r k d f x)))
      else Ok (Avl l r k d f x))"

definition avl_new :: "u64 \<Rightarrow> 'a \<Rightarrow> 'a avl_tree" where
  "avl_new key data = Avl NULL NULL key 0 AVL_FLAGS_BALANCED data"

fun avl_search :: "'a avl_tree \<Rightarrow> u64 \<Rightarrow> 'a avl_tree" where
  "avl_search NULL search = NULL"
| "avl_search (Avl l r k d f x) search =
     (if k > search then avl_search l search
      else if k < search then
        (case avl_search r search of NULL \<Rightarrow> Avl l r k d f x | res \<Rightarrow> res)
      else Avl l r k d f x)"

text \<open>The end of \<open>avl_insert\<close>: the new depth and flags of the root, and the rotation.\<close>

definition avl_update :: "'a avl_tree \<Rightarrow> 'a avl_tree \<Rightarrow> u64 \<Rightarrow> 'a \<Rightarrow> 'a avl_tree result" where
  "avl_update l r k x =
     (let left_d = depth_of l; right_d = depth_of r; flags = right_d - left_d;
          root = Avl l r k (word_of_int (max left_d right_d + 1)) flags x
      in if flags = AVL_FLAGS_LEFT_UNBAL \<or> flags = AVL_FLAGS_RIGHT_UNBAL then avl_balance root else Ok root)"

fun avl_insert :: "'a avl_tree \<Rightarrow> 'a avl_tree \<Rightarrow> 'a avl_tree result" where
  "avl_insert NULL node =
     (case node of NULL \<Rightarrow> Stop Undefined | Avl l r k d f x \<Rightarrow> Ok (Avl l r k 1 f x))"
| "avl_insert (Avl l r k d f x) node =
     bind_result (key_of node) (\<lambda>nk.
       if k > nk then bind_result (avl_insert l node) (\<lambda>l. avl_update l r k x)
       else if k < nk then bind_result (avl_insert r node) (\<lambda>r. avl_update l r k x)
       else Ok (Avl l r k d f x))"

fun avl_walk :: "'a avl_tree \<Rightarrow> ('a \<Rightarrow> 's \<Rightarrow> 's) \<Rightarrow> 's \<Rightarrow> 's" where
  "avl_walk NULL hook s = s"
| "avl_walk (Avl l r k d f x) hook s = avl_walk r hook (hook x (avl_walk l hook s))"

section \<open>Sorted association lists\<close>

fun avl_entries :: "'a avl_tree \<Rightarrow> (u64 \<times> 'a) list" where
  "avl_entries NULL = []"
| "avl_entries (Avl l r k d f x) = avl_entries l @ (k, x) # avl_entries r"

abbreviation ascending :: "('k::linorder \<times> 'a) list \<Rightarrow> bool" where
  "ascending xs \<equiv> sorted_wrt (<) (map fst xs)"

text \<open>Insertion of an entry whose key may be present already, in which case nothing changes.\<close>

fun add_entry :: "'k::linorder \<Rightarrow> 'a \<Rightarrow> ('k \<times> 'a) list \<Rightarrow> ('k \<times> 'a) list" where
  "add_entry k x [] = [(k, x)]"
| "add_entry k x ((j, y) # es) =
     (if k < j then (k, x) # (j, y) # es else if k = j then (j, y) # es else (j, y) # add_entry k x es)"

lemma add_entry_right:
  "ascending (xs @ [(j, y)]) \<Longrightarrow> j < k \<Longrightarrow> add_entry k x (xs @ (j, y) # ys) = xs @ (j, y) # add_entry k x ys"
  by (induction xs) (auto simp: sorted_wrt_append)

lemma add_entry_left:
  "ascending (xs @ [(j, y)]) \<Longrightarrow> k < j \<Longrightarrow> add_entry k x (xs @ (j, y) # ys) = add_entry k x xs @ (j, y) # ys"
  by (induction xs) (auto simp: sorted_wrt_append)

lemma add_entry_same:
  "ascending (xs @ [(k, y)]) \<Longrightarrow> add_entry k x (xs @ (k, y) # ys) = xs @ (k, y) # ys"
  by (induction xs) (auto simp: sorted_wrt_append)

lemma set_add_entry: "fst ` set (add_entry k x es) = Set.insert k (fst ` set es)"
  by (induction es rule: add_entry.induct) auto

lemma ascending_add_entry:
  assumes "ascending es"
  shows "ascending (add_entry k x es)"
  using assms
proof (induction k x es rule: add_entry.induct)
  case (2 k x j y es)
  then have "\<forall>i \<in> fst ` set (add_entry k x es). j < i" if "j < k"
    using that by (auto simp: set_add_entry)
  with 2 show ?case by auto
qed simp

lemma map_of_add_entry:
  "ascending es \<Longrightarrow> map_of (add_entry k x es) = (if k \<in> fst ` set es then map_of es else (map_of es)(k \<mapsto> x))"
proof (induction k x es rule: add_entry.induct)
  case (2 k x j y es)
  then show ?case by (auto simp: fun_eq_iff)
qed simp

lemma ascending_app:
  "ascending (xs @ (k, x) # ys) \<longleftrightarrow> ascending xs \<and> ascending ys
     \<and> (\<forall>e \<in> set xs. fst e < k) \<and> (\<forall>e \<in> set ys. k < fst e)"
proof -
  have "a < b" if "a < k" "k < b" for a b using that by simp
  then show ?thesis by (auto simp: sorted_wrt_append)
qed

section \<open>The shape of the tree\<close>

fun height :: "'a avl_tree \<Rightarrow> nat" where
  "height NULL = 0"
| "height (Avl l r k d f x) = Suc (max (height l) (height r))"

fun balanced :: "'a avl_tree \<Rightarrow> bool" where
  "balanced NULL = True"
| "balanced (Avl l r k d f x) \<longleftrightarrow> balanced l \<and> balanced r \<and> height l \<le> height r + 1 \<and> height r \<le> height l + 1"

text \<open>Every node carries its depth and its balance.\<close>

fun labelled :: "'a avl_tree \<Rightarrow> bool" where
  "labelled NULL = True"
| "labelled (Avl l r k d f x) \<longleftrightarrow> labelled l \<and> labelled r
     \<and> unat d = Suc (max (height l) (height r)) \<and> f = int (height r) - int (height l)"

definition avl_ok :: "'a avl_tree \<Rightarrow> bool" where
  "avl_ok t \<longleftrightarrow> ascending (avl_entries t) \<and> balanced t \<and> labelled t"

subsection \<open>The depth of a balanced tree\<close>

text \<open>The fewest nodes of a balanced tree of height \<open>h\<close> and of height \<open>h + 1\<close>.\<close>

fun fewest :: "nat \<Rightarrow> nat \<times> nat" where
  "fewest 0 = (0, 1)"
| "fewest (Suc h) = (let (a, b) = fewest h in (b, a + b + 1))"

lemma fewest_numeral: "fewest (numeral n) = (let (a, b) = fewest (pred_numeral n) in (b, a + b + 1))"
  by (simp add: numeral_eq_Suc)

lemma fewest_one: "fewest (Suc 0) = (1, 2)"
  by simp

declare fewest.simps(2) [simp del]

lemma fewest_mono: "fst (fewest h) \<le> snd (fewest h) \<and> fst (fewest h) \<le> fst (fewest (Suc h))"
  by (induction h) (auto simp: fewest.simps(2) split: prod.splits)

lemma fewest_le: "h \<le> h' \<Longrightarrow> fst (fewest h) \<le> fst (fewest h')"
proof (induction h' rule: dec_induct)
  case (step n)
  then show ?case using fewest_mono [of n] by linarith
qed simp

lemma fewest_Suc: "fst (fewest (Suc (Suc h))) = fst (fewest h) + fst (fewest (Suc h)) + 1"
  by (auto simp: fewest.simps(2) split: prod.splits)

lemma balanced_nodes: "balanced t \<Longrightarrow> fst (fewest (height t)) \<le> length (avl_entries t)"
proof (induction t)
  case NULL
  then show ?case by simp
next
  case (Avl l r k d f x)
  define m where "m = max (height l) (height r)"
  have b: "fst (fewest (height l)) \<le> length (avl_entries l)" "fst (fewest (height r)) \<le> length (avl_entries r)"
    using Avl by simp_all
  show ?case
  proof (cases m)
    case 0
    then show ?thesis by (simp add: m_def fewest_one)
  next
    case (Suc j)
    have "fst (fewest (Suc j)) + fst (fewest j) \<le> fst (fewest (height l)) + fst (fewest (height r))"
    proof (cases "height l \<le> height r")
      case True
      then have "height r = Suc j" "j \<le> height l" using Suc Avl.prems by (auto simp: m_def)
      then show ?thesis using fewest_le [of j "height l"] by simp
    next
      case False
      then have "height l = Suc j" "j \<le> height r" using Suc Avl.prems by (auto simp: m_def)
      then show ?thesis using fewest_le [of j "height r"] by simp
    qed
    moreover have h: "height (Avl l r k d f x) = Suc (Suc j)" using Suc by (simp add: m_def)
    moreover have "length (avl_entries (Avl l r k d f x)) = length (avl_entries l) + length (avl_entries r) + 1" by simp
    ultimately show ?thesis unfolding h using b fewest_Suc [of j] by linarith
  qed
qed

lemma ascending_length:
  fixes es :: "(u64 \<times> 'a) list"
  assumes "ascending es"
  shows "length es \<le> 2 ^ 64"
proof -
  have "distinct (map fst es)" using assms by (simp add: strict_sorted_iff)
  then have "length es = card (set (map fst es))" using distinct_card [of "map fst es"] by simp
  also have "\<dots> \<le> card (UNIV :: u64 set)" by (rule card_mono) simp_all
  finally show ?thesis by (simp add: card_word)
qed

lemma height_bound:
  assumes "ascending (avl_entries t)" "balanced t"
  shows "height t \<le> 91"
proof (rule ccontr)
  assume "\<not> height t \<le> 91"
  then have "fst (fewest 92) \<le> length (avl_entries t)"
    using fewest_le [of 92 "height t"] balanced_nodes [OF assms(2)] by simp
  moreover have "fst (fewest 92) > 2 ^ 64" by (simp add: fewest_numeral fewest_one)
  ultimately show False using ascending_length [OF assms(1)] by simp
qed

subsection \<open>Rotations\<close>

lemma depth_of_labelled:
  assumes "labelled t" "height t < 2 ^ 31"
  shows "depth_of t = int (height t)"
proof (cases t)
  case (Avl l r k d f x)
  have d: "unat d = height t" using assms(1) Avl by simp
  have "unat (ucast d :: u32) = height t"
    using d assms(2) by (simp add: unsigned_ucast_eq take_bit_nat_eq_self)
  then have "uint (ucast d :: u32) = int (height t)" by (simp only: uint_nat)
  then show ?thesis using Avl assms(2) by (simp add: sint_uint signed_take_bit_int_eq_self)
qed simp

text \<open>A rotation of labelled trees gives labelled trees and keeps the entries in order.\<close>

lemma unat_of_depth: "n < 2 ^ 31 \<Longrightarrow> unat (word_of_int (int n + 1) :: u64) = Suc n"
proof -
  assume "n < 2 ^ 31"
  moreover have "(word_of_int (int n + 1) :: u64) = word_of_nat (Suc n)" by simp
  ultimately show ?thesis by (simp only: unsigned_of_nat) (simp add: take_bit_nat_eq_self)
qed

lemma unat_depth_max:
  "max m n < 2 ^ 31 \<Longrightarrow> unat (word_of_int (max (int m) (int n) + 1) :: u64) = Suc (max m n)"
  using unat_of_depth [of "max m n"] by (simp add: of_nat_max)

lemma right_rotate_labelled:
  assumes "labelled l2" "labelled r2" "labelled r1" "max (height l2) (max (height r2) (height r1)) < 2 ^ 30"
  shows "\<exists>d1 d2. avl_right_rotate (Avl (Avl l2 r2 k2 d f x2) r1 k1 d' f' x1) =
      Ok (Avl l2 (Avl r2 r1 k1 d1 (int (height r1) - int (height r2)) x1) k2 d2
            (int (Suc (max (height r2) (height r1))) - int (height l2)) x2)
    \<and> unat d1 = Suc (max (height r2) (height r1)) \<and> unat d2 = Suc (max (height l2) (Suc (max (height r2) (height r1))))"
proof -
  have d: "depth_of l2 = int (height l2)" "depth_of r2 = int (height r2)" "depth_of r1 = int (height r1)"
    using assms by (simp_all add: depth_of_labelled)
  have e: "max (int (height r2)) (int (height r1)) + 1 = int (Suc (max (height r2) (height r1)))" by simp
  show ?thesis
    using assms(4) unat_depth_max [of "height r2" "height r1"] unat_depth_max [of "height l2" "Suc (max (height r2) (height r1))"]
    by (simp add: Let_def d) (simp only: e, simp)
qed

lemma left_rotate_labelled:
  assumes "labelled l1" "labelled l2" "labelled r2" "max (height l1) (max (height l2) (height r2)) < 2 ^ 30"
  shows "\<exists>d1 d2. avl_left_rotate (Avl l1 (Avl l2 r2 k2 d f x2) k1 d' f' x1) =
      Ok (Avl (Avl l1 l2 k1 d1 (int (height l2) - int (height l1)) x1) r2 k2 d2
            (int (height r2) - int (Suc (max (height l1) (height l2)))) x2)
    \<and> unat d1 = Suc (max (height l1) (height l2)) \<and> unat d2 = Suc (max (Suc (max (height l1) (height l2))) (height r2))"
proof -
  have d: "depth_of l1 = int (height l1)" "depth_of l2 = int (height l2)" "depth_of r2 = int (height r2)"
    using assms by (simp_all add: depth_of_labelled)
  have e: "max (int (height l1)) (int (height l2)) + 1 = int (Suc (max (height l1) (height l2)))" by simp
  show ?thesis
    using assms(4) unat_depth_max [of "height l1" "height l2"] unat_depth_max [of "Suc (max (height l1) (height l2))" "height r2"]
    by (simp add: Let_def d) (simp only: e, simp)
qed

declare avl_right_rotate.simps(1) [simp del] avl_left_rotate.simps(1) [simp del]

text \<open>Restoring the balance of a node whose subtrees differ by at most two levels.\<close>

lemma balance_left:
  assumes l: "labelled l" "balanced l" and r: "labelled r" "balanced r"
    and h: "height l = height r + 2" "height l < 2 ^ 30"
  shows "\<exists>t. avl_balance (Avl l r k d AVL_FLAGS_LEFT_UNBAL x) = Ok t \<and> labelled t \<and> balanced t
    \<and> avl_entries t = avl_entries l @ (k, x) # avl_entries r \<and> height t \<in> {height l, height l + 1}"
proof -
  obtain ll lr lk ld lf lx where l_eq: "l = Avl ll lr lk ld lf lx" using h by (cases l) auto
  have ld: "labelled ll" "labelled lr" "lf = int (height lr) - int (height ll)" using l l_eq by simp_all
  show ?thesis
  proof (cases "lf = AVL_FLAGS_RIGHT_HEAVY")
    case False
    then have "height lr \<le> height ll" using l l_eq ld by (auto simp: avl_flags_defs)
    then show ?thesis
      using False l r h l_eq right_rotate_labelled [OF ld(1,2) r(1), of lk ld lf lx k d AVL_FLAGS_LEFT_UNBAL x]
      by (auto simp: flags_of_def)
  next
    case True
    then have hl: "height lr = Suc (height ll)" using ld by (simp add: avl_flags_defs)
    then obtain ml mr mk md mf mx where m: "lr = Avl ml mr mk md mf mx" by (cases lr) auto
    have md: "labelled ml" "labelled mr" using ld m by simp_all
    have bound: "max (height ll) (max (height ml) (height mr)) < 2 ^ 30" using h hl l_eq m by auto
    obtain d1 d2 where lrot: "avl_left_rotate l = Ok (Avl (Avl ll ml lk d1 (int (height ml) - int (height ll)) lx) mr mk d2
            (int (height mr) - int (Suc (max (height ll) (height ml)))) mx)"
        "unat d1 = Suc (max (height ll) (height ml))" "unat d2 = Suc (max (Suc (max (height ll) (height ml))) (height mr))"
      using left_rotate_labelled [OF ld(1) md, of mk md mf mx lk ld lf lx] bound unfolding l_eq m by blast
    show ?thesis
      using True hl l r h l_eq m lrot
        right_rotate_labelled [of "Avl ll ml lk d1 (int (height ml) - int (height ll)) lx" mr r mk d2
          "int (height mr) - int (Suc (max (height ll) (height ml)))" mx k d AVL_FLAGS_LEFT_UNBAL x]
      by (auto simp: flags_of_def)
  qed
qed

lemma balance_right:
  assumes l: "labelled l" "balanced l" and r: "labelled r" "balanced r"
    and h: "height r = height l + 2" "height r < 2 ^ 30"
  shows "\<exists>t. avl_balance (Avl l r k d AVL_FLAGS_RIGHT_UNBAL x) = Ok t \<and> labelled t \<and> balanced t
    \<and> avl_entries t = avl_entries l @ (k, x) # avl_entries r \<and> height t \<in> {height r, height r + 1}"
proof -
  obtain rl rr rk rd rf rx where r_eq: "r = Avl rl rr rk rd rf rx" using h by (cases r) auto
  have rd: "labelled rl" "labelled rr" "rf = int (height rr) - int (height rl)" using r r_eq by simp_all
  have ne: "AVL_FLAGS_RIGHT_UNBAL \<noteq> AVL_FLAGS_LEFT_UNBAL" by (simp add: avl_flags_defs)
  show ?thesis
  proof (cases "rf = AVL_FLAGS_LEFT_HEAVY")
    case False
    then have "height rl \<le> height rr" using r r_eq rd by (auto simp: avl_flags_defs)
    then show ?thesis
      using False l r h r_eq ne left_rotate_labelled [OF l(1) rd(1,2), of rk rd rf rx k d AVL_FLAGS_RIGHT_UNBAL x]
      by (auto simp: flags_of_def)
  next
    case True
    then have hr: "height rl = Suc (height rr)" using rd by (simp add: avl_flags_defs)
    then obtain ml mr mk md mf mx where m: "rl = Avl ml mr mk md mf mx" by (cases rl) auto
    have md: "labelled ml" "labelled mr" using rd m by simp_all
    have bound: "max (height ml) (max (height mr) (height rr)) < 2 ^ 30" using h hr r_eq m by auto
    obtain d1 d2 where rrot: "avl_right_rotate r = Ok (Avl ml (Avl mr rr rk d1 (int (height rr) - int (height mr)) rx) mk d2
            (int (Suc (max (height mr) (height rr))) - int (height ml)) mx)"
        "unat d1 = Suc (max (height mr) (height rr))" "unat d2 = Suc (max (height ml) (Suc (max (height mr) (height rr))))"
      using right_rotate_labelled [OF md rd(2), of mk md mf mx rk rd rf rx] bound unfolding r_eq m by blast
    show ?thesis
      using True hr l r h r_eq m rrot ne
        left_rotate_labelled [of l ml "Avl mr rr rk d1 (int (height rr) - int (height mr)) rx" mk d2
          "int (Suc (max (height mr) (height rr))) - int (height ml)" mx k d AVL_FLAGS_RIGHT_UNBAL x]
      by (auto simp: flags_of_def)
  qed
qed

lemma update_ok:
  assumes l: "labelled l" "balanced l" "height l < 2 ^ 30" and r: "labelled r" "balanced r" "height r < 2 ^ 30"
    and "height l \<le> height r + 2" "height r \<le> height l + 2"
  shows "\<exists>t. avl_update l r k x = Ok t \<and> labelled t \<and> balanced t
    \<and> avl_entries t = avl_entries l @ (k, x) # avl_entries r
    \<and> height t \<in> (if height l = height r + 2 \<or> height r = height l + 2
                     then {max (height l) (height r), max (height l) (height r) + 1} else {max (height l) (height r) + 1})"
proof -
  have d: "depth_of l = int (height l)" "depth_of r = int (height r)"
    using l r by (simp_all add: depth_of_labelled)
  consider "height l = height r + 2" | "height r = height l + 2"
    | "height l \<noteq> height r + 2" "height r \<noteq> height l + 2" by blast
  then show ?thesis
  proof cases
    case 1
    then have "int (height r) - int (height l) = AVL_FLAGS_LEFT_UNBAL" by (simp add: avl_flags_defs)
    then show ?thesis using 1 balance_left [OF l(1,2) r(1,2) 1 l(3)] by (simp add: avl_update_def d Let_def)
  next
    case 2
    then have "int (height r) - int (height l) = AVL_FLAGS_RIGHT_UNBAL" by (simp add: avl_flags_defs)
    then show ?thesis using 2 balance_right [OF l(1,2) r(1,2) 2 r(3)] by (simp add: avl_update_def d Let_def)
  next
    case 3
    then have "int (height r) - int (height l) \<noteq> AVL_FLAGS_LEFT_UNBAL" "int (height r) - int (height l) \<noteq> AVL_FLAGS_RIGHT_UNBAL"
      by (auto simp: avl_flags_defs)
    then show ?thesis using 3 l r assms(7,8) unat_depth_max [of "height l" "height r"]
      by (auto simp: avl_update_def d Let_def)
  qed
qed

lemma insert_ok:
  assumes "labelled t" "balanced t" "ascending (avl_entries t)" "height t < 2 ^ 29"
  shows "\<exists>t'. avl_insert t (avl_new k x) = Ok t' \<and> labelled t' \<and> balanced t'
    \<and> avl_entries t' = add_entry k x (avl_entries t) \<and> height t' \<in> {height t, height t + 1}"
  using assms
proof (induction t)
  case NULL
  then show ?case by (simp add: avl_new_def AVL_FLAGS_BALANCED_def)
next
  case (Avl l r j d f y)
  have key: "key_of (avl_new k x) = Ok k" by (simp add: avl_new_def key_of_def)
  have asc: "ascending (avl_entries l @ [(j, y)])" "ascending (avl_entries l)" "ascending (avl_entries r)"
    using Avl.prems(3) by (auto simp: sorted_wrt_append)
  consider "k < j" | "j < k" | "k = j" by fastforce
  then show ?case
  proof cases
    case 1
    then obtain l' where l': "avl_insert l (avl_new k x) = Ok l'" "labelled l'" "balanced l'"
        "avl_entries l' = add_entry k x (avl_entries l)" "height l' \<in> {height l, height l + 1}"
      using Avl.IH(1) Avl.prems asc by auto
    then show ?thesis
      using 1 Avl.prems asc(1) update_ok [of l' r j y] by (auto simp: key add_entry_left split: if_splits)
  next
    case 2
    then obtain r' where r': "avl_insert r (avl_new k x) = Ok r'" "labelled r'" "balanced r'"
        "avl_entries r' = add_entry k x (avl_entries r)" "height r' \<in> {height r, height r + 1}"
      using Avl.IH(2) Avl.prems asc by auto
    then show ?thesis
      using 2 Avl.prems asc(1) update_ok [of l r' j y] by (auto simp: key add_entry_right split: if_splits)
  next
    case 3
    then show ?thesis using Avl.prems asc(1) by (simp add: key [unfolded 3] add_entry_same)
  qed
qed

section \<open>Search and walk\<close>

text \<open>The entry with the greatest key that is not above the one searched for.\<close>

definition floor_entry :: "'k::linorder \<Rightarrow> ('k \<times> 'a) list \<Rightarrow> ('k \<times> 'a) option" where
  "floor_entry s es = (let fs = filter (\<lambda>e. fst e \<le> s) es in if fs = [] then None else Some (last fs))"

definition root_entry :: "'a avl_tree \<Rightarrow> (u64 \<times> 'a) option" where
  "root_entry t = (case t of NULL \<Rightarrow> None | Avl _ _ k _ _ x \<Rightarrow> Some (k, x))"

lemma floor_entry_app:
  assumes "ascending (xs @ (k, x) # ys)"
  shows "floor_entry s (xs @ (k, x) # ys) =
    (if s < k then floor_entry s xs
     else if s = k then Some (k, x)
     else case floor_entry s ys of None \<Rightarrow> Some (k, x) | Some e \<Rightarrow> Some e)"
proof -
  have lo: "\<forall>e \<in> set xs. fst e < k" and up: "\<forall>e \<in> set ys. k < fst e"
    using assms by (auto simp: sorted_wrt_append)
  show ?thesis
  proof (cases "s \<le> k")
    case True
    then have "filter (\<lambda>e. fst e \<le> s) ys = []" using up by (force simp: filter_empty_conv)
    then show ?thesis using True by (auto simp: floor_entry_def)
  next
    case False
    then show ?thesis by (auto simp: floor_entry_def Let_def)
  qed
qed

lemma floor_entry_None: "floor_entry s es = None \<longleftrightarrow> (\<forall>e \<in> set es. s < fst e)"
  by (auto simp: floor_entry_def Let_def filter_empty_conv not_le)

lemma floor_entry_Some:
  assumes "ascending es" "floor_entry s es = Some (k, x)"
  shows "(k, x) \<in> set es" "k \<le> s" "e \<in> set es \<Longrightarrow> fst e \<le> s \<Longrightarrow> fst e \<le> k"
proof -
  let ?fs = "filter (\<lambda>e. fst e \<le> s) es"
  have fs: "?fs \<noteq> []" "last ?fs = (k, x)" using assms(2) by (auto simp: floor_entry_def Let_def split: if_splits)
  then have "(k, x) \<in> set ?fs" using last_in_set by metis
  then show "(k, x) \<in> set es" "k \<le> s" by auto
  obtain ys where ys: "?fs = ys @ [(k, x)]" using fs append_butlast_last_id [of ?fs] by metis
  have "sorted_wrt (<) (map fst ?fs)" using assms(1) by (simp add: sorted_wrt_map sorted_wrt_filter)
  then have "\<forall>e \<in> set ys. fst e < k" by (simp add: ys sorted_wrt_append)
  moreover assume "e \<in> set es" "fst e \<le> s"
  then have "e \<in> set ?fs" by simp
  ultimately show "fst e \<le> k" by (auto simp: ys)
qed

lemma search_floor:
  "ascending (avl_entries t) \<Longrightarrow> root_entry (avl_search t s) = floor_entry s (avl_entries t)"
proof (induction t)
  case NULL
  then show ?case by (simp add: root_entry_def floor_entry_def)
next
  case (Avl l r k d f x)
  then have "ascending (avl_entries l)" "ascending (avl_entries r)" by (auto simp: sorted_wrt_append)
  with Avl show ?case
    by (auto simp: floor_entry_app root_entry_def split: avl_tree.splits option.splits)
qed

lemma walk_entries: "avl_walk t hook s = fold hook (map snd (avl_entries t)) s"
  by (induction t arbitrary: s) simp_all

section \<open>The interface of an ordered index\<close>

text \<open>
  What the debug helper relies on: an index holds entries in ascending order of their keys, insertion
  of a new key always succeeds, and the search returns the entry just below the key.
\<close>

locale ordered_index =
  fixes empty :: 't
    and ins :: "'t \<Rightarrow> 'k::linorder \<Rightarrow> 'a \<Rightarrow> 't result"
    and search :: "'t \<Rightarrow> 'k \<Rightarrow> ('k \<times> 'a) option"
    and entries :: "'t \<Rightarrow> ('k \<times> 'a) list"
    and ok_index :: "'t \<Rightarrow> bool"
  assumes empty_ok: "ok_index empty" "entries empty = []"
    and ins_ok: "ok_index t \<Longrightarrow> \<exists>t'. ins t k x = Ok t' \<and> ok_index t' \<and> entries t' = add_entry k x (entries t)"
    and ok_ascending: "ok_index t \<Longrightarrow> ascending (entries t)"
    and search_ok: "ok_index t \<Longrightarrow> search t s = floor_entry s (entries t)"
begin

lemma built_ok:
  "\<exists>t. fold_result (\<lambda>(k, x) t. ins t k x) es empty = Ok t \<and> ok_index t \<and> set (map fst (entries t)) = fst ` set es"
proof (induction es rule: rev_induct)
  case Nil
  then show ?case using empty_ok by simp
next
  case (snoc e es)
  obtain k x where e: "e = (k, x)" by (cases e)
  from snoc obtain t where t: "fold_result (\<lambda>(k, x) t. ins t k x) es empty = Ok t" "ok_index t"
    "set (map fst (entries t)) = fst ` set es" by blast
  then obtain t' where "ins t k x = Ok t'" "ok_index t'" "entries t' = add_entry k x (entries t)"
    using ins_ok by blast
  then show ?case using t e set_add_entry [of k x "entries t"] by auto
qed

lemma search_inserted:
  assumes "ok_index t" "ins t k x = Ok t'" "k \<notin> fst ` set (entries t)"
  shows "search t' k = Some (k, x)"
proof -
  obtain u where u: "ins t k x = Ok u" "ok_index u" "entries u = add_entry k x (entries t)"
    using ins_ok [OF assms(1)] by blast
  have m: "map_of (entries u) k = Some x"
    using u(3) ok_ascending [OF assms(1)] assms(3) by (simp add: map_of_add_entry)
  then have in_u: "(k, x) \<in> set (entries u)" by (rule map_of_SomeD)
  then obtain j y where f: "floor_entry k (entries u) = Some (j, y)"
    using floor_entry_None [of k "entries u"] by (cases "floor_entry k (entries u)") auto
  note jy = floor_entry_Some [OF ok_ascending [OF u(2)] f]
  have "j = k" using jy(2) jy(3) [OF in_u] by simp
  moreover have "distinct (map fst (entries u))" using ok_ascending [OF u(2)] by (simp add: strict_sorted_iff)
  ultimately have "y = x" using jy(1) in_u by (auto dest: map_of_is_SomeI simp: m)
  then show ?thesis using f u assms(2) search_ok [OF u(2)] \<open>j = k\<close> by simp
qed

end

definition avl_add :: "'a avl_tree \<Rightarrow> u64 \<Rightarrow> 'a \<Rightarrow> 'a avl_tree result" where
  "avl_add t k x = avl_insert t (avl_new k x)"

definition avl_find :: "'a avl_tree \<Rightarrow> u64 \<Rightarrow> (u64 \<times> 'a) option" where
  "avl_find t s = root_entry (avl_search t s)"

lemma avl_add_ok:
  assumes "avl_ok t"
  shows "\<exists>t'. avl_add t k x = Ok t' \<and> avl_ok t' \<and> avl_entries t' = add_entry k x (avl_entries t)"
proof -
  have h: "height t < 2 ^ 29" using assms height_bound [of t] by (simp add: avl_ok_def)
  obtain t' where "avl_insert t (avl_new k x) = Ok t'" "labelled t'" "balanced t'"
      "avl_entries t' = add_entry k x (avl_entries t)"
    using assms insert_ok [OF _ _ _ h, of k x] by (auto simp: avl_ok_def)
  then show ?thesis using assms by (auto simp: avl_add_def avl_ok_def ascending_add_entry)
qed

interpretation avl: ordered_index NULL avl_add avl_find avl_entries avl_ok
  by unfold_locales (auto simp: avl_add_ok avl_find_def search_floor, auto simp: avl_ok_def search_floor)

text \<open>C29: Inserting a node into a search tree succeeds without dereferencing a null pointer, keeps
  the tree sorted and balanced with the right depth and balance at every node, adds exactly the new
  entry (none when the key is present), and the depth never exceeds 91.\<close>

theorem avl_insert_ok:
  assumes "avl_ok t"
  shows "\<exists>t'. avl_insert t (avl_new k x) = Ok t' \<and> avl_ok t'
    \<and> avl_entries t' = add_entry k x (avl_entries t) \<and> unat (a_depth t') \<le> 91"
proof -
  obtain t' where t': "avl_insert t (avl_new k x) = Ok t'" "avl_ok t'" "avl_entries t' = add_entry k x (avl_entries t)"
    using avl.ins_ok [OF assms] by (auto simp: avl_add_def)
  then have "avl_entries t' \<noteq> []" using set_add_entry [of k x "avl_entries t"] by auto
  then have "unat (a_depth t') = height t'" using t'(2) by (cases t') (auto simp: avl_ok_def)
  then show ?thesis using t' height_bound [of t'] by (auto simp: avl_ok_def)
qed

definition demo_tree :: "nat avl_tree" where
  "demo_tree = Avl (Avl NULL NULL 1 1 0 10) NULL 3 2 (- 1) 30"

theorem avl_insert_ok_witness:
  "\<exists>t'. avl_insert demo_tree (avl_new 2 20) = Ok t' \<and> avl_ok t' \<and> avl_entries t' = [(1, 10), (2, 20), (3, 30)]"
proof -
  have "avl_ok demo_tree" "add_entry 2 20 (avl_entries demo_tree) = [(1, 10), (2, 20), (3, 30)]"
    by (simp_all add: demo_tree_def avl_ok_def)
  then show ?thesis using avl_insert_ok [of demo_tree 2 20] by auto
qed

text \<open>C30: A search returns the node with the greatest key that is not above the key searched for, and
  no node exactly when all keys are above it; a walk visits the data in ascending order of the keys.\<close>

theorem avl_search_floor:
  assumes "avl_ok t"
  shows "(case avl_search t s of
      NULL \<Rightarrow> \<forall>e \<in> set (avl_entries t). s < fst e
    | Avl _ _ k _ _ x \<Rightarrow> (k, x) \<in> set (avl_entries t) \<and> k \<le> s \<and> (\<forall>e \<in> set (avl_entries t). fst e \<le> s \<longrightarrow> fst e \<le> k))
    \<and> avl_walk t hook a = fold hook (map snd (avl_entries t)) a \<and> ascending (avl_entries t)"
proof -
  have a: "ascending (avl_entries t)" using avl.ok_ascending [OF assms] .
  have f: "root_entry (avl_search t s) = floor_entry s (avl_entries t)"
    using avl.search_ok [OF assms] by (simp add: avl_find_def)
  then show ?thesis
    using floor_entry_None [of s "avl_entries t"] floor_entry_Some [OF a, of s] walk_entries a
    by (auto simp: root_entry_def split: avl_tree.splits)
qed

theorem avl_search_floor_witness:
  "(case avl_search demo_tree 2 of NULL \<Rightarrow> False | Avl _ _ k _ _ x \<Rightarrow> k = 1 \<and> x = 10)
    \<and> avl_walk demo_tree (\<lambda>x xs. xs @ [x]) [] = [10, 30]"
  using avl_search_floor [of demo_tree 2 "\<lambda>x xs. xs @ [x]" "[]"]
  by (simp add: demo_tree_def avl_ok_def)

end
