(* ===== verification/Olist.thy ===== *)
theory Olist
  imports Sherlock_Prelude
begin

text \<open>
  The ordered list of the debug information library
  (\<open>lib/debughelper/debughelperlib/src/generic_olist.c\<close>). Its elements are shared with the
  search tree, so they live in an explicit store and the links are addresses. The recursion
  follows the links and does not return on a cyclic list; the lemmas show that it does return on
  every list that ends, and what it leaves in the store.
\<close>

section \<open>Computations that may not return\<close>

text \<open>\<open>None\<close> is a computation that does not return.\<close>

type_synonym 'a run = "'a result option"

definition bind_run :: "'a run \<Rightarrow> ('a \<Rightarrow> 'b run) \<Rightarrow> 'b run" where
  "bind_run r f = Option.bind r (\<lambda>x. case x of Inl e \<Rightarrow> Some (Stop e) | Inr y \<Rightarrow> f y)"

abbreviation ret :: "'a \<Rightarrow> 'a run" where
  "ret x \<equiv> Some (Ok x)"

abbreviation undef_run :: "'a run" where
  "undef_run \<equiv> Some (Stop Undefined)"

lemma bind_run_simps [simp]:
  "bind_run None f = None" "bind_run (Some (Inl e)) f = Some (Inl e)" "bind_run (ret x) f = f x"
  by (simp_all add: bind_run_def)

lemma bind_run_mono [partial_function_mono]:
  assumes "mono_option B" "\<And>y. mono_option (C y)"
  shows "mono_option (\<lambda>f. bind_run (B f) (\<lambda>y. C y f))"
  unfolding bind_run_def
proof (rule bind_mono [OF assms(1)])
  fix x
  show "mono_option (\<lambda>f. case x of Inl e \<Rightarrow> Some (Stop e) | Inr y \<Rightarrow> C y f)"
    using assms(2) by (cases x) (simp_all add: option.const_mono)
qed

fun fold_run :: "('a \<Rightarrow> 's \<Rightarrow> 's run) \<Rightarrow> 'a list \<Rightarrow> 's \<Rightarrow> 's run" where
  "fold_run f [] s = ret s"
| "fold_run f (x # xs) s = bind_run (f x s) (fold_run f xs)"

lemma fold_run_invariant:
  assumes "\<And>x s. x \<in> set xs \<Longrightarrow> P s \<Longrightarrow> \<exists>s'. f x s = ret s' \<and> P s' \<and> R s s'"
    and "P s" and "\<And>s. R s s" and "\<And>a b c. R a b \<Longrightarrow> R b c \<Longrightarrow> R a c"
  shows "\<exists>s'. fold_run f xs s = ret s' \<and> P s' \<and> R s s'"
  using assms(1,2)
proof (induction xs arbitrary: s)
  case Nil
  then show ?case using assms(3) by auto
next
  case (Cons x xs)
  then obtain s1 where s1: "f x s = ret s1" "P s1" "R s s1" by (metis list.set_intros(1))
  then obtain s2 where "fold_run f xs s1 = ret s2" "P s2" "R s1 s2" using Cons by (metis list.set_intros(2))
  with s1 show ?case using assms(4) by auto
qed

section \<open>The code\<close>

record 'a olist_elt_t =
  el_next :: "nat option"
  el_key :: u32
  el_data :: 'a

type_synonym 'a store = "nat \<Rightarrow> 'a olist_elt_t option"

definition olist_new :: "u32 \<Rightarrow> 'a \<Rightarrow> 'a olist_elt_t" where
  "olist_new key data = \<lparr>el_next = None, el_key = key, el_data = data\<rparr>"

definition load :: "'a store \<Rightarrow> nat \<Rightarrow> 'a olist_elt_t run" where
  "load h a = (case h a of None \<Rightarrow> undef_run | Some e \<Rightarrow> ret e)"

definition set_next :: "nat \<Rightarrow> nat option \<Rightarrow> 'a store \<Rightarrow> 'a store run" where
  "set_next a p h = bind_run (load h a) (\<lambda>e. ret (h(a \<mapsto> e\<lparr>el_next := p\<rparr>)))"

partial_function (option) olist_add :: "'a store \<Rightarrow> nat option \<Rightarrow> nat \<Rightarrow> ('a store \<times> nat option) run" where
  "olist_add h list new = (case list of
     None \<Rightarrow> bind_run (set_next new None h) (\<lambda>h. ret (h, Some new))
   | Some a \<Rightarrow>
       bind_run (load h a) (\<lambda>e.
       bind_run (load h new) (\<lambda>n.
         if el_key e > el_key n then bind_run (set_next new list h) (\<lambda>h. ret (h, Some new))
         else bind_run (olist_add h (el_next e) new) (\<lambda>(h, p).
              bind_run (set_next a p h) (\<lambda>h. ret (h, list))))))"

partial_function (option) olist_search :: "'a store \<Rightarrow> nat option \<Rightarrow> u32 \<Rightarrow> nat option run" where
  "olist_search h list key = (case list of
     None \<Rightarrow> ret None
   | Some a \<Rightarrow> bind_run (load h a) (\<lambda>e.
       if el_key e = key then ret (Some a) else olist_search h (el_next e) key))"

partial_function (option) olist_for_each :: "'a store \<Rightarrow> nat option \<Rightarrow> ('a \<Rightarrow> 's \<Rightarrow> 's) \<Rightarrow> 's \<Rightarrow> 's run" where
  "olist_for_each h list hook s = (case list of
     None \<Rightarrow> ret s
   | Some a \<Rightarrow> bind_run (load h a) (\<lambda>e. olist_for_each h (el_next e) hook (hook (el_data e) s)))"

section \<open>Lists in the store\<close>

text \<open>\<open>path h p as q\<close>: following the links from \<open>p\<close> one passes the addresses \<open>as\<close> and arrives at \<open>q\<close>.\<close>

fun path :: "'a store \<Rightarrow> nat option \<Rightarrow> nat list \<Rightarrow> nat option \<Rightarrow> bool" where
  "path h p [] q \<longleftrightarrow> p = q"
| "path h p (a # as) q \<longleftrightarrow> p = Some a \<and> (\<exists>e. h a = Some e \<and> path h (el_next e) as q)"

definition key_at :: "'a store \<Rightarrow> nat \<Rightarrow> u32" where
  "key_at h a = (case h a of None \<Rightarrow> 0 | Some e \<Rightarrow> el_key e)"

text \<open>What the links are not part of.\<close>

definition contents :: "'a store \<Rightarrow> nat \<Rightarrow> (u32 \<times> 'a) option" where
  "contents h a = map_option (\<lambda>e. (el_key e, el_data e)) (h a)"

lemma contents_key: "contents h a = contents h' b \<Longrightarrow> key_at h a = key_at h' b"
  by (auto simp: contents_def key_at_def split: option.splits)

lemma path_app: "path h p (as @ bs) q \<longleftrightarrow> (\<exists>r. path h p as r \<and> path h r bs q)"
  by (induction as arbitrary: p) auto

lemma path_upd [simp]: "a \<notin> set as \<Longrightarrow> path (h(a := v)) p as q = path h p as q"
  by (induction as arbitrary: p) auto

lemma path_defined: "path h p as q \<Longrightarrow> a \<in> set as \<Longrightarrow> \<exists>e. h a = Some e"
  by (induction as arbitrary: p) auto

lemma contents_set_next: "h a = Some e \<Longrightarrow> contents (h(a \<mapsto> e\<lparr>el_next := p\<rparr>)) = contents h"
  by (auto simp: contents_def fun_eq_iff)

section \<open>Insertion keeps the order\<close>

text \<open>The address is put before the first one with a greater key.\<close>

fun put_sorted :: "('b \<Rightarrow> 'k::linorder) \<Rightarrow> 'b \<Rightarrow> 'b list \<Rightarrow> 'b list" where
  "put_sorted f x [] = [x]"
| "put_sorted f x (y # ys) = (if f y > f x then x # y # ys else y # put_sorted f x ys)"

lemma set_put_sorted [simp]: "set (put_sorted f x ys) = Set.insert x (set ys)"
  by (induction ys) auto

lemma put_sorted_skip: "(\<forall>y \<in> set xs. f y \<le> f x) \<Longrightarrow> put_sorted f x (xs @ ys) = xs @ put_sorted f x ys"
  by (induction xs) auto

lemma sorted_put: "sorted (map f ys) \<Longrightarrow> sorted (map f (put_sorted f x ys))"
  by (induction ys) auto

lemma put_sorted_cong:
  "(\<And>y. y \<in> Set.insert x (set ys) \<Longrightarrow> f y = g y) \<Longrightarrow> put_sorted f x ys = put_sorted g x ys"
  by (induction ys) auto

lemma olist_add_path:
  assumes "path h list as None" "distinct as" "new \<notin> set as" "h new = Some n"
  shows "\<exists>h' p. olist_add h list new = ret (h', p) \<and> path h' p (put_sorted (key_at h) new as) None
    \<and> contents h' = contents h \<and> (\<forall>b. b \<notin> Set.insert new (set as) \<longrightarrow> h' b = h b)
    \<and> (\<forall>a bs. as = a # bs \<longrightarrow> key_at h a \<le> el_key n \<longrightarrow> p = list)"
  using assms
proof (induction as arbitrary: list)
  case Nil
  then show ?case
    by (subst olist_add.simps) (simp add: set_next_def load_def contents_set_next)
next
  case (Cons a as)
  then obtain e where e: "list = Some a" "h a = Some e" "path h (el_next e) as None" by auto
  show ?case
  proof (cases "el_key e > el_key n")
    case True
    then have k: "key_at h a > key_at h new" using e Cons.prems(4) by (simp add: key_at_def)
    show ?thesis
      using True k e Cons.prems
      by (subst olist_add.simps) (auto simp: set_next_def load_def contents_set_next key_at_def)
  next
    case False
    obtain h1 p1 where r: "olist_add h (el_next e) new = ret (h1, p1)"
        "path h1 p1 (put_sorted (key_at h) new as) None" "contents h1 = contents h"
        "\<forall>b. b \<notin> Set.insert new (set as) \<longrightarrow> h1 b = h b"
      using Cons.IH [OF e(3)] Cons.prems by auto
    have h1a: "h1 a = Some e" using r(4) e Cons.prems by auto
    have "\<not> key_at h a > key_at h new" using False e Cons.prems(4) by (simp add: key_at_def)
    moreover have "contents (h1(a \<mapsto> e\<lparr>el_next := p1\<rparr>)) = contents h"
      using r(3) contents_set_next [of h1 a e p1] h1a by simp
    ultimately show ?thesis
      using False e r Cons.prems h1a
      by (subst olist_add.simps) (auto simp: set_next_def load_def)
  qed
qed

lemma olist_search_path:
  "path h list as None \<Longrightarrow> olist_search h list key = ret (find (\<lambda>a. key_at h a = key) as)"
proof (induction as arbitrary: list)
  case Nil
  then show ?case by (subst olist_search.simps) simp
next
  case (Cons a as)
  then show ?case by (subst olist_search.simps) (auto simp: load_def key_at_def)
qed

lemma olist_for_each_path:
  "path h list as None \<Longrightarrow> olist_for_each h list hook s = ret (fold (\<lambda>a. hook (el_data (the (h a)))) as s)"
proof (induction as arbitrary: list s)
  case Nil
  then show ?case by (subst olist_for_each.simps) simp
next
  case (Cons a as)
  then show ?case by (subst olist_for_each.simps) (auto simp: load_def)
qed

end
