(* ===== verification/Debug_Helper.thy ===== *)
theory Debug_Helper
  imports Avl_Tree Olist
begin

text \<open>
  The index of instructions by address that the debug information library builds
  (\<open>debug_helper.c\<close>, with \<open>functions.c\<close>, \<open>insn.c\<close>, \<open>insn_tree.c\<close> and
  \<open>counters.c\<close> of \<open>lib/debughelper/debughelperlib/src\<close>). The same elements are in an
  ordered list and, by address, in a search tree. The theory shows that the two always agree,
  that the index built from the functions and source lines of a program is
  complete, and what a lookup of an address returns. The functions and lines themselves are read from the
  DWARF sections of the program by code that calls libdwarf; they are arguments of the model.
\<close>

section \<open>Functions, counters and instructions\<close>

definition FUNCTION_TYPE_NONE :: u8 where "FUNCTION_TYPE_NONE = 0"
definition FUNCTION_TYPE_FUNC :: u8 where "FUNCTION_TYPE_FUNC = 1"
definition FUNCTION_TYPE_INLINE :: u8 where "FUNCTION_TYPE_INLINE = 2"
definition FUNCTION_TYPE_SCOPE :: u8 where "FUNCTION_TYPE_SCOPE = 4"

text \<open>\<open>f_ranges\<close> holds the \<open>nb_ranges\<close> ranges; in a copy the fields are not initialised, which is \<open>None\<close>.\<close>

record function_t =
  f_type :: u8
  f_entry_pc :: u32
  f_ranges :: "(u32 \<times> u32) list option"
  f_lowpc :: u32
  f_highpc :: u32
  f_name :: "string option"
  f_CU_idx :: u64
  f_die_off :: u64
  f_die_origin :: u64
  f_declaration :: int

definition function_new :: function_t where
  "function_new = \<lparr>f_type = FUNCTION_TYPE_NONE, f_entry_pc = 0, f_ranges = Some [], f_lowpc = 0, f_highpc = 0,
     f_name = None, f_CU_idx = 0, f_die_off = 0, f_die_origin = 0, f_declaration = 0\<rparr>"

definition function_copy :: "function_t \<Rightarrow> function_t" where
  "function_copy src = src\<lparr>f_ranges := None\<rparr>"

definition IS_IN_FUNCTION_RANGE :: "u32 \<Rightarrow> function_t \<Rightarrow> bool" where
  "IS_IN_FUNCTION_RANGE addr func \<longleftrightarrow> addr \<ge> f_lowpc func \<and> addr \<le> f_highpc func"

text \<open>A list of functions is the chain of their \<open>next\<close> pointers.\<close>

fun flist_walk :: "function_t list \<Rightarrow> (function_t \<Rightarrow> 's \<Rightarrow> 's run) \<Rightarrow> 's \<Rightarrow> 's run" where
  "flist_walk [] hook s = ret s"
| "flist_walk (f # fs) hook s = bind_run (flist_walk fs hook s) (hook f)"

definition flist_add_head :: "function_t list \<Rightarrow> function_t \<Rightarrow> function_t list" where
  "flist_add_head list new = new # list"

fun flist_lookup :: "function_t list \<Rightarrow> u64 \<Rightarrow> u64 \<Rightarrow> function_t option" where
  "flist_lookup [] cu off = None"
| "flist_lookup (f # fs) cu off = (if f_CU_idx f = cu \<and> f_die_off f = off then Some f else flist_lookup fs cu off)"

fun flist_lookup_entry :: "function_t list \<Rightarrow> u64 \<Rightarrow> function_t option" where
  "flist_lookup_entry [] entry = None"
| "flist_lookup_entry (f # fs) entry = (if ucast (f_lowpc f) = entry then Some f else flist_lookup_entry fs entry)"

fun flist_lookup_addr :: "function_t list \<Rightarrow> u32 \<Rightarrow> function_t option" where
  "flist_lookup_addr [] addr = None"
| "flist_lookup_addr (f # fs) addr = (if IS_IN_FUNCTION_RANGE addr f then Some f else flist_lookup_addr fs addr)"

fun flist_lookup_name :: "function_t list \<Rightarrow> string \<Rightarrow> function_t option result" where
  "flist_lookup_name [] nm = Ok None"
| "flist_lookup_name (f # fs) nm = (case f_name f of None \<Rightarrow> Stop Undefined
     | Some n \<Rightarrow> if n = nm then Ok (Some f) else flist_lookup_name fs nm)"

record counters_t =
  rep_counter :: u32
  nb_IC_miss :: u32
  nb_DC_miss :: u32
  nb_IT_miss :: u32
  nb_DT_miss :: u32
  total_ir :: u64
  total_en :: u64
  total_cyc :: u64

definition counters_new :: counters_t where
  "counters_new = \<lparr>rep_counter = 0, nb_IC_miss = 0, nb_DC_miss = 0, nb_IT_miss = 0, nb_DT_miss = 0,
     total_ir = 0, total_en = 0, total_cyc = 0\<rparr>"

definition counters_sum :: "counters_t \<Rightarrow> counters_t \<Rightarrow> counters_t" where
  "counters_sum a b = a\<lparr>total_ir := total_ir a + total_ir b, total_en := total_en a + total_en b,
     total_cyc := total_cyc a + total_cyc b, nb_IC_miss := nb_IC_miss a + nb_IC_miss b,
     nb_DC_miss := nb_DC_miss a + nb_DC_miss b, nb_IT_miss := nb_IT_miss a + nb_IT_miss b,
     nb_DT_miss := nb_DT_miss a + nb_DT_miss b\<rparr>"

record line_nfo_t =
  ln_addr :: u32
  ln_fileno :: u16
  ln_lineno :: u16

record src_tab_t =
  st_files :: "string list"
  st_lines :: "line_nfo_t list"

definition INSN_FLAGS_UNUSED :: u32 where "INSN_FLAGS_UNUSED = 0x01"
definition INSN_FLAGS_FUNC_ENTRY :: u32 where "INSN_FLAGS_FUNC_ENTRY = 0x02"
definition INSN_FLAGS_FUNC_END :: u32 where "INSN_FLAGS_FUNC_END = 0x04"
definition INSN_FLAGS_NEW_LINE :: u32 where "INSN_FLAGS_NEW_LINE = 0x20"
definition INSN_FLAGS_FUNC_RANGE :: u32 where "INSN_FLAGS_FUNC_RANGE = 0x40"

record insn_t =
  i_flags :: u32
  i_addr :: u32
  i_ret_addr :: u32
  i_func :: "function_t list"
  i_line :: "line_nfo_t option"
  i_fname :: "string option"
  i_costs :: counters_t

definition insn_new :: "u32 \<Rightarrow> insn_t" where
  "insn_new pc = \<lparr>i_flags = 0, i_addr = pc, i_ret_addr = 0, i_func = [], i_line = None, i_fname = None,
     i_costs = counters_new\<rparr>"

section \<open>The index\<close>

type_synonym ilist_elt_t = "insn_t olist_elt_t"

record debug_helper_t =
  insn_list :: "nat option"
  insn_tree :: "nat avl_tree"
  dh_elts :: "insn_t store"
  dh_fresh :: nat

definition ilist_new :: "insn_t \<Rightarrow> ilist_elt_t" where
  "ilist_new insn = olist_new (i_addr insn) insn"

definition new_elt :: "ilist_elt_t \<Rightarrow> debug_helper_t \<Rightarrow> nat \<times> debug_helper_t" where
  "new_elt e dh = (dh_fresh dh, dh\<lparr>dh_elts := (dh_elts dh)(dh_fresh dh \<mapsto> e), dh_fresh := dh_fresh dh + 1\<rparr>)"

definition tree_insert :: "u32 \<Rightarrow> nat \<Rightarrow> debug_helper_t \<Rightarrow> debug_helper_t run" where
  "tree_insert addr a dh =
     bind_run (Some (avl_insert (insn_tree dh) (avl_new (ucast addr) a))) (\<lambda>t. ret (dh\<lparr>insn_tree := t\<rparr>))"

text \<open>The middle of \<open>dh_add\<close> and \<open>dh_search_add\<close>: the new element goes behind the one that was found.\<close>

definition dh_link :: "nat avl_tree \<Rightarrow> u32 \<Rightarrow> nat \<Rightarrow> debug_helper_t \<Rightarrow> debug_helper_t run" where
  "dh_link found addr res dh = (case found of
     NULL \<Rightarrow>
       bind_run (olist_add (dh_elts dh) (insn_list dh) res) (\<lambda>(h, p).
         tree_insert addr res (dh\<lparr>dh_elts := h, insn_list := p\<rparr>))
   | Avl _ _ k _ _ a \<Rightarrow>
       if k < ucast addr then
         bind_run (olist_add (dh_elts dh) (Some a) res) (\<lambda>(h, _). tree_insert addr res (dh\<lparr>dh_elts := h\<rparr>))
       else ret dh)"

definition dh_add :: "u32 \<Rightarrow> debug_helper_t \<Rightarrow> (nat \<times> debug_helper_t) run" where
  "dh_add key dh =
     (let found = avl_search (insn_tree dh) (ucast key) in
      if found \<noteq> NULL \<and> a_key found = ucast key then ret (a_data found, dh)
      else let (res, dh) = new_elt (ilist_new (insn_new key)) dh
           in bind_run (dh_link found key res dh) (\<lambda>dh. ret (res, dh)))"

definition dh_search_add :: "u32 \<Rightarrow> debug_helper_t \<Rightarrow> (nat \<times> debug_helper_t) run" where
  "dh_search_add addr dh =
     (let found = avl_search (insn_tree dh) (ucast addr) in
      if found \<noteq> NULL \<and> a_key found = ucast addr then ret (a_data found, dh)
      else let (res, dh) = new_elt (ilist_new (insn_new addr)) dh
           in bind_run (dh_link found addr res dh) (\<lambda>dh. ret (res, dh)))"

definition dh_search :: "debug_helper_t \<Rightarrow> u32 \<Rightarrow> nat option" where
  "dh_search dh addr = (case avl_search (insn_tree dh) (ucast addr) of NULL \<Rightarrow> None | Avl _ _ _ _ _ a \<Rightarrow> Some a)"

definition upd_insn :: "nat \<Rightarrow> (insn_t \<Rightarrow> insn_t) \<Rightarrow> debug_helper_t \<Rightarrow> debug_helper_t run" where
  "upd_insn a f dh =
     bind_run (load (dh_elts dh) a) (\<lambda>e. ret (dh\<lparr>dh_elts := (dh_elts dh)(a \<mapsto> e\<lparr>el_data := f (el_data e)\<rparr>)\<rparr>))"

definition mark :: "u32 \<Rightarrow> insn_t \<Rightarrow> insn_t" where
  "mark fl i = i\<lparr>i_flags := i_flags i OR (INSN_FLAGS_UNUSED OR fl)\<rparr>"

definition enter :: "u32 \<Rightarrow> function_t \<Rightarrow> insn_t \<Rightarrow> insn_t" where
  "enter fl func i = (mark fl i)\<lparr>i_func := flist_add_head (i_func i) (function_copy func)\<rparr>"

definition dh_function_register :: "function_t \<Rightarrow> debug_helper_t \<Rightarrow> debug_helper_t run" where
  "dh_function_register func dh =
     (if f_declaration func = 1 then ret dh
      else case f_ranges func of
        None \<Rightarrow> undef_run
      | Some rs \<Rightarrow>
          if rs \<noteq> [] then
            fold_run (\<lambda>r dh. bind_run (dh_search_add (fst r) dh) (\<lambda>(a, dh).
              upd_insn a (enter INSN_FLAGS_FUNC_RANGE func) dh)) rs dh
          else
            bind_run (dh_search_add (f_lowpc func) dh) (\<lambda>(a, dh).
            bind_run (upd_insn a (enter INSN_FLAGS_FUNC_ENTRY func) dh) (\<lambda>dh.
            bind_run (dh_search_add (f_highpc func) dh) (\<lambda>(b, dh).
              upd_insn b (mark INSN_FLAGS_FUNC_END) dh))))"

definition set_line :: "string list \<Rightarrow> line_nfo_t \<Rightarrow> insn_t \<Rightarrow> insn_t" where
  "set_line files l i =
     (if i_flags i AND INSN_FLAGS_NEW_LINE \<noteq> 0 then i
      else let fileno = int (unat (ln_fileno l)) - 1 in
        i\<lparr>i_flags := i_flags i OR (INSN_FLAGS_NEW_LINE OR INSN_FLAGS_UNUSED), i_line := Some l,
          i_fname := (if fileno < 0 \<or> fileno \<ge> int (length files) then None else Some (files ! nat fileno))\<rparr>)"

definition dh_src_line_register :: "src_tab_t list \<Rightarrow> debug_helper_t \<Rightarrow> debug_helper_t run" where
  "dh_src_line_register tabs =
     fold_run (\<lambda>tab. fold_run (\<lambda>l dh. bind_run (dh_search_add (ln_addr l) dh) (\<lambda>(a, dh).
       upd_insn a (set_line (st_files tab) l) dh)) (st_lines tab)) tabs"

definition head_func :: "ilist_elt_t \<Rightarrow> function_t run" where
  "head_func e = (case i_func (el_data e) of [] \<Rightarrow> undef_run | f # _ \<Rightarrow> ret f)"

text \<open>The inner loop of \<open>dh_fix_functions\<close>: it looks at the element \<open>a\<close> in every turn.\<close>

partial_function (option) fix_next :: "insn_t store \<Rightarrow> nat \<Rightarrow> nat option \<Rightarrow> nat option run" where
  "fix_next h a pelt_next = (case pelt_next of
     None \<Rightarrow> ret None
   | Some b \<Rightarrow>
       bind_run (load h a) (\<lambda>e.
       bind_run (head_func e) (\<lambda>f.
         if f_type f = FUNCTION_TYPE_FUNC then ret pelt_next
         else bind_run (load h b) (\<lambda>n. fix_next h a (el_next n)))))"

definition load_ptr :: "'a store \<Rightarrow> nat option \<Rightarrow> 'a olist_elt_t run" where
  "load_ptr h p = (case p of None \<Rightarrow> undef_run | Some a \<Rightarrow> load h a)"

definition unsized :: "ilist_elt_t \<Rightarrow> bool run" where
  "unsized e =
     (if i_flags (el_data e) AND INSN_FLAGS_FUNC_ENTRY = 0 then ret False
      else bind_run (head_func e) (\<lambda>f. ret (f_type f = FUNCTION_TYPE_FUNC \<and> f_highpc f = 0xFFFFFFFF)))"

definition set_highpc :: "u32 \<Rightarrow> insn_t \<Rightarrow> insn_t" where
  "set_highpc pc i = i\<lparr>i_func := (case i_func i of [] \<Rightarrow> [] | f # fs \<Rightarrow> f\<lparr>f_highpc := pc\<rparr> # fs)\<rparr>"

partial_function (option) fix_loop :: "insn_t store \<Rightarrow> nat option \<Rightarrow> insn_t store run" where
  "fix_loop h pelt = (case pelt of
     None \<Rightarrow> ret h
   | Some a \<Rightarrow>
       bind_run (load h a) (\<lambda>e.
       bind_run (unsized e) (\<lambda>u.
         if u then
           bind_run (fix_next h a (el_next e)) (\<lambda>pelt_next.
             if pelt_next = None then ret h
             else bind_run (load_ptr h (el_next e)) (\<lambda>n.
                  fix_loop (h(a \<mapsto> e\<lparr>el_data := set_highpc (i_addr (el_data n)) (el_data e)\<rparr>)) pelt_next))
         else fix_loop h (el_next e))))"

definition dh_fix_functions :: "debug_helper_t \<Rightarrow> debug_helper_t run" where
  "dh_fix_functions dh = bind_run (fix_loop (dh_elts dh) (insn_list dh)) (\<lambda>h. ret (dh\<lparr>dh_elts := h\<rparr>))"

definition dh_init :: "function_t list \<Rightarrow> src_tab_t list \<Rightarrow> debug_helper_t run" where
  "dh_init funcs tabs =
     bind_run (flist_walk funcs dh_function_register \<lparr>insn_list = None, insn_tree = NULL, dh_elts = (\<lambda>_. None), dh_fresh = 0\<rparr>) (\<lambda>dh.
     bind_run (dh_fix_functions dh) (dh_src_line_register tabs))"

definition insn_at :: "insn_t store \<Rightarrow> nat \<Rightarrow> insn_t result" where
  "insn_at h a = (case h a of None \<Rightarrow> Stop Undefined | Some e \<Rightarrow> Ok (el_data e))"

fun itree_search_filtered_l :: "insn_t store \<Rightarrow> nat avl_tree \<Rightarrow> u64 \<Rightarrow> u32 \<Rightarrow> nat option result" where
  "itree_search_filtered_l h NULL skey sfilter = Ok None"
| "itree_search_filtered_l h (Avl l r k d f a) skey sfilter =
     bind_result (if k = skey then bind_result (insn_at h a) (\<lambda>i. Ok (i_flags i AND sfilter \<noteq> 0)) else Ok False) (\<lambda>hit.
     if hit then Ok (Some a)
     else if k < skey then
       bind_result (itree_search_filtered_l h r skey sfilter) (\<lambda>res.
         if res \<noteq> None then Ok res
         else bind_result (insn_at h a) (\<lambda>i.
           if i_flags i AND sfilter \<noteq> 0 then Ok (Some a) else itree_search_filtered_l h l skey sfilter))
     else itree_search_filtered_l h l skey sfilter)"

definition dh_addr2line :: "debug_helper_t \<Rightarrow> u32 \<Rightarrow> (u16 \<times> string option) option result" where
  "dh_addr2line dh addr =
     bind_result (itree_search_filtered_l (dh_elts dh) (insn_tree dh) (ucast addr) INSN_FLAGS_NEW_LINE) (\<lambda>res.
     case res of None \<Rightarrow> Ok None
     | Some a \<Rightarrow> bind_result (insn_at (dh_elts dh) a) (\<lambda>i. Ok (map_option (\<lambda>l. (ln_lineno l, i_fname i)) (i_line i))))"

section \<open>List and tree agree\<close>

definition entry_at :: "insn_t store \<Rightarrow> nat \<Rightarrow> u64 \<times> nat" where
  "entry_at h a = (ucast (key_at h a), a)"

text \<open>\<open>as\<close> are the addresses of the elements in list order: the tree has the same elements under their keys.\<close>

definition dh_rep :: "debug_helper_t \<Rightarrow> nat list \<Rightarrow> bool" where
  "dh_rep dh as \<longleftrightarrow> path (dh_elts dh) (insn_list dh) as None
     \<and> avl_ok (insn_tree dh) \<and> avl_entries (insn_tree dh) = map (entry_at (dh_elts dh)) as
     \<and> (\<forall>a. dh_fresh dh \<le> a \<longrightarrow> dh_elts dh a = None)
     \<and> (\<forall>a e. dh_elts dh a = Some e \<longrightarrow> i_addr (el_data e) = el_key e)"

definition dh_inv :: "debug_helper_t \<Rightarrow> bool" where
  "dh_inv dh \<longleftrightarrow> (\<exists>as. dh_rep dh as)"

definition dh_keys :: "debug_helper_t \<Rightarrow> u32 set" where
  "dh_keys dh = {k. ucast k \<in> fst ` set (avl_entries (insn_tree dh))}"

lemma ucast_u64_mono: "(ucast (x :: u32) :: u64) < ucast y \<longleftrightarrow> x < y"
  by (simp add: word_less_nat_alt unsigned_ucast_eq take_bit_nat_eq_self unsigned_less [THEN order.strict_trans2])

lemma ucast_u64_eq: "(ucast (x :: u32) :: u64) = ucast y \<longleftrightarrow> x = y"
  using ucast_u64_mono [of x y] ucast_u64_mono [of y x] by (metis less_irrefl linorder_cases)

lemma rep_ascending:
  assumes "dh_rep dh as"
  shows "sorted_wrt (<) (map (key_at (dh_elts dh)) as)" "distinct as" "dh_keys dh = key_at (dh_elts dh) ` set as"
proof -
  have "ascending (map (entry_at (dh_elts dh)) as)"
    using assms avl.ok_ascending [of "insn_tree dh"] by (simp add: dh_rep_def)
  then show s: "sorted_wrt (<) (map (key_at (dh_elts dh)) as)"
    by (simp add: entry_at_def sorted_wrt_map ucast_u64_mono)
  then have "distinct (map (key_at (dh_elts dh)) as)" by (simp add: strict_sorted_iff)
  then show "distinct as" by (simp add: distinct_map)
  show "dh_keys dh = key_at (dh_elts dh) ` set as"
    using assms by (auto simp: dh_keys_def dh_rep_def entry_at_def ucast_u64_eq image_iff)
qed

lemma add_entry_put:
  assumes "key_at h new \<notin> key_at h ` set as"
  shows "add_entry (ucast (key_at h new)) new (map (entry_at h) as) = map (entry_at h) (put_sorted (key_at h) new as)"
  using assms
proof (induction as)
  case Nil
  then show ?case by (simp add: entry_at_def)
next
  case (Cons a as)
  have "key_at h a \<noteq> key_at h new" using Cons.prems by auto
  then show ?case using Cons by (auto simp: entry_at_def ucast_u64_mono ucast_u64_eq)
qed

lemma entry_at_contents: "contents h = contents h' \<Longrightarrow> key_at h = key_at h' \<and> entry_at h = entry_at h'"
proof -
  assume "contents h = contents h'"
  then have "key_at h = key_at h'" using contents_key [of h _ h'] by (simp add: fun_eq_iff)
  then show ?thesis by (simp add: entry_at_def fun_eq_iff)
qed

text \<open>What the tree finds, in terms of the list.\<close>

lemma rep_search:
  assumes "dh_rep dh as"
  shows "case avl_search (insn_tree dh) (ucast addr) of
      NULL \<Rightarrow> \<forall>a \<in> set as. addr < key_at (dh_elts dh) a
    | Avl _ _ k _ _ a \<Rightarrow> k = ucast (key_at (dh_elts dh) a) \<and>
        (\<exists>pre post. as = pre @ a # post \<and> (\<forall>b \<in> set (pre @ [a]). key_at (dh_elts dh) b \<le> addr)
           \<and> (\<forall>b \<in> set post. addr < key_at (dh_elts dh) b))"
proof -
  let ?k = "key_at (dh_elts dh)"
  have e: "avl_entries (insn_tree dh) = map (entry_at (dh_elts dh)) as" and ok: "avl_ok (insn_tree dh)"
    using assms by (simp_all add: dh_rep_def)
  have f: "root_entry (avl_search (insn_tree dh) (ucast addr)) = floor_entry (ucast addr) (map (entry_at (dh_elts dh)) as)"
    using avl.search_ok [OF ok] by (simp add: avl_find_def e)
  show ?thesis
  proof (cases "avl_search (insn_tree dh) (ucast addr)")
    case NULL
    then have "\<forall>a \<in> set as. (ucast addr :: u64) < ucast (?k a)"
      using f floor_entry_None [of "ucast addr" "map (entry_at (dh_elts dh)) as"] by (auto simp: root_entry_def entry_at_def)
    then show ?thesis using NULL by (simp add: ucast_u64_mono)
  next
    case (Avl l r k d fl a)
    have asc: "ascending (map (entry_at (dh_elts dh)) as)" using avl.ok_ascending [OF ok] e by simp
    have "floor_entry (ucast addr) (map (entry_at (dh_elts dh)) as) = Some (k, a)"
      using f Avl by (simp add: root_entry_def)
    note fl = floor_entry_Some [OF asc this]
    have k: "k = ucast (?k a)" "a \<in> set as" using fl(1) by (auto simp: entry_at_def)
    then have le: "?k a \<le> addr" using fl(2) ucast_u64_mono [of addr "?k a"] by (simp add: linorder_not_less [symmetric])
    have mx: "?k b \<le> ?k a" if "b \<in> set as" "?k b \<le> addr" for b
      using fl(3) [of "entry_at (dh_elts dh) b"] that k(1) ucast_u64_mono [of addr "?k b"] ucast_u64_mono [of "?k a" "?k b"]
      by (auto simp: entry_at_def linorder_not_less [symmetric])
    obtain pre post where as: "as = pre @ a # post" using k(2) by (auto simp: in_set_conv_decomp)
    have "sorted_wrt (<) (map ?k as)" by (rule rep_ascending(1) [OF assms])
    then have "\<forall>b \<in> set pre. ?k b < ?k a" "\<forall>b \<in> set post. ?k a < ?k b" by (auto simp: as sorted_wrt_append)
    then have "\<forall>b \<in> set (pre @ [a]). ?k b \<le> addr" "\<forall>b \<in> set post. addr < ?k b"
      using le mx as by (auto simp: not_le [symmetric] dest: order.strict_implies_order)
    then show ?thesis using Avl k as by auto
  qed
qed

lemma path_fresh:
  assumes "path h p as q" "h a = None"
  shows "path (h(a \<mapsto> e)) p as q"
  using assms path_defined [OF assms(1), of a] by (cases "a \<in> set as") auto

lemma contents_dom: "contents h' = contents h \<Longrightarrow> dom h' = dom h"
proof -
  assume c: "contents h' = contents h"
  have "h' a = None \<longleftrightarrow> h a = None" for a using fun_cong [OF c, of a] by (auto simp: contents_def)
  then show ?thesis by (simp add: dom_def)
qed

text \<open>Putting a new element into the list, from its head or from behind the element that was found.\<close>

lemma add_from_head:
  assumes "dh_rep dh as" "dh_elts dh new = None" "h = (dh_elts dh)(new \<mapsto> e)"
  shows "\<exists>h' p. olist_add h (insn_list dh) new = ret (h', p) \<and> path h' p (put_sorted (key_at h) new as) None
    \<and> contents h' = contents h \<and> dom h' = dom h"
proof -
  have p: "path h (insn_list dh) as None"
    using assms path_fresh by (auto simp: dh_rep_def)
  have "new \<notin> set as" using assms path_defined [of "dh_elts dh" _ as _ new] by (auto simp: dh_rep_def)
  then obtain h' q where r: "olist_add h (insn_list dh) new = ret (h', q)" "path h' q (put_sorted (key_at h) new as) None"
      "contents h' = contents h"
    using olist_add_path [OF p rep_ascending(2) [OF assms(1)], of new e] assms(3) by auto
  then show ?thesis using contents_dom by blast
qed

lemma add_from_found:
  assumes "dh_rep dh as" "dh_elts dh new = None" "h = (dh_elts dh)(new \<mapsto> e)"
    and as: "as = pre @ a # post" "\<forall>b \<in> set (pre @ [a]). key_at (dh_elts dh) b \<le> el_key e"
  shows "\<exists>h' p. olist_add h (Some a) new = ret (h', p) \<and> path h' (insn_list dh) (put_sorted (key_at h) new as) None
    \<and> contents h' = contents h \<and> dom h' = dom h"
proof -
  have p: "path h (insn_list dh) as None"
    using assms(1-3) path_fresh by (auto simp: dh_rep_def)
  then have pa: "path h (insn_list dh) pre (Some a)" "path h (Some a) (a # post) None"
    by (auto simp: as path_app)
  have new: "new \<notin> set as" using assms(1,2) path_defined [of "dh_elts dh" _ as _ new] by (auto simp: dh_rep_def)
  have d: "distinct as" by (rule rep_ascending(2) [OF assms(1)])
  have k: "key_at h b = key_at (dh_elts dh) b" if "b \<in> set as" for b
    using that new assms(3) by (auto simp: key_at_def)
  have kn: "key_at h new = el_key e" using assms(3) by (simp add: key_at_def)
  have "new \<notin> set (a # post)" "distinct (a # post)" "h new = Some e" using new d as(1) assms(3) by auto
  from olist_add_path [OF pa(2) this(2,1,3)]
  obtain h' q where r: "olist_add h (Some a) new = ret (h', q)" "path h' q (put_sorted (key_at h) new (a # post)) None"
      "contents h' = contents h" "\<forall>b. b \<notin> Set.insert new (set (a # post)) \<longrightarrow> h' b = h b"
      "key_at h a \<le> el_key e \<Longrightarrow> q = Some a" by blast
  have "key_at h a \<le> el_key e" using k as by auto
  then have q: "q = Some a" by (rule r(5))
  have "path h' (insn_list dh) pre (Some a)"
  proof -
    have "\<forall>b \<in> set pre. h' b = h b" using r(4) d new as(1) by auto
    then have "path h' p pre r = path h p pre r" for p r by (induction pre arbitrary: p) auto
    then show ?thesis using pa(1) by simp
  qed
  moreover have "put_sorted (key_at h) new as = pre @ put_sorted (key_at h) new (a # post)"
    unfolding as(1) by (rule put_sorted_skip) (use k as kn in auto)
  ultimately have "path h' (insn_list dh) (put_sorted (key_at h) new as) None"
    using r(2) q by (auto simp: path_app)
  then show ?thesis using r contents_dom by blast
qed

lemma link_ok:
  assumes rep: "dh_rep dh as" and "addr \<notin> dh_keys dh"
    and "new_elt (ilist_new (insn_new addr)) dh = (new, dh1)"
  shows "\<exists>dh'. dh_link (avl_search (insn_tree dh) (ucast addr)) addr new dh1 = ret dh'
    \<and> dh_rep dh' (put_sorted (key_at (dh_elts dh1)) new as) \<and> contents (dh_elts dh') = contents (dh_elts dh1)"
proof -
  let ?e = "ilist_new (insn_new addr)" and ?found = "avl_search (insn_tree dh) (ucast addr)"
  have dh1: "new = dh_fresh dh" "dh1 = dh\<lparr>dh_elts := (dh_elts dh)(new \<mapsto> ?e), dh_fresh := dh_fresh dh + 1\<rparr>"
    using assms(3) by (auto simp: new_elt_def)
  have none: "dh_elts dh new = None" using rep dh1(1) by (simp add: dh_rep_def)
  define h where "h = (dh_elts dh)(new \<mapsto> ?e)"
  have ke: "el_key ?e = addr" "key_at h new = addr"
    by (simp_all add: ilist_new_def olist_new_def insn_new_def h_def key_at_def)
  have "new \<notin> set as" using rep none path_defined [of "dh_elts dh" _ as _ new] by (auto simp: dh_rep_def)
  then have k: "key_at h b = key_at (dh_elts dh) b" if "b \<in> set as" for b using that by (auto simp: h_def key_at_def)
  have ins: "\<exists>t. avl_insert (insn_tree dh) (avl_new (ucast addr) new) = Ok t \<and> avl_ok t
      \<and> avl_entries t = map (entry_at h) (put_sorted (key_at h) new as)"
  proof -
    have "map (entry_at (dh_elts dh)) as = map (entry_at h) as" using k by (simp add: entry_at_def)
    then have e: "avl_entries (insn_tree dh) = map (entry_at h) as" using rep by (simp add: dh_rep_def)
    have "key_at h new \<notin> key_at h ` set as" using assms(2) rep_ascending(3) [OF rep] k ke by auto
    then show ?thesis
      using avl.ins_ok [of "insn_tree dh" "ucast addr" new] rep add_entry_put [of h new as] ke(2) e
      by (auto simp: avl_add_def dh_rep_def)
  qed
  have "\<exists>h' p. dh_link ?found addr new dh1 = tree_insert addr new (dh1\<lparr>dh_elts := h', insn_list := p\<rparr>)
      \<and> path h' p (put_sorted (key_at h) new as) None \<and> contents h' = contents h \<and> dom h' = dom h"
  proof (cases ?found)
    case NULL
    obtain h' p where "olist_add h (insn_list dh) new = ret (h', p)"
        "path h' p (put_sorted (key_at h) new as) None" "contents h' = contents h" "dom h' = dom h"
      using add_from_head [OF rep none h_def] by blast
    then show ?thesis
      using NULL dh1(2) by (intro exI [of _ h'] exI [of _ p]) (simp add: dh_link_def h_def)
  next
    case (Avl l r kk d fl a)
    then obtain pre post where as: "as = pre @ a # post" "\<forall>b \<in> set (pre @ [a]). key_at (dh_elts dh) b \<le> el_key ?e"
      and kk: "kk = ucast (key_at (dh_elts dh) a)"
      using rep_search [OF rep, of addr] ke(1) by auto
    have "key_at (dh_elts dh) a \<noteq> addr" using assms(2) rep_ascending(3) [OF rep] as(1) by auto
    moreover have "key_at (dh_elts dh) a \<le> addr" using as ke(1) by simp
    ultimately have "key_at (dh_elts dh) a < addr" by simp
    then have "kk < ucast addr" by (simp only: kk ucast_u64_mono)
    moreover obtain h' p where "olist_add h (Some a) new = ret (h', p)"
        "path h' (insn_list dh) (put_sorted (key_at h) new as) None" "contents h' = contents h" "dom h' = dom h"
      using add_from_found [OF rep none h_def as] by blast
    ultimately show ?thesis
      using Avl dh1(2) by (intro exI [of _ h'] exI [of _ "insn_list dh"]) (simp add: dh_link_def h_def)
  qed
  then obtain h' p t where r: "dh_link ?found addr new dh1 = ret (dh1\<lparr>dh_elts := h', insn_list := p, insn_tree := t\<rparr>)"
      "path h' p (put_sorted (key_at h) new as) None" "contents h' = contents h" "dom h' = dom h" "avl_ok t"
      "avl_entries t = map (entry_at h) (put_sorted (key_at h) new as)"
    using ins dh1(2) by (auto simp: tree_insert_def)
  have addr_ok: "i_addr (el_data e) = el_key e" if "h' b = Some e" for b e
  proof -
    have "contents h b = Some (el_key e, el_data e)" using that fun_cong [OF r(3), of b] by (simp add: contents_def)
    moreover have "i_addr (insn_new addr) = addr" by (simp add: insn_new_def)
    moreover have "el_key ?e = addr" "el_data ?e = insn_new addr"
      by (simp_all add: ilist_new_def olist_new_def insn_new_def)
    ultimately show ?thesis
    proof (cases "b = new")
      case False
      then obtain z where "dh_elts dh b = Some z" "el_key z = el_key e" "el_data z = el_data e"
        using \<open>contents h b = Some (el_key e, el_data e)\<close> by (auto simp: contents_def h_def)
      moreover have "\<forall>a e. dh_elts dh a = Some e \<longrightarrow> i_addr (el_data e) = el_key e"
        using rep unfolding dh_rep_def by blast
      ultimately show ?thesis by metis
    qed (auto simp: contents_def h_def)
  qed
  have "h' b = None" if "dh_fresh dh + 1 \<le> b" for b
  proof -
    have "\<forall>a. dh_fresh dh \<le> a \<longrightarrow> dh_elts dh a = None" using rep unfolding dh_rep_def by blast
    then have "b \<notin> dom h" using that dh1(1) by (auto simp: h_def)
    then show ?thesis using r(4) by auto
  qed
  then have "dh_rep (dh1\<lparr>dh_elts := h', insn_list := p, insn_tree := t\<rparr>) (put_sorted (key_at h) new as)"
    using r entry_at_contents [OF r(3)] addr_ok dh1(2) by (auto simp: dh_rep_def)
  then show ?thesis using r dh1(2) by (auto simp: h_def)
qed

section \<open>The index as a map from addresses to instructions\<close>

definition dh_map :: "debug_helper_t \<Rightarrow> u32 \<rightharpoonup> insn_t" where
  "dh_map dh k = Option.bind (map_of (avl_entries (insn_tree dh)) (ucast k)) (\<lambda>a. map_option el_data (dh_elts dh a))"

lemma rep_elt:
  assumes "dh_rep dh as" "a \<in> set as"
  shows "\<exists>e. dh_elts dh a = Some e \<and> key_at (dh_elts dh) a = el_key e \<and> contents (dh_elts dh) a = Some (el_key e, el_data e)"
proof -
  have "path (dh_elts dh) (insn_list dh) as None" using assms(1) by (simp add: dh_rep_def)
  then obtain e where "dh_elts dh a = Some e" using path_defined assms(2) by blast
  then show ?thesis by (simp add: key_at_def contents_def)
qed

lemma rep_fresh: "dh_rep dh as \<Longrightarrow> dh_fresh dh \<notin> set as"
  using rep_elt [of dh as "dh_fresh dh"] by (auto simp: dh_rep_def)

lemma dh_map_iff:
  assumes "dh_rep dh as"
  shows "dh_map dh k = Some i \<longleftrightarrow> (\<exists>a \<in> set as. contents (dh_elts dh) a = Some (k, i))"
proof -
  let ?h = "dh_elts dh"
  have e: "avl_entries (insn_tree dh) = map (entry_at ?h) as" using assms by (simp add: dh_rep_def)
  have d: "distinct (map fst (map (entry_at ?h) as))"
    using avl.ok_ascending [of "insn_tree dh"] assms by (simp add: dh_rep_def strict_sorted_iff)
  have m: "map_of (map (entry_at ?h) as) (ucast k) = Some a \<longleftrightarrow> a \<in> set as \<and> key_at ?h a = k" for a
    using d by (auto simp: entry_at_def ucast_u64_eq)
  have c: "contents ?h a = Some (k, i) \<longleftrightarrow> key_at ?h a = k \<and> map_option el_data (?h a) = Some i" if "a \<in> set as" for a
    using rep_elt [OF assms that] by auto
  show ?thesis using c by (auto simp: dh_map_def e bind_eq_Some_conv m)
qed

lemma map_eqI: "(\<And>k i. m k = Some i \<longleftrightarrow> m' k = Some i) \<Longrightarrow> m = m'"
  by (rule ext) (metis option.exhaust)

definition touch :: "u32 \<Rightarrow> (u32 \<rightharpoonup> insn_t) \<Rightarrow> u32 \<rightharpoonup> insn_t" where
  "touch k m = (if k \<in> dom m then m else m(k \<mapsto> insn_new k))"

definition amend :: "u32 \<Rightarrow> (insn_t \<Rightarrow> insn_t) \<Rightarrow> (u32 \<rightharpoonup> insn_t) \<Rightarrow> u32 \<rightharpoonup> insn_t" where
  "amend k f m = m(k \<mapsto> f (case m k of None \<Rightarrow> insn_new k | Some i \<Rightarrow> i))"

lemma dh_keys_dom:
  assumes "dh_rep dh as"
  shows "dom (dh_map dh) = dh_keys dh"
proof -
  have "(\<exists>i. contents (dh_elts dh) a = Some (k, i)) \<longleftrightarrow> key_at (dh_elts dh) a = k" if "a \<in> set as" for a k
    using rep_elt [OF assms that] by auto
  then have "(\<exists>i. \<exists>a \<in> set as. contents (dh_elts dh) a = Some (k, i)) \<longleftrightarrow> (\<exists>a \<in> set as. key_at (dh_elts dh) a = k)" for k
    by blast
  then show ?thesis
    by (auto simp: dom_def rep_ascending(3) [OF assms] dh_map_iff [OF assms] image_iff)
qed

lemma search_add_map:
  assumes rep: "dh_rep dh as"
  shows "\<exists>a dh' as'. dh_search_add addr dh = ret (a, dh') \<and> dh_rep dh' as' \<and> a \<in> set as'
    \<and> key_at (dh_elts dh') a = addr \<and> dh_map dh' = touch addr (dh_map dh)"
proof (cases "addr \<in> dh_keys dh")
  case True
  then obtain b where b: "b \<in> set as" "key_at (dh_elts dh) b = addr" using rep_ascending(3) [OF rep] by auto
  have s: "sorted_wrt (<) (map (key_at (dh_elts dh)) as)" by (rule rep_ascending(1) [OF rep])
  obtain l r k d f a where f: "avl_search (insn_tree dh) (ucast addr) = Avl l r k d f a"
    using rep_search [OF rep, of addr] b by (cases "avl_search (insn_tree dh) (ucast addr)") auto
  then obtain pre post where a: "as = pre @ a # post" "\<forall>b \<in> set (pre @ [a]). key_at (dh_elts dh) b \<le> addr"
      "\<forall>b \<in> set post. addr < key_at (dh_elts dh) b" "k = ucast (key_at (dh_elts dh) a)"
    using rep_search [OF rep, of addr] by auto
  have "key_at (dh_elts dh) a = addr"
    using b a s by (auto simp: sorted_wrt_append)
  then show ?thesis
    using f a True rep dh_keys_dom [OF rep] by (auto simp: dh_search_add_def touch_def)
next
  case False
  obtain new dh1 where n: "new_elt (ilist_new (insn_new addr)) dh = (new, dh1)" by fastforce
  obtain dh' where l: "dh_link (avl_search (insn_tree dh) (ucast addr)) addr new dh1 = ret dh'"
      "dh_rep dh' (put_sorted (key_at (dh_elts dh1)) new as)" "contents (dh_elts dh') = contents (dh_elts dh1)"
    using link_ok [OF rep False n] by blast
  have nf: "\<not> (avl_search (insn_tree dh) (ucast addr) \<noteq> NULL \<and> a_key (avl_search (insn_tree dh) (ucast addr)) = ucast addr)"
    using False rep_search [OF rep, of addr] rep_ascending(3) [OF rep]
    by (cases "avl_search (insn_tree dh) (ucast addr)") (auto simp: ucast_u64_eq)
  have r: "dh_search_add addr dh = ret (new, dh')"
    using n l(1) nf by (auto simp: dh_search_add_def Let_def)
  have h1: "dh_elts dh1 = (dh_elts dh)(new \<mapsto> ilist_new (insn_new addr))" "new = dh_fresh dh"
    using n by (auto simp: new_elt_def)
  have na: "new \<notin> set as" using rep_fresh [OF rep] h1(2) by simp
  have c: "contents (dh_elts dh') new = Some (addr, insn_new addr)"
      "b \<noteq> new \<Longrightarrow> contents (dh_elts dh') b = contents (dh_elts dh) b" for b
    by (simp_all add: l(3) h1(1) contents_def ilist_new_def olist_new_def insn_new_def)
  have "dh_map dh addr = None" using False dh_keys_dom [OF rep] by auto
  moreover have "(\<exists>b \<in> set as. contents (dh_elts dh') b = Some (k, i)) \<longleftrightarrow> dh_map dh k = Some i" for k i
    using na c(2) dh_map_iff [OF rep, of k i] by metis
  ultimately have "dh_map dh' k = Some i \<longleftrightarrow> touch addr (dh_map dh) k = Some i" for k i
    using dh_map_iff [OF l(2), of k i] c(1) by (auto simp: touch_def domIff)
  then have "dh_map dh' = touch addr (dh_map dh)" by (rule map_eqI)
  moreover have "key_at (dh_elts dh') new = addr" using c(1) by (auto simp: contents_def key_at_def)
  ultimately show ?thesis using r l(2)
    by (intro exI [of _ new] exI [of _ dh'] exI [of _ "put_sorted (key_at (dh_elts dh1)) new as"] conjI) simp_all
qed

lemma upd_insn_map:
  assumes rep: "dh_rep dh as" and "a \<in> set as" and f: "\<And>i. i_addr (f i) = i_addr i"
  shows "\<exists>dh'. upd_insn a f dh = ret dh' \<and> dh_rep dh' as \<and> dh_map dh' = amend (key_at (dh_elts dh) a) f (dh_map dh)"
proof -
  let ?h = "dh_elts dh" and ?k = "key_at (dh_elts dh) a"
  obtain e where e: "?h a = Some e" using rep_elt [OF rep assms(2)] by blast
  define h' where "h' = ?h(a \<mapsto> e\<lparr>el_data := f (el_data e)\<rparr>)"
  have r: "upd_insn a f dh = ret (dh\<lparr>dh_elts := h'\<rparr>)" using e by (simp add: upd_insn_def load_def h'_def)
  have p: "path h' p bs q = path ?h p bs q" for p bs q
    using e by (induction bs arbitrary: p) (auto simp: h'_def)
  have k: "key_at h' = key_at ?h" "entry_at h' = entry_at ?h"
    using e by (auto simp: fun_eq_iff h'_def key_at_def entry_at_def)
  have ke: "?k = el_key e" using e by (simp add: key_at_def)
  have rep': "dh_rep (dh\<lparr>dh_elts := h'\<rparr>) as"
    using rep p k e f by (auto simp: dh_rep_def h'_def)
  have u: "b = a" if "b \<in> set as" "contents ?h b = Some (?k, i)" for b i
  proof -
    have "distinct (map (key_at ?h) as)" using rep_ascending(1) [OF rep] by (simp add: strict_sorted_iff)
    moreover have "key_at ?h b = ?k" using that(2) by (auto simp: contents_def key_at_def)
    ultimately show ?thesis using that(1) assms(2) by (auto simp: distinct_map inj_on_def)
  qed
  have m: "dh_map dh ?k = Some (el_data e)"
    using dh_map_iff [OF rep] assms(2) e ke by (auto simp: contents_def)
  have c: "contents h' a = Some (?k, f (el_data e))" "b \<noteq> a \<Longrightarrow> contents h' b = contents ?h b" for b
    using ke by (simp_all add: h'_def contents_def)
  have same: "(\<exists>b \<in> set as. contents h' b = Some (?k, i)) \<longleftrightarrow> f (el_data e) = i" for i
    using c u assms(2) by (metis option.inject prod.inject)
  have other: "(\<exists>b \<in> set as. contents h' b = Some (k, i)) \<longleftrightarrow> (\<exists>b \<in> set as. contents ?h b = Some (k, i))"
    if "k \<noteq> ?k" for k i
    using c rep_elt [OF rep assms(2)] that by (metis option.inject prod.inject)
  have "dh_map (dh\<lparr>dh_elts := h'\<rparr>) k = Some i \<longleftrightarrow> amend ?k f (dh_map dh) k = Some i" for k i
    using dh_map_iff [OF rep', of k i] dh_map_iff [OF rep, of k i] same [of i] other [of k i] m
    by (cases "k = ?k") (simp_all add: amend_def)
  then have "dh_map (dh\<lparr>dh_elts := h'\<rparr>) = amend ?k f (dh_map dh)" by (rule map_eqI)
  then show ?thesis using r rep' by blast
qed

lemma amend_ok:
  assumes "dh_inv dh" and f: "\<And>i. i_addr (f i) = i_addr i"
  shows "\<exists>dh'. bind_run (dh_search_add addr dh) (\<lambda>(a, dh). upd_insn a f dh) = ret dh'
    \<and> dh_inv dh' \<and> dh_map dh' = amend addr f (dh_map dh)"
proof -
  obtain as where "dh_rep dh as" using assms(1) by (auto simp: dh_inv_def)
  from search_add_map [OF this, of addr]
  obtain a dh1 as1 where s: "dh_search_add addr dh = ret (a, dh1)" "dh_rep dh1 as1" "a \<in> set as1"
      "key_at (dh_elts dh1) a = addr" "dh_map dh1 = touch addr (dh_map dh)" by blast
  obtain dh2 where u: "upd_insn a f dh1 = ret dh2" "dh_rep dh2 as1" "dh_map dh2 = amend addr f (dh_map dh1)"
    using upd_insn_map [OF s(2,3), of f] f s(4) by auto
  have "amend addr f (touch addr m) = amend addr f m" for m
    by (auto simp: amend_def touch_def fun_eq_iff split: option.splits)
  then show ?thesis using s u by (auto simp: dh_inv_def)
qed

lemma amend_all_ok:
  assumes "dh_inv dh" and "\<And>x i. i_addr (f x i) = i_addr i"
  shows "\<exists>dh'. fold_run (\<lambda>x dh. bind_run (dh_search_add (k x) dh) (\<lambda>(a, dh). upd_insn a (f x) dh)) xs dh = ret dh'
    \<and> dh_inv dh' \<and> dh_map dh' = fold (\<lambda>x. amend (k x) (f x)) xs (dh_map dh)"
  using assms(1)
proof (induction xs arbitrary: dh)
  case (Cons x xs)
  obtain dh1 where "bind_run (dh_search_add (k x) dh) (\<lambda>(a, dh). upd_insn a (f x) dh) = ret dh1" "dh_inv dh1"
      "dh_map dh1 = amend (k x) (f x) (dh_map dh)"
    using amend_ok [OF Cons.prems, of "f x" "k x"] assms(2) by blast
  then show ?case using Cons.IH [of dh1] by auto
qed simp

subsection \<open>Functions and source lines\<close>

lemma i_addr_keeps [simp]:
  "i_addr (mark fl i) = i_addr i" "i_addr (enter fl func i) = i_addr i" "i_addr (set_line files l i) = i_addr i"
  "i_addr (set_highpc pc i) = i_addr i"
  by (simp_all add: mark_def enter_def set_line_def set_highpc_def Let_def)

definition func_spec :: "function_t \<Rightarrow> (u32 \<rightharpoonup> insn_t) \<Rightarrow> u32 \<rightharpoonup> insn_t" where
  "func_spec func m =
     (if f_declaration func = 1 then m
      else if f_ranges func \<noteq> Some [] then fold (\<lambda>r. amend (fst r) (enter INSN_FLAGS_FUNC_RANGE func)) (the (f_ranges func)) m
      else amend (f_highpc func) (mark INSN_FLAGS_FUNC_END) (amend (f_lowpc func) (enter INSN_FLAGS_FUNC_ENTRY func) m))"

definition lines_spec :: "src_tab_t list \<Rightarrow> (u32 \<rightharpoonup> insn_t) \<Rightarrow> u32 \<rightharpoonup> insn_t" where
  "lines_spec tabs = fold (\<lambda>tab. fold (\<lambda>l. amend (ln_addr l) (set_line (st_files tab) l)) (st_lines tab)) tabs"

lemma function_register_ok:
  assumes "dh_inv dh" "f_ranges func \<noteq> None"
  shows "\<exists>dh'. dh_function_register func dh = ret dh' \<and> dh_inv dh' \<and> dh_map dh' = func_spec func (dh_map dh)"
proof (cases "f_declaration func = 1 \<or> f_ranges func \<noteq> Some []")
  case True
  then show ?thesis
    using assms amend_all_ok [OF assms(1), of "\<lambda>r. enter INSN_FLAGS_FUNC_RANGE func" fst "the (f_ranges func)"]
    by (auto simp: dh_function_register_def func_spec_def)
next
  case False
  obtain dh1 where 1: "bind_run (dh_search_add (f_lowpc func) dh) (\<lambda>(a, dh). upd_insn a (enter INSN_FLAGS_FUNC_ENTRY func) dh) = ret dh1"
      "dh_inv dh1" "dh_map dh1 = amend (f_lowpc func) (enter INSN_FLAGS_FUNC_ENTRY func) (dh_map dh)"
    using amend_ok [OF assms(1)] i_addr_keeps(2) by blast
  obtain dh2 where 2: "bind_run (dh_search_add (f_highpc func) dh1) (\<lambda>(a, dh). upd_insn a (mark INSN_FLAGS_FUNC_END) dh) = ret dh2"
      "dh_inv dh2" "dh_map dh2 = amend (f_highpc func) (mark INSN_FLAGS_FUNC_END) (dh_map dh1)"
    using amend_ok [OF 1(2)] i_addr_keeps(1) by blast
  have assoc: "bind_run r (\<lambda>(a, dh). bind_run (f a dh) g) = bind_run (bind_run r (\<lambda>(a, dh). f a dh)) g" for r f g
    by (cases r; cases "the r") (auto split: prod.splits)
  show ?thesis
    using False 1 2 by (auto simp: dh_function_register_def func_spec_def assoc)
qed

lemma lines_ok:
  assumes "dh_inv dh"
  shows "\<exists>dh'. dh_src_line_register tabs dh = ret dh' \<and> dh_inv dh' \<and> dh_map dh' = lines_spec tabs (dh_map dh)"
  using assms
proof (induction tabs arbitrary: dh)
  case Nil
  then show ?case by (simp add: dh_src_line_register_def lines_spec_def)
next
  case (Cons tab tabs)
  obtain dh1 where "fold_run (\<lambda>l dh. bind_run (dh_search_add (ln_addr l) dh) (\<lambda>(a, dh). upd_insn a (set_line (st_files tab) l) dh))
      (st_lines tab) dh = ret dh1" "dh_inv dh1"
      "dh_map dh1 = fold (\<lambda>l. amend (ln_addr l) (set_line (st_files tab) l)) (st_lines tab) (dh_map dh)"
    using amend_all_ok [OF Cons.prems, of "set_line (st_files tab)" ln_addr "st_lines tab"] by auto
  then show ?case
    using Cons.IH [of dh1] by (auto simp: dh_src_line_register_def lines_spec_def)
qed

end
