(* ===== verification/Debug_Index.thy ===== *)
theory Debug_Index
  imports Debug_Helper
begin

text \<open>
  What the index of \<open>debug_helper.c\<close> holds once it is built, as a map from addresses to
  instructions: the effect of \<open>dh_fix_functions\<close>, of \<open>dh_init\<close> as a whole, and the
  source line found for an address.
\<close>

section \<open>Functions without an end\<close>

definition unsized_insn :: "insn_t \<Rightarrow> bool" where
  "unsized_insn i \<longleftrightarrow> i_flags i AND INSN_FLAGS_FUNC_ENTRY \<noteq> 0 \<and>
     (case i_func i of [] \<Rightarrow> False | f # _ \<Rightarrow> f_type f = FUNCTION_TYPE_FUNC \<and> f_highpc f = 0xFFFFFFFF)"

definition entry_has_func :: "insn_t \<Rightarrow> bool" where
  "entry_has_func i \<longleftrightarrow> (i_flags i AND INSN_FLAGS_FUNC_ENTRY \<noteq> 0 \<longrightarrow> i_func i \<noteq> [])"

lemma unsized_run: "entry_has_func (el_data e) \<Longrightarrow> unsized e = ret (unsized_insn (el_data e))"
  by (auto simp: unsized_def unsized_insn_def entry_has_func_def head_func_def split: list.splits)

definition data_at :: "insn_t store \<Rightarrow> nat \<Rightarrow> insn_t" where
  "data_at h a = el_data (the (h a))"

definition fix_elt :: "insn_t store \<Rightarrow> nat \<Rightarrow> nat \<Rightarrow> insn_t store" where
  "fix_elt h a b = (if unsized_insn (data_at h a)
     then h(a \<mapsto> (the (h a))\<lparr>el_data := set_highpc (i_addr (data_at h b)) (data_at h a)\<rparr>) else h)"

fun fix_store :: "insn_t store \<Rightarrow> nat list \<Rightarrow> insn_t store" where
  "fix_store h (a # b # as) = fix_store (fix_elt h a b) (b # as)"
| "fix_store h as = h"

lemma fix_elt_other: "c \<noteq> a \<Longrightarrow> fix_elt h a b c = h c"
  by (simp add: fix_elt_def)

lemma fix_store_other: "c \<notin> set as \<Longrightarrow> fix_store h as c = h c"
  by (induction h as rule: fix_store.induct) (auto simp: fix_elt_other)

lemma path_links:
  assumes "\<And>a. map_option el_next (h' a) = map_option el_next (h a)"
  shows "path h' p as q = path h p as q"
proof (induction as arbitrary: p)
  case (Cons a as)
  have "(\<exists>e. h' a = Some e \<and> path h (el_next e) as q) \<longleftrightarrow> (\<exists>e. h a = Some e \<and> path h (el_next e) as q)"
    using assms [of a] by (cases "h a"; cases "h' a") auto
  then show ?case using Cons by simp
qed simp

lemma path_fix_elt:
  assumes "h a \<noteq> None"
  shows "path (fix_elt h a b) p as q = path h p as q"
proof (rule path_links)
  show "map_option el_next (fix_elt h a b c) = map_option el_next (h c)" for c
    using assms by (cases "c = a") (auto simp: fix_elt_def)
qed

lemma fix_next_unsized:
  assumes "h a = Some e" "unsized_insn (el_data e)"
  shows "fix_next h a p = ret p"
  using assms
  by (subst fix_next.simps) (auto simp: unsized_insn_def load_def head_func_def split: option.splits list.splits)

lemma fix_loop_path:
  assumes "path h p as None" "distinct as" "\<forall>a \<in> set as. entry_has_func (data_at h a)"
  shows "fix_loop h p = ret (fix_store h as)"
  using assms
proof (induction h as arbitrary: p rule: fix_store.induct [case_names step nil one])
  case (step h a b as)
  obtain e where e: "p = Some a" "h a = Some e" "path h (el_next e) (b # as) None" using step(2) by auto
  then obtain n where n: "el_next e = Some b" "h b = Some n" by auto
  have u: "unsized e = ret (unsized_insn (el_data e))" using step(4) e by (auto simp: data_at_def unsized_run)
  have pe: "path (fix_elt h a b) (el_next e) (b # as) None" using e(2,3) by (subst path_fix_elt) simp_all
  have "\<forall>c \<in> set (b # as). c \<noteq> a" using step(3) by auto
  then have "\<forall>c \<in> set (b # as). entry_has_func (data_at (fix_elt h a b) c)"
    using step(4) by (simp add: data_at_def fix_elt_other)
  then have IH: "fix_loop (fix_elt h a b) (el_next e) = ret (fix_store (fix_elt h a b) (b # as))"
    using step(1) [OF pe] step(3) by simp
  show ?case
    using e u n IH fix_next_unsized [of h a e]
    by (subst fix_loop.simps) (auto simp: load_def load_ptr_def fix_elt_def data_at_def)
next
  case (nil h)
  then show ?case by (subst fix_loop.simps) simp
next
  case (one h a)
  then obtain e where e: "p = Some a" "h a = Some e" "el_next e = None" by auto
  have u: "unsized e = ret (unsized_insn (el_data e))" using one(3) e by (auto simp: data_at_def unsized_run)
  have "fix_loop h None = ret h" by (subst fix_loop.simps) simp
  then show ?case
    using e u fix_next_unsized [of h a e] by (subst fix_loop.simps) (auto simp: load_def)
qed

lemma fix_store_at:
  assumes "distinct (pre @ a # post)" "h a = Some e"
  shows "fix_store h (pre @ a # post) a = (if unsized_insn (el_data e) \<and> post \<noteq> []
    then Some (e\<lparr>el_data := set_highpc (i_addr (data_at h (hd post))) (el_data e)\<rparr>) else Some e)"
  using assms
proof (induction pre arbitrary: h)
  case Nil
  then show ?case by (cases post) (auto simp: fix_store_other fix_elt_def data_at_def)
next
  case (Cons x pre)
  obtain y ys where y: "pre @ a # post = y # ys" by (cases "pre @ a # post") auto
  have "x \<noteq> a" "post \<noteq> [] \<Longrightarrow> x \<noteq> hd post" using Cons.prems(1) by (cases post; auto)+
  then have "fix_elt h x y a = Some e" "post \<noteq> [] \<Longrightarrow> data_at (fix_elt h x y) (hd post) = data_at h (hd post)"
    using Cons.prems(2) by (simp_all add: fix_elt_other data_at_def)
  moreover have "fix_store h ((x # pre) @ a # post) = fix_store (fix_elt h x y) (pre @ a # post)" using y by simp
  ultimately show ?case using Cons.IH [of "fix_elt h x y"] Cons.prems(1) by simp
qed

lemma fix_store_elt:
  assumes "distinct as" "h a = Some e"
  shows "\<exists>d. fix_store h as a = Some (e\<lparr>el_data := d\<rparr>) \<and> i_addr d = i_addr (el_data e)"
proof (cases "a \<in> set as")
  case True
  then obtain pre post where as: "as = pre @ a # post" by (auto simp: in_set_conv_decomp)
  have at: "fix_store h as a = (if unsized_insn (el_data e) \<and> post \<noteq> []
    then Some (e\<lparr>el_data := set_highpc (i_addr (data_at h (hd post))) (el_data e)\<rparr>) else Some e)"
    using fix_store_at [of pre a post h e] assms as by simp
  show ?thesis
  proof (cases "unsized_insn (el_data e) \<and> post \<noteq> []")
    case True
    then show ?thesis
      using at by (intro exI [of _ "set_highpc (i_addr (data_at h (hd post))) (el_data e)"]) simp
  next
    case False
    then have "fix_store h as a = Some e" using at by (simp only: if_False)
    then show ?thesis by (intro exI [of _ "el_data e"]) simp
  qed
next
  case False
  then show ?thesis using assms(2) by (intro exI [of _ "el_data e"]) (simp add: fix_store_other)
qed

lemma fix_store_None: "distinct as \<Longrightarrow> path h p as None \<Longrightarrow> h a = None \<Longrightarrow> fix_store h as a = None"
  using path_defined [of h p as None a] fix_store_other [of a as h] by auto

definition next_key :: "(u32 \<rightharpoonup> insn_t) \<Rightarrow> u32 \<Rightarrow> u32 option" where
  "next_key m k = (if \<exists>j \<in> dom m. k < j then Some (Min {j \<in> dom m. k < j}) else None)"

text \<open>An entry of unknown size ends at the next address of the index.\<close>

definition fix_spec :: "(u32 \<rightharpoonup> insn_t) \<Rightarrow> u32 \<rightharpoonup> insn_t" where
  "fix_spec m k = map_option (\<lambda>i. if unsized_insn i
     then (case next_key m k of None \<Rightarrow> i | Some j \<Rightarrow> set_highpc j i) else i) (m k)"

lemma next_key_list:
  assumes "dom m = f ` set (pre @ a # post)" "sorted_wrt (<) (map f (pre @ a # post))"
  shows "next_key m (f a) = (case post of [] \<Rightarrow> None | b # _ \<Rightarrow> Some (f b))"
proof -
  have lo: "\<forall>x \<in> set pre. f x < f a" and up: "\<forall>x \<in> set post. f a < f x" and so: "sorted_wrt (<) (map f post)"
    using assms(2) by (auto simp: sorted_wrt_append)
  have later: "{j \<in> dom m. f a < j} = f ` set post" using lo up assms(1) by (auto dest: less_asym)
  show ?thesis
  proof (cases post)
    case Nil
    then show ?thesis using later by (auto simp: next_key_def)
  next
    case (Cons b bs)
    have "Min (f ` set post) = f b"
      using so Cons by (intro Min_eqI) (auto simp: order.strict_implies_order)
    moreover have "f b \<in> {j \<in> dom m. f a < j}" unfolding later using Cons by simp
    then have "\<exists>j \<in> dom m. f a < j" by blast
    ultimately show ?thesis using later Cons by (simp add: next_key_def)
  qed
qed

lemma fix_functions_ok:
  assumes "dh_inv dh" "\<forall>i \<in> ran (dh_map dh). entry_has_func i"
  shows "\<exists>dh'. dh_fix_functions dh = ret dh' \<and> dh_inv dh' \<and> dh_map dh' = fix_spec (dh_map dh)"
proof -
  obtain as where rep: "dh_rep dh as" using assms(1) by (auto simp: dh_inv_def)
  let ?h = "dh_elts dh" and ?h' = "fix_store (dh_elts dh) as"
  have d: "distinct as" and so: "sorted_wrt (<) (map (key_at ?h) as)" using rep_ascending [OF rep] by auto
  have p: "path ?h (insn_list dh) as None" using rep by (simp add: dh_rep_def)
  have "entry_has_func (data_at ?h a)" if a: "a \<in> set as" for a
  proof -
    obtain e where e: "?h a = Some e" "contents ?h a = Some (el_key e, el_data e)" using rep_elt [OF rep a] by blast
    then have "dh_map dh (el_key e) = Some (el_data e)" using dh_map_iff [OF rep] a by blast
    then show ?thesis using assms(2) e(1) by (auto simp: data_at_def ran_def)
  qed
  then have run: "dh_fix_functions dh = ret (dh\<lparr>dh_elts := ?h'\<rparr>)"
    using fix_loop_path [OF p d] by (simp add: dh_fix_functions_def)
  have same: "map_option el_next (?h' a) = map_option el_next (?h a)" "key_at ?h' a = key_at ?h a" for a
    using fix_store_elt [OF d, of ?h a] fix_store_None [OF d p, of a] by (cases "?h a"; auto simp: key_at_def)+
  have rep': "dh_rep (dh\<lparr>dh_elts := ?h'\<rparr>) as"
  proof -
    have "i_addr (el_data e) = el_key e" if h: "?h' a = Some e" for a e
    proof -
      obtain e0 where e0: "?h a = Some e0" using h fix_store_None [OF d p, of a] by (cases "?h a") auto
      have "i_addr (el_data e0) = el_key e0" using rep e0 unfolding dh_rep_def by blast
      then show ?thesis using fix_store_elt [of as ?h a e0] d e0 h by auto
    qed
    then show ?thesis
      using rep path_links [OF same(1)] same(2) fix_store_None [OF d p] by (auto simp: dh_rep_def entry_at_def)
  qed
  have "dh_map (dh\<lparr>dh_elts := ?h'\<rparr>) k = fix_spec (dh_map dh) k" for k
  proof (cases "k \<in> dh_keys dh")
    case False
    then have "k \<notin> dom (dh_map dh)" "k \<notin> dom (dh_map (dh\<lparr>dh_elts := ?h'\<rparr>))"
      using dh_keys_dom [OF rep] dh_keys_dom [OF rep'] by (auto simp: dh_keys_def)
    then show ?thesis by (simp add: fix_spec_def domIff)
  next
    case True
    then obtain a where a: "a \<in> set as" "key_at ?h a = k" using rep_ascending(3) [OF rep] by auto
    obtain pre post where as: "as = pre @ a # post" using a(1) by (auto simp: in_set_conv_decomp)
    obtain e where e: "?h a = Some e" "el_key e = k" using rep_elt [OF rep a(1)] a(2) by auto
    have nk: "next_key (dh_map dh) k = (case post of [] \<Rightarrow> None | b # _ \<Rightarrow> Some (key_at ?h b))"
      using next_key_list [of "dh_map dh" "key_at ?h" pre a post] so dh_keys_dom [OF rep] rep_ascending(3) [OF rep] as a(2)
      by simp
    have hd: "i_addr (data_at ?h (hd post)) = key_at ?h (hd post)" if "post \<noteq> []"
    proof -
      have "hd post \<in> set as" using that as by simp
      then obtain x where x: "?h (hd post) = Some x" "key_at ?h (hd post) = el_key x" using rep_elt [OF rep] by blast
      have "i_addr (el_data x) = el_key x" using rep x(1) unfolding dh_rep_def by blast
      then show ?thesis using x by (simp add: data_at_def)
    qed
    have "dh_map dh k = Some (el_data e)"
      using dh_map_iff [OF rep] a(1) e by (auto simp: contents_def)
    moreover obtain dd where dd: "?h' a = Some (e\<lparr>el_data := dd\<rparr>)" using fix_store_elt [of as ?h a e] d e(1) by blast
    then have "contents ?h' a = Some (k, dd)" using e(2) by (simp add: contents_def)
    then have "dh_map (dh\<lparr>dh_elts := ?h'\<rparr>) k = Some dd" using dh_map_iff [OF rep', of k dd] a(1) by auto
    then have "dh_map (dh\<lparr>dh_elts := ?h'\<rparr>) k = Some (el_data (the (?h' a)))" using dd by simp
    ultimately show ?thesis
      using fix_store_at [of pre a post ?h e] d as e(1) nk hd by (cases post) (auto simp: fix_spec_def)
  qed
  then show ?thesis using run rep' by (auto simp: dh_inv_def fun_eq_iff)
qed

section \<open>Building the index\<close>

lemma flag_entry_mark: "(x OR (INSN_FLAGS_UNUSED OR INSN_FLAGS_FUNC_END)) AND INSN_FLAGS_FUNC_ENTRY = x AND INSN_FLAGS_FUNC_ENTRY"
  by (simp add: INSN_FLAGS_UNUSED_def INSN_FLAGS_FUNC_END_def INSN_FLAGS_FUNC_ENTRY_def bit.conj_disj_distrib2)

lemma entry_has_func_keeps:
  "entry_has_func (insn_new k)" "entry_has_func i \<Longrightarrow> entry_has_func (mark INSN_FLAGS_FUNC_END i)"
  "entry_has_func (enter fl func i)"
  by (simp_all add: entry_has_func_def insn_new_def mark_def enter_def flist_add_head_def flag_entry_mark)

lemma amend_all:
  assumes "\<forall>i \<in> ran m. P i" "P (insn_new k)" "\<And>i. P i \<Longrightarrow> P (f i)"
  shows "\<forall>i \<in> ran (amend k f m). P i"
  using assms by (auto simp: amend_def ran_def split: option.splits)

lemma amend_fold_all:
  assumes "\<forall>i \<in> ran m. P i" "\<And>k. P (insn_new k)" "\<And>x i. P i \<Longrightarrow> P (f x i)"
  shows "\<forall>i \<in> ran (fold (\<lambda>x. amend (k x) (f x)) xs m). P i"
  using assms(1)
proof (induction xs arbitrary: m)
  case (Cons x xs)
  have "\<forall>i \<in> ran (amend (k x) (f x) m). P i"
    by (rule amend_all [OF Cons.prems assms(2)]) (rule assms(3))
  from Cons.IH [OF this] show ?case by simp
qed simp

lemma func_spec_entries:
  assumes "\<forall>i \<in> ran m. entry_has_func i"
  shows "\<forall>i \<in> ran (func_spec func m). entry_has_func i"
proof -
  have "\<forall>i \<in> ran (fold (\<lambda>r. amend (fst r) (enter INSN_FLAGS_FUNC_RANGE func)) rs m). entry_has_func i" for rs
    using amend_fold_all [OF assms, of "\<lambda>r. enter INSN_FLAGS_FUNC_RANGE func" fst rs] entry_has_func_keeps by blast
  moreover have "\<forall>i \<in> ran (amend lo (enter INSN_FLAGS_FUNC_ENTRY func) m). entry_has_func i" for lo
    using amend_all [OF assms, of lo "enter INSN_FLAGS_FUNC_ENTRY func"] entry_has_func_keeps by blast
  then have "\<forall>i \<in> ran (amend hi (mark INSN_FLAGS_FUNC_END) (amend lo (enter INSN_FLAGS_FUNC_ENTRY func) m)). entry_has_func i" for lo hi
    using amend_all [of "amend lo (enter INSN_FLAGS_FUNC_ENTRY func) m" entry_has_func hi "mark INSN_FLAGS_FUNC_END"]
      entry_has_func_keeps by blast
  ultimately show ?thesis using assms by (simp only: func_spec_def split: if_split) blast
qed

definition empty_dh :: debug_helper_t where
  "empty_dh = \<lparr>insn_list = None, insn_tree = NULL, dh_elts = (\<lambda>_. None), dh_fresh = 0\<rparr>"

lemma empty_dh_ok: "dh_inv empty_dh" "dh_map empty_dh = Map.empty"
  using avl.empty_ok(1) by (auto simp: dh_inv_def dh_rep_def empty_dh_def dh_map_def fun_eq_iff)

lemma functions_ok:
  assumes "\<forall>f \<in> set funcs. f_ranges f \<noteq> None"
  shows "\<exists>dh. flist_walk funcs dh_function_register empty_dh = ret dh \<and> dh_inv dh
    \<and> dh_map dh = foldr func_spec funcs Map.empty \<and> (\<forall>i \<in> ran (dh_map dh). entry_has_func i)"
  using assms
proof (induction funcs)
  case Nil
  then show ?case using empty_dh_ok by simp
next
  case (Cons f funcs)
  then obtain dh where dh: "flist_walk funcs dh_function_register empty_dh = ret dh" "dh_inv dh"
    "dh_map dh = foldr func_spec funcs Map.empty" "\<forall>i \<in> ran (dh_map dh). entry_has_func i" by auto
  then show ?case
    using function_register_ok [of dh f] Cons.prems func_spec_entries [of "dh_map dh" f] by auto
qed

lemma init_ok:
  assumes "\<forall>f \<in> set funcs. f_ranges f \<noteq> None"
  shows "\<exists>dh. dh_init funcs tabs = ret dh \<and> dh_inv dh
    \<and> dh_map dh = lines_spec tabs (fix_spec (foldr func_spec funcs Map.empty))"
proof -
  obtain dh where dh: "flist_walk funcs dh_function_register empty_dh = ret dh" "dh_inv dh"
    "dh_map dh = foldr func_spec funcs Map.empty" "\<forall>i \<in> ran (dh_map dh). entry_has_func i"
    using functions_ok [OF assms] by blast
  obtain dh1 where dh1: "dh_fix_functions dh = ret dh1" "dh_inv dh1" "dh_map dh1 = fix_spec (dh_map dh)"
    using fix_functions_ok [OF dh(2,4)] by blast
  show ?thesis
    using dh dh1 lines_ok [OF dh1(2), of tabs] by (simp add: dh_init_def empty_dh_def [symmetric])
qed

text \<open>C31: Building the index from the functions and the source lines of a program returns, with the
  list and the tree in agreement, and the index is the map that enters each function at its entry and
  end (or at the start of each range), gives an entry of unknown size the next address as its end, and
  then adds the source lines, of which the first for an address is kept.\<close>

theorem dh_index_built:
  assumes "\<forall>f \<in> set funcs. f_ranges f \<noteq> None"
  shows "\<exists>dh. dh_init funcs tabs = ret dh \<and> dh_inv dh
    \<and> dh_map dh = lines_spec tabs (fix_spec (foldr func_spec funcs Map.empty))"
  using init_ok [OF assms] .

definition demo_func :: function_t where
  "demo_func = function_new\<lparr>f_type := FUNCTION_TYPE_FUNC, f_lowpc := 0x100, f_highpc := 0x140, f_name := Some ''main''\<rparr>"

theorem dh_index_built_witness:
  "\<exists>dh. dh_init [demo_func] [] = ret dh \<and> dh_inv dh \<and> dom (dh_map dh) = {0x100, 0x140}"
proof -
  have "\<forall>f \<in> set [demo_func]. f_ranges f \<noteq> None" by (simp add: demo_func_def function_new_def)
  then obtain dh where "dh_init [demo_func] [] = ret dh" "dh_inv dh"
    "dh_map dh = lines_spec [] (fix_spec (foldr func_spec [demo_func] Map.empty))"
    using dh_index_built [of "[demo_func]" "[]"] by blast
  moreover have "dom (lines_spec [] (fix_spec (foldr func_spec [demo_func] Map.empty))) = {0x100, 0x140}"
    by (auto simp: lines_spec_def fix_spec_def func_spec_def amend_def demo_func_def function_new_def dom_def)
  ultimately show ?thesis by auto
qed

section \<open>Source lines\<close>

lemma floor_entry_append:
  "floor_entry s (xs @ ys) = (case floor_entry s ys of None \<Rightarrow> floor_entry s xs | Some e \<Rightarrow> Some e)"
  by (auto simp: floor_entry_def Let_def)

definition flagged :: "insn_t store \<Rightarrow> u32 \<Rightarrow> u64 \<times> nat \<Rightarrow> bool" where
  "flagged h fl e \<longleftrightarrow> i_flags (data_at h (snd e)) AND fl \<noteq> 0"

lemma filtered_search:
  assumes "ascending (avl_entries t)" "\<forall>e \<in> set (avl_entries t). h (snd e) \<noteq> None"
  shows "itree_search_filtered_l h t s fl = Ok (map_option snd (floor_entry s (filter (flagged h fl) (avl_entries t))))"
  using assms
proof (induction t)
  case NULL
  then show ?case by (simp add: floor_entry_def)
next
  case (Avl l r k d f a)
  have asc: "ascending (avl_entries l)" "ascending (avl_entries r)" "\<forall>e \<in> set (avl_entries r). k < fst e"
    using Avl.prems(1) by (auto simp: sorted_wrt_append)
  have a: "insn_at h a = Ok (data_at h a)" using Avl.prems(2) by (auto simp: insn_at_def data_at_def)
  have up: "floor_entry s (filter (flagged h fl) (avl_entries r)) = None" if "s \<le> k"
    using that asc(3) by (force simp: floor_entry_None)
  have fa: "flagged h fl (j, a) \<longleftrightarrow> i_flags (data_at h a) AND fl \<noteq> 0" for j by (simp add: flagged_def)
  have one: "floor_entry s (x # xs) = (case floor_entry s xs of None \<Rightarrow> if fst x \<le> s then Some x else None | Some e \<Rightarrow> Some e)" for x xs
    by (auto simp: floor_entry_def Let_def)
  have IH: "itree_search_filtered_l h l s fl = Ok (map_option snd (floor_entry s (filter (flagged h fl) (avl_entries l))))"
      "itree_search_filtered_l h r s fl = Ok (map_option snd (floor_entry s (filter (flagged h fl) (avl_entries r))))"
    using Avl asc by simp_all
  show ?case
  proof (cases "k < s")
    case True
    then have "k \<le> s" "k \<noteq> s" by simp_all
    then show ?thesis
      using True a IH by (cases "floor_entry s (filter (flagged h fl) (avl_entries r))") (auto simp: floor_entry_append one fa)
  next
    case False
    then show ?thesis
      using a up IH by (cases "k = s") (simp_all add: floor_entry_append one fa)
  qed
qed

text \<open>The addresses at which a source line starts.\<close>

definition line_starts :: "(u32 \<rightharpoonup> insn_t) \<Rightarrow> u32 set" where
  "line_starts m = {k. \<exists>i. m k = Some i \<and> i_flags i AND INSN_FLAGS_NEW_LINE \<noteq> 0}"

text \<open>The elements of the tree that start a line, and what the search among them gives.\<close>

definition line_entries :: "debug_helper_t \<Rightarrow> (u64 \<times> nat) list" where
  "line_entries dh = filter (flagged (dh_elts dh) INSN_FLAGS_NEW_LINE) (avl_entries (insn_tree dh))"

lemma rep_entries:
  assumes "dh_rep dh as"
  shows "avl_entries (insn_tree dh) = map (entry_at (dh_elts dh)) as" "ascending (avl_entries (insn_tree dh))"
  using assms avl.ok_ascending [of "insn_tree dh"] by (simp_all add: dh_rep_def)

lemma line_entries_iff:
  assumes rep: "dh_rep dh as"
  shows "(ucast k, a) \<in> set (line_entries dh) \<longleftrightarrow> a \<in> set as \<and> key_at (dh_elts dh) a = k \<and> k \<in> line_starts (dh_map dh)"
proof -
  have "k \<in> line_starts (dh_map dh) \<longleftrightarrow> i_flags (data_at (dh_elts dh) a) AND INSN_FLAGS_NEW_LINE \<noteq> 0"
    if "a \<in> set as" "key_at (dh_elts dh) a = k"
    using rep_elt [OF rep that(1)] that dh_map_iff [OF rep, of k "data_at (dh_elts dh) a"]
    by (auto simp: line_starts_def data_at_def)
  then show ?thesis
    by (auto simp: line_entries_def rep_entries(1) [OF rep] entry_at_def flagged_def ucast_u64_eq image_iff)
qed

lemma line_started:
  assumes rep: "dh_rep dh as" and "k \<in> line_starts (dh_map dh)"
  shows "\<exists>a. (ucast k, a) \<in> set (line_entries dh)"
proof -
  have "k \<in> dom (dh_map dh)" using assms(2) by (auto simp: line_starts_def)
  then show ?thesis using assms(2) line_entries_iff [OF rep] dh_keys_dom [OF rep] rep_ascending(3) [OF rep] by auto
qed

lemma addr2line_run:
  assumes rep: "dh_rep dh as"
  shows "dh_addr2line dh addr = (case floor_entry (ucast addr) (line_entries dh) of None \<Rightarrow> Ok None
      | Some x \<Rightarrow> bind_result (insn_at (dh_elts dh) (snd x)) (\<lambda>i. Ok (map_option (\<lambda>l. (ln_lineno l, i_fname i)) (i_line i))))"
proof -
  have "\<forall>x \<in> set (avl_entries (insn_tree dh)). dh_elts dh (snd x) \<noteq> None"
    using rep_elt [OF rep] by (auto simp: rep_entries(1) [OF rep] entry_at_def)
  from filtered_search [OF rep_entries(2) [OF rep] this] show ?thesis
    by (simp add: dh_addr2line_def line_entries_def split: option.splits)
qed

text \<open>The greatest line start that is not above an address.\<close>

lemma line_floor:
  assumes rep: "dh_rep dh as" and f: "floor_entry (ucast addr) (line_entries dh) = Some (e, a)"
  shows "a \<in> set as" "key_at (dh_elts dh) a = Max {k \<in> line_starts (dh_map dh). k \<le> addr}"
    "{k \<in> line_starts (dh_map dh). k \<le> addr} \<noteq> {}"
proof -
  let ?S = "{k \<in> line_starts (dh_map dh). k \<le> addr}"
  have "ascending (line_entries dh)"
    using rep_entries(2) [OF rep] by (simp add: line_entries_def sorted_wrt_map sorted_wrt_filter)
  note fl = floor_entry_Some [OF this f]
  have "\<exists>k :: u32. e = ucast k"
    using fl(1) by (auto simp: line_entries_def rep_entries(1) [OF rep] entry_at_def)
  then obtain k :: u32 where e: "e = ucast k" by blast
  have k: "a \<in> set as" "key_at (dh_elts dh) a = k" "k \<in> line_starts (dh_map dh)"
    using fl(1) line_entries_iff [OF rep] by (auto simp: e)
  have ka: "k \<le> addr" using fl(2) ucast_u64_mono [of addr k] by (simp add: e linorder_not_less [symmetric])
  have "j \<le> k" if j: "j \<in> ?S" for j
  proof -
    obtain b where b: "(ucast j, b) \<in> set (line_entries dh)" using line_started [OF rep] j by blast
    then have "(ucast j :: u64) \<le> ucast k"
      using fl(3) [OF b] j ucast_u64_mono [of addr j] by (simp add: e linorder_not_less [symmetric])
    then show ?thesis using ucast_u64_mono [of k j] by (simp add: linorder_not_less [symmetric])
  qed
  then have "Max ?S = k" using k ka by (intro Max_eqI) auto
  then show "a \<in> set as" "key_at (dh_elts dh) a = Max ?S" "?S \<noteq> {}" using k ka by auto
qed

text \<open>C32: The source line of an address is the one that starts at the greatest known line start that is
  not above the address; there is none exactly when no line starts at or below it.\<close>

theorem addr2line_floor:
  assumes "dh_inv dh"
  shows "dh_addr2line dh addr = Ok (if {k \<in> line_starts (dh_map dh). k \<le> addr} = {} then None
    else let i = the (dh_map dh (Max {k \<in> line_starts (dh_map dh). k \<le> addr}))
         in map_option (\<lambda>l. (ln_lineno l, i_fname i)) (i_line i))"
proof -
  obtain as where rep: "dh_rep dh as" using assms by (auto simp: dh_inv_def)
  let ?S = "{k \<in> line_starts (dh_map dh). k \<le> addr}"
  show ?thesis
  proof (cases "floor_entry (ucast addr) (line_entries dh)")
    case None
    have "?S = {}"
    proof (rule ccontr)
      assume "?S \<noteq> {}"
      then obtain k a where "k \<le> addr" "(ucast k, a) \<in> set (line_entries dh)" using line_started [OF rep] by blast
      then show False using None floor_entry_None [of "ucast addr" "line_entries dh"] ucast_u64_mono [of addr k] by auto
    qed
    then show ?thesis using None addr2line_run [OF rep] by simp
  next
    case (Some x)
    obtain e a where x: "x = (e, a)" by (cases x)
    note f = line_floor [OF rep Some [unfolded x]]
    obtain el where el: "dh_elts dh a = Some el" "contents (dh_elts dh) a = Some (Max ?S, el_data el)"
      using rep_elt [OF rep f(1)] f(2) by auto
    have "dh_map dh (Max ?S) = Some (el_data el)"
      using dh_map_iff [OF rep, of "Max ?S" "el_data el"] f(1) el(2) by blast
    then show ?thesis using addr2line_run [OF rep] Some x f(3) el(1) by (auto simp: insn_at_def Let_def)
  qed
qed

definition demo_tab :: src_tab_t where
  "demo_tab = \<lparr>st_files = [''main.c''], st_lines = [\<lparr>ln_addr = 0x100, ln_fileno = 1, ln_lineno = 7\<rparr>]\<rparr>"

theorem addr2line_floor_witness:
  "\<exists>dh. dh_init [] [demo_tab] = ret dh \<and> dh_addr2line dh 0x104 = Ok (Some (7, Some ''main.c'')) \<and> dh_addr2line dh 0x50 = Ok None"
proof -
  let ?i = "set_line [''main.c''] \<lparr>ln_addr = 0x100, ln_fileno = 1, ln_lineno = 7\<rparr> (insn_new 0x100)"
  obtain dh where dh: "dh_init [] [demo_tab] = ret dh" "dh_inv dh" "dh_map dh = lines_spec [demo_tab] (fix_spec Map.empty)"
    using init_ok [of "[]" "[demo_tab]"] by auto
  have m: "dh_map dh = [0x100 \<mapsto> ?i]"
    by (simp add: dh(3) lines_spec_def demo_tab_def amend_def fix_spec_def fun_eq_iff)
  have i: "i_flags ?i AND INSN_FLAGS_NEW_LINE \<noteq> 0" "i_fname ?i = Some ''main.c''" "map_option ln_lineno (i_line ?i) = Some 7"
    by (simp_all add: set_line_def insn_new_def INSN_FLAGS_NEW_LINE_def INSN_FLAGS_UNUSED_def)
  have "line_starts (dh_map dh) = {0x100}" using i(1) by (auto simp: line_starts_def m split: if_splits)
  then have "{k \<in> line_starts (dh_map dh). k \<le> 0x104} = {0x100}" "{k \<in> line_starts (dh_map dh). k \<le> 0x50} = {}" by auto
  then show ?thesis
    using addr2line_floor [OF dh(2), of "0x104"] addr2line_floor [OF dh(2), of "0x50"] dh(1) m i(2,3)
    by (auto simp: Let_def)
qed

end
