(* ===== verification/Callstack.thy ===== *)
theory Callstack
  imports Debug_Index
begin

text \<open>
  The call stack that is followed from the branches of a program
  (\<open>callstack.c\<close> and \<open>ctxt_stack.c\<close> of \<open>lib/debughelper/cstacklib/src\<close>, with \<open>calls.c\<close>
  of \<open>debughelperlib\<close>). Calls are shared between the contexts of the stack and the caller of
  the library, so they live in a store. The theory shows that the stack of contexts behaves as a
  stack of functions: a branch to an entry pushes, a branch inside the function
  on top changes nothing, and a branch into a function further down pops
  down to it. What is printed is not modelled.
\<close>

section \<open>Calls and contexts\<close>

record call_t =
  cl_func :: "function_t option"
  cl_callee :: "nat option"
  cl_caller :: "nat option"
  cl_costs :: counters_t

text \<open>\<open>malloc\<close> leaves \<open>func\<close> open; it is assigned before it is read.\<close>

definition call_new :: "nat option \<Rightarrow> nat option \<Rightarrow> call_t" where
  "call_new caller callee = \<lparr>cl_func = None, cl_callee = callee, cl_caller = caller, cl_costs = counters_new\<rparr>"

definition CTXT_FLAGS_NONE :: int where "CTXT_FLAGS_NONE = 0"

record ctxt_stack_t =
  ct_call :: nat
  ct_level :: int
  ct_flags :: int
  ct_func :: "function_t option"

definition ctxt_new :: "nat \<Rightarrow> function_t option \<Rightarrow> ctxt_stack_t" where
  "ctxt_new call func = \<lparr>ct_call = call, ct_level = 0, ct_flags = CTXT_FLAGS_NONE, ct_func = func\<rparr>"

definition ctxt_push :: "ctxt_stack_t list \<Rightarrow> ctxt_stack_t \<Rightarrow> ctxt_stack_t list" where
  "ctxt_push stack ctxt = (case stack of [] \<Rightarrow> [ctxt] | c # _ \<Rightarrow> ctxt\<lparr>ct_level := ct_level c + 1\<rparr> # stack)"

definition ctxt_pop :: "ctxt_stack_t list \<Rightarrow> ctxt_stack_t option \<times> ctxt_stack_t list" where
  "ctxt_pop stack = (case stack of [] \<Rightarrow> (None, []) | c # lower \<Rightarrow> (Some c, lower))"

datatype callstack_lookup_t = CALLSTACK_NONE | CALLSTACK_CALL | CALLSTACK_JUMP | CALLSTACK_RET
  | CALLSTACK_CTXTSW | CALLSTACK_WAIT_CALL | CALLSTACK_ERROR

datatype callstack_state_t = CS_STATE_UNINITIALIZED | CS_STATE_INITIALIZED | CS_STATE_ERROR

record callstack_t =
  cs_dh :: debug_helper_t
  cs_state :: callstack_state_t
  cs_prev :: "nat option"
  cs_stack :: "ctxt_stack_t list"
  cs_calls :: "nat \<Rightarrow> call_t option"
  cs_fresh :: nat

definition INSN_FLAGS_NSEQ :: u32 where "INSN_FLAGS_NSEQ = 1"

definition alloc_call :: "call_t \<Rightarrow> callstack_t \<Rightarrow> nat \<times> callstack_t" where
  "alloc_call c cs = (cs_fresh cs, cs\<lparr>cs_calls := (cs_calls cs)(cs_fresh cs \<mapsto> c), cs_fresh := cs_fresh cs + 1\<rparr>)"

definition call_at :: "(nat \<Rightarrow> call_t option) \<Rightarrow> nat \<Rightarrow> call_t result" where
  "call_at calls c = (case calls c of None \<Rightarrow> Stop Undefined | Some x \<Rightarrow> Ok x)"

definition insn_ptr :: "insn_t store \<Rightarrow> nat option \<Rightarrow> insn_t result" where
  "insn_ptr h p = (case p of None \<Rightarrow> Stop Undefined | Some a \<Rightarrow> insn_at h a)"

definition func_ptr :: "insn_t \<Rightarrow> function_t option" where
  "func_ptr i = (case i_func i of [] \<Rightarrow> None | f # _ \<Rightarrow> Some f)"

definition callstack_new :: "debug_helper_t \<Rightarrow> callstack_t" where
  "callstack_new dh = \<lparr>cs_dh = dh, cs_state = CS_STATE_UNINITIALIZED, cs_prev = None,
     cs_stack = [ctxt_new 0 None], cs_calls = [0 \<mapsto> call_new None None], cs_fresh = 1\<rparr>"

text \<open>The list of calls is the chain of their \<open>next\<close> pointers.\<close>

fun clist_search :: "(nat \<Rightarrow> call_t option) \<Rightarrow> insn_t store \<Rightarrow> nat list \<Rightarrow> u32 \<Rightarrow> nat option result" where
  "clist_search calls h [] caddr = Ok None"
| "clist_search calls h (c # cs) caddr =
     bind_result (call_at calls c) (\<lambda>p.
     bind_result (insn_ptr h (cl_callee p)) (\<lambda>i.
       if i_addr i = caddr then Ok (Some c) else clist_search calls h cs caddr))"

definition clist_add_head :: "nat list \<Rightarrow> nat \<Rightarrow> nat list" where
  "clist_add_head list new = new # list"

definition count_call :: "call_t \<Rightarrow> call_t" where
  "count_call p = p\<lparr>cl_costs := (cl_costs p)\<lparr>rep_counter := rep_counter (cl_costs p) + 1\<rparr>\<rparr>"

text \<open>A popped call goes to the head of the list, or is freed when one to the same function is there.\<close>

definition merge_call :: "insn_t store \<Rightarrow> function_t option \<Rightarrow> nat \<Rightarrow> nat list \<times> (nat \<Rightarrow> call_t option)
    \<Rightarrow> (nat list \<times> (nat \<Rightarrow> call_t option)) result" where
  "merge_call h func c = (\<lambda>(ret_call, calls).
     bind_result (call_at calls c) (\<lambda>pcall.
     bind_result (insn_ptr h (cl_callee pcall)) (\<lambda>i.
     bind_result (clist_search calls h ret_call (i_addr i)) (\<lambda>found.
       let pcall = pcall\<lparr>cl_func := func\<rparr> in
       case found of
         None \<Rightarrow> Ok (clist_add_head ret_call c, calls(c \<mapsto> count_call pcall))
       | Some f \<Rightarrow>
           bind_result (call_at calls f) (\<lambda>fc.
           bind_result (case ret_call of [] \<Rightarrow> Stop Undefined | r # _ \<Rightarrow> call_at calls r) (\<lambda>rc.
             Ok (ret_call, (calls(f \<mapsto> count_call (fc\<lparr>cl_costs := counters_sum (cl_costs fc) (cl_costs rc)\<rparr>)))(c := None))))))))"

section \<open>Following a branch\<close>

text \<open>The loop that pops \<open>depth\<close> contexts; \<open>None\<close> is the attempt to pop the first context.\<close>

fun pop_loop :: "insn_t store \<Rightarrow> nat \<Rightarrow> ctxt_stack_t list \<Rightarrow> nat list \<times> (nat \<Rightarrow> call_t option)
    \<Rightarrow> ((nat list \<times> (nat \<Rightarrow> call_t option)) option \<times> (nat \<Rightarrow> call_t option) \<times> ctxt_stack_t list) result" where
  "pop_loop h 0 stack rc = Ok (Some rc, snd rc, stack)"
| "pop_loop h (Suc depth) stack rc = (case stack of
     [] \<Rightarrow> Stop Undefined
   | c # lower \<Rightarrow>
       bind_result (call_at (snd rc) (ct_call c)) (\<lambda>p.
         if cl_caller p = None then Ok (None, snd rc, stack)
         else case ct_func c of None \<Rightarrow> Stop Undefined
           | Some f \<Rightarrow> bind_result (merge_call h (Some f) (ct_call c) rc) (pop_loop h depth lower)))"

definition in_scope :: "u32 \<Rightarrow> ctxt_stack_t \<Rightarrow> bool" where
  "in_scope addr c = (case ct_func c of None \<Rightarrow> False | Some f \<Rightarrow> IS_IN_FUNCTION_RANGE addr f)"

fun scope_depth :: "u32 \<Rightarrow> ctxt_stack_t list \<Rightarrow> nat option" where
  "scope_depth addr [] = None"
| "scope_depth addr (c # cs) = (if in_scope addr c then Some 0 else map_option Suc (scope_depth addr cs))"

definition enter_call :: "nat option \<Rightarrow> nat \<Rightarrow> insn_t \<Rightarrow> callstack_t \<Rightarrow> callstack_t" where
  "enter_call caller cur i cs =
     (let (c, cs) = alloc_call ((call_new caller (Some cur))\<lparr>cl_func := func_ptr i\<rparr>) cs
      in cs\<lparr>cs_stack := ctxt_push (cs_stack cs) (ctxt_new c (func_ptr i)), cs_prev := Some cur\<rparr>)"

definition lookup_first :: "u32 \<Rightarrow> callstack_t \<Rightarrow> (callstack_lookup_t \<times> nat list \<times> callstack_t) result" where
  "lookup_first addr cs = (case dh_search (cs_dh cs) addr of
     None \<Rightarrow> Ok (CALLSTACK_WAIT_CALL, [], cs\<lparr>cs_state := CS_STATE_ERROR\<rparr>)
   | Some cur \<Rightarrow>
       bind_result (insn_at (dh_elts (cs_dh cs)) cur) (\<lambda>i.
       let cs' = (enter_call None cur i cs)\<lparr>cs_state := CS_STATE_INITIALIZED\<rparr> in
       if func_ptr i = None then Ok (CALLSTACK_ERROR, [cs_fresh cs], cs'\<lparr>cs_state := CS_STATE_ERROR\<rparr>)
       else Ok (CALLSTACK_CALL, [cs_fresh cs], cs')))"

definition lookup_branch :: "u32 \<Rightarrow> callstack_t \<Rightarrow> (callstack_lookup_t \<times> nat list \<times> callstack_t) result" where
  "lookup_branch addr cs =
     (let h = dh_elts (cs_dh cs); cur = dh_search (cs_dh cs) addr in
      bind_result (insn_ptr h cur) (\<lambda>i.
      if i_addr i = addr \<and> i_flags i AND INSN_FLAGS_FUNC_ENTRY \<noteq> 0 then
        bind_result (insn_ptr h (cs_prev cs)) (\<lambda>_.
        if func_ptr i = None then Stop Undefined
        else Ok (CALLSTACK_CALL, [cs_fresh cs], enter_call (cs_prev cs) (the cur) i cs))
      else if cs_stack cs \<noteq> [] \<and> in_scope addr (hd (cs_stack cs)) then
        Ok (CALLSTACK_JUMP, [], cs\<lparr>cs_prev := cur\<rparr>)
      else case scope_depth addr (cs_stack cs) of
        None \<Rightarrow> Ok (CALLSTACK_NONE, [], cs)
      | Some depth \<Rightarrow>
          bind_result (pop_loop h depth (cs_stack cs) ([], cs_calls cs)) (\<lambda>(r, calls, stack). case r of
            None \<Rightarrow> Ok (CALLSTACK_ERROR, [], cs\<lparr>cs_stack := stack, cs_calls := calls, cs_state := CS_STATE_ERROR\<rparr>)
          | Some (ret_call, calls) \<Rightarrow>
              Ok (CALLSTACK_RET, ret_call, cs\<lparr>cs_stack := stack, cs_calls := calls, cs_prev := cur\<rparr>))))"

definition callstack_lookup :: "callstack_t \<Rightarrow> u32 \<Rightarrow> u32 \<Rightarrow> (callstack_lookup_t \<times> nat list \<times> callstack_t) result" where
  "callstack_lookup cs pc flags = (case cs_state cs of
     CS_STATE_UNINITIALIZED \<Rightarrow> lookup_first pc cs
   | CS_STATE_INITIALIZED \<Rightarrow>
       if flags AND INSN_FLAGS_NSEQ = 0 then Ok (CALLSTACK_NONE, [], cs) else lookup_branch pc cs
   | CS_STATE_ERROR \<Rightarrow> Ok (CALLSTACK_ERROR, [], cs))"

text \<open>The end of the trace: every context is popped, and the calls that have a caller are collected.\<close>

fun dump_loop :: "insn_t store \<Rightarrow> ctxt_stack_t list \<Rightarrow> nat list \<times> (nat \<Rightarrow> call_t option)
    \<Rightarrow> (nat list \<times> (nat \<Rightarrow> call_t option)) result" where
  "dump_loop h [] rc = Ok rc"
| "dump_loop h (c # lower) rc =
     bind_result (call_at (snd rc) (ct_call c)) (\<lambda>p.
       if cl_caller p = None then dump_loop h lower rc
       else bind_result (insn_ptr h (cl_callee p)) (\<lambda>i.
            bind_result (merge_call h (func_ptr i) (ct_call c) rc) (dump_loop h lower)))"

definition callstack_dump :: "callstack_t \<Rightarrow> (nat list \<times> callstack_t) result" where
  "callstack_dump cs =
     bind_result (dump_loop (dh_elts (cs_dh cs)) (cs_stack cs) ([], cs_calls cs)) (\<lambda>(r, calls).
       Ok (r, cs\<lparr>cs_stack := [], cs_calls := calls\<rparr>))"

section \<open>The stack of functions\<close>

definition known_insn :: "insn_t store \<Rightarrow> nat option \<Rightarrow> bool" where
  "known_insn h p \<longleftrightarrow> (\<exists>i. insn_ptr h p = Ok i)"

definition called :: "callstack_t \<Rightarrow> ctxt_stack_t \<Rightarrow> bool" where
  "called cs c \<longleftrightarrow> (\<exists>p. cs_calls cs (ct_call c) = Some p \<and> cl_caller p \<noteq> None
     \<and> known_insn (dh_elts (cs_dh cs)) (cl_callee p)) \<and> ct_func c \<noteq> None"

text \<open>
  Below the contexts of calls are the context of the first instruction and the bottom one, which
  has no function.
\<close>

definition cs_inv :: "callstack_t \<Rightarrow> bool" where
  "cs_inv cs \<longleftrightarrow> dh_inv (cs_dh cs) \<and> (\<forall>i \<in> ran (dh_map (cs_dh cs)). entry_has_func i)
     \<and> cs_state cs = CS_STATE_INITIALIZED \<and> known_insn (dh_elts (cs_dh cs)) (cs_prev cs)
     \<and> distinct (map ct_call (cs_stack cs)) \<and> (\<forall>c \<in> set (cs_stack cs). ct_call c < cs_fresh cs)
     \<and> map ct_level (cs_stack cs) = rev (map int [0..<length (cs_stack cs)])
     \<and> (\<exists>up en bo. cs_stack cs = up @ [en, bo] \<and> (\<forall>c \<in> set up. called cs c) \<and> ct_func en \<noteq> None \<and> ct_func bo = None)"

lemma search_known:
  assumes "dh_inv dh" "k \<in> dom (dh_map dh)" "k \<le> addr"
  shows "\<exists>a i. dh_search dh addr = Some a \<and> insn_at (dh_elts dh) a = Ok i \<and> dh_map dh (i_addr i) = Some i
    \<and> (addr \<in> dom (dh_map dh) \<longrightarrow> i_addr i = addr)"
proof -
  obtain as where rep: "dh_rep dh as" using assms(1) by (auto simp: dh_inv_def)
  have dom: "dom (dh_map dh) = key_at (dh_elts dh) ` set as" using dh_keys_dom [OF rep] rep_ascending(3) [OF rep] by simp
  obtain b where b: "b \<in> set as" "key_at (dh_elts dh) b \<le> addr" using assms(2,3) dom by auto
  obtain l r kk d f a where s: "avl_search (insn_tree dh) (ucast addr) = Avl l r kk d f a"
    using rep_search [OF rep, of addr] b by (cases "avl_search (insn_tree dh) (ucast addr)") auto
  then obtain pre post where as: "as = pre @ a # post" "\<forall>b \<in> set (pre @ [a]). key_at (dh_elts dh) b \<le> addr"
      "\<forall>b \<in> set post. addr < key_at (dh_elts dh) b"
    using rep_search [OF rep, of addr] by auto
  obtain e where e: "dh_elts dh a = Some e" "key_at (dh_elts dh) a = el_key e" "contents (dh_elts dh) a = Some (el_key e, el_data e)"
    using rep_elt [OF rep, of a] as(1) by auto
  have ia: "i_addr (el_data e) = el_key e" using rep e(1) unfolding dh_rep_def by blast
  have "dh_map dh (el_key e) = Some (el_data e)" using dh_map_iff [OF rep] e(3) as(1) by auto
  moreover have "el_key e = addr" if "addr \<in> dom (dh_map dh)"
  proof -
    have "sorted_wrt (<) (map (key_at (dh_elts dh)) as)" by (rule rep_ascending(1) [OF rep])
    then have "\<forall>b \<in> set pre. key_at (dh_elts dh) b < key_at (dh_elts dh) a" by (auto simp: as(1) sorted_wrt_append)
    then show ?thesis using that as e(2) dom by (auto dest: order.strict_trans1)
  qed
  ultimately show ?thesis using s e(1) ia by (auto simp: dh_search_def insn_at_def)
qed

definition tracked :: "insn_t store \<Rightarrow> (nat \<Rightarrow> call_t option) \<Rightarrow> nat \<Rightarrow> bool" where
  "tracked h calls c \<longleftrightarrow> (\<exists>p. calls c = Some p \<and> known_insn h (cl_callee p))"

lemma clist_search_ok:
  "\<forall>c \<in> set r. tracked h calls c \<Longrightarrow> \<exists>f. clist_search calls h r a = Ok f \<and> (\<forall>x. f = Some x \<longrightarrow> x \<in> set r)"
proof (induction r)
  case (Cons c r)
  then obtain p i f where "calls c = Some p" "insn_ptr h (cl_callee p) = Ok i"
      "clist_search calls h r a = Ok f" "\<forall>x. f = Some x \<longrightarrow> x \<in> set r"
    by (auto simp: tracked_def known_insn_def)
  then show ?case by (cases "i_addr i = a") (auto simp: call_at_def simp del: bind_result_eq_Ok)
qed simp

lemma merge_call_ok:
  assumes "\<forall>x \<in> set r. tracked h calls x" "tracked h calls c" "c \<notin> set r"
  shows "\<exists>r' calls'. merge_call h func c (r, calls) = Ok (r', calls') \<and> (\<forall>x \<in> set r'. tracked h calls' x)
    \<and> set r' \<subseteq> Set.insert c (set r) \<and> (\<forall>x. x \<notin> Set.insert c (set r) \<longrightarrow> calls' x = calls x)"
proof -
  obtain p i where p: "calls c = Some p" "insn_ptr h (cl_callee p) = Ok i"
    using assms(2) by (auto simp: tracked_def known_insn_def)
  obtain f where f: "clist_search calls h r (i_addr i) = Ok f" "\<forall>x. f = Some x \<longrightarrow> x \<in> set r"
    using clist_search_ok [OF assms(1)] by blast
  show ?thesis
  proof (cases f)
    case None
    then show ?thesis
      using p f assms
      by (auto simp: merge_call_def call_at_def clist_add_head_def count_call_def tracked_def known_insn_def)
  next
    case (Some x)
    then obtain x' r1 rs rc where x: "x \<in> set r" "calls x = Some x'" "r = r1 # rs" "calls r1 = Some rc"
      using f(2) assms(1) by (cases r) (auto simp: tracked_def)
    have "c \<noteq> x" using x assms(3) by auto
    have "merge_call h func c (r, calls) = Ok (r, (calls(x \<mapsto> count_call (x'\<lparr>cl_costs := counters_sum (cl_costs x') (cl_costs rc)\<rparr>)))(c := None))"
      using p f Some x by (simp add: merge_call_def call_at_def del: bind_result_eq_Ok clist_search.simps)
    moreover have "\<forall>y \<in> set r. tracked h ((calls(x \<mapsto> count_call (x'\<lparr>cl_costs := counters_sum (cl_costs x') (cl_costs rc)\<rparr>)))(c := None)) y"
      using assms(1,3) x(2) by (auto simp: tracked_def count_call_def)
    ultimately show ?thesis using x(1) by auto
  qed
qed

lemma pop_loop_ok:
  assumes "\<forall>c \<in> set up. \<exists>p. calls (ct_call c) = Some p \<and> cl_caller p \<noteq> None \<and> known_insn h (cl_callee p) \<and> ct_func c \<noteq> None"
    and "distinct (map ct_call (up @ rest) @ r)" "\<forall>x \<in> set r. tracked h calls x"
  shows "\<exists>r' calls'. pop_loop h (length up) (up @ rest) (r, calls) = Ok (Some (r', calls'), calls', rest)
    \<and> (\<forall>x. x \<notin> ct_call ` set up \<union> set r \<longrightarrow> calls' x = calls x)"
  using assms
proof (induction up arbitrary: r calls)
  case Nil
  then show ?case by simp
next
  case (Cons c up)
  obtain p f where p: "calls (ct_call c) = Some p" "cl_caller p \<noteq> None" "known_insn h (cl_callee p)" "ct_func c = Some f"
    using Cons.prems(1) by auto
  have "tracked h calls (ct_call c)" "ct_call c \<notin> set r" using p Cons.prems(2) by (auto simp: tracked_def)
  from merge_call_ok [OF Cons.prems(3) this, of "Some f"]
  obtain r1 calls1 where m: "merge_call h (Some f) (ct_call c) (r, calls) = Ok (r1, calls1)" "\<forall>x \<in> set r1. tracked h calls1 x"
      "set r1 \<subseteq> Set.insert (ct_call c) (set r)" "\<forall>x. x \<notin> Set.insert (ct_call c) (set r) \<longrightarrow> calls1 x = calls x" by blast
  have d: "ct_call x \<notin> Set.insert (ct_call c) (set r)" if "x \<in> set up" for x
    using that Cons.prems(2) by (auto simp: image_iff)
  have "distinct r1"
  proof -
    have "r1 = ct_call c # r \<or> r1 = r"
      using m(1) by (auto simp: merge_call_def clist_add_head_def Let_def split: option.splits)
    then show ?thesis using Cons.prems(2) by auto
  qed
  moreover have "set (map ct_call (up @ rest)) \<inter> Set.insert (ct_call c) (set r) = {}" using Cons.prems(2) by auto
  then have "set (map ct_call (up @ rest)) \<inter> set r1 = {}" using m(3) by blast
  ultimately have "distinct (map ct_call (up @ rest) @ r1)"
    using Cons.prems(2) by (simp add: Int_Un_distrib Int_Un_distrib2)
  moreover have "\<forall>x \<in> set up. \<exists>p. calls1 (ct_call x) = Some p \<and> cl_caller p \<noteq> None \<and> known_insn h (cl_callee p) \<and> ct_func x \<noteq> None"
    using Cons.prems(1) m(4) d by auto
  ultimately obtain r2 calls2 where l: "pop_loop h (length up) (up @ rest) (r1, calls1) = Ok (Some (r2, calls2), calls2, rest)"
      "\<forall>x. x \<notin> ct_call ` set up \<union> set r1 \<longrightarrow> calls2 x = calls1 x"
    using Cons.IH [of calls1 r1] m(2) by blast
  have "pop_loop h (length (c # up)) ((c # up) @ rest) (r, calls) = Ok (Some (r2, calls2), calls2, rest)"
    using p m(1) l(1) by (simp add: call_at_def)
  moreover have "\<forall>x. x \<notin> ct_call ` set (c # up) \<union> set r \<longrightarrow> calls2 x = calls x"
    using l(2) m(3,4) by auto
  ultimately show ?case by blast
qed

definition func_at :: "(u32 \<rightharpoonup> insn_t) \<Rightarrow> u32 \<Rightarrow> function_t option" where
  "func_at m addr = (case m addr of None \<Rightarrow> None
     | Some i \<Rightarrow> if i_flags i AND INSN_FLAGS_FUNC_ENTRY \<noteq> 0 then func_ptr i else None)"

definition hits :: "u32 \<Rightarrow> function_t option \<Rightarrow> bool" where
  "hits addr f = (case f of None \<Rightarrow> False | Some g \<Rightarrow> IS_IN_FUNCTION_RANGE addr g)"

text \<open>A branch, on the functions of the stack alone.\<close>

definition cs_spec :: "(u32 \<rightharpoonup> insn_t) \<Rightarrow> u32 \<Rightarrow> function_t option list \<Rightarrow> callstack_lookup_t \<times> function_t option list" where
  "cs_spec m addr fs = (case func_at m addr of
     Some f \<Rightarrow> (CALLSTACK_CALL, Some f # fs)
   | None \<Rightarrow> if fs \<noteq> [] \<and> hits addr (hd fs) then (CALLSTACK_JUMP, fs)
       else if \<exists>f \<in> set fs. hits addr f then (CALLSTACK_RET, dropWhile (\<lambda>f. \<not> hits addr f) fs)
       else (CALLSTACK_NONE, fs))"

lemma in_scope_hits: "in_scope addr c = hits addr (ct_func c)"
  by (simp add: in_scope_def hits_def)

lemma scope_depth_takeWhile:
  "scope_depth addr st = (if \<exists>c \<in> set st. in_scope addr c then Some (length (takeWhile (\<lambda>c. \<not> in_scope addr c) st)) else None)"
  by (induction st) auto

lemma split_scope:
  assumes "st = up @ [en, bo]" "ct_func bo = None" "\<exists>c \<in> set st. in_scope addr c"
  shows "\<exists>mid. up = takeWhile (\<lambda>c. \<not> in_scope addr c) st @ mid \<and> dropWhile (\<lambda>c. \<not> in_scope addr c) st = mid @ [en, bo]"
proof (cases "\<exists>c \<in> set up. in_scope addr c")
  case True
  then have "takeWhile (\<lambda>c. \<not> in_scope addr c) st = takeWhile (\<lambda>c. \<not> in_scope addr c) up"
    "dropWhile (\<lambda>c. \<not> in_scope addr c) st = dropWhile (\<lambda>c. \<not> in_scope addr c) up @ [en, bo]"
    by (auto simp: assms(1) takeWhile_append1 dropWhile_append1)
  then show ?thesis by (metis takeWhile_dropWhile_id)
next
  case False
  then have "in_scope addr en" using assms by (auto simp: in_scope_def)
  with False show ?thesis by (intro exI [of _ "[]"]) (simp add: assms(1) takeWhile_append2 dropWhile_append2)
qed

lemma entry_func:
  assumes "entry_has_func i" "i_flags i AND INSN_FLAGS_FUNC_ENTRY \<noteq> 0"
  shows "\<exists>f. func_ptr i = Some f"
  using assms by (cases "i_func i") (auto simp: entry_has_func_def func_ptr_def)

lemma enter_call_simps [simp]:
  "cs_dh (enter_call caller a i cs) = cs_dh cs" "cs_state (enter_call caller a i cs) = cs_state cs"
  "cs_prev (enter_call caller a i cs) = Some a" "cs_fresh (enter_call caller a i cs) = cs_fresh cs + 1"
  "cs_calls (enter_call caller a i cs) = (cs_calls cs)(cs_fresh cs \<mapsto> (call_new caller (Some a))\<lparr>cl_func := func_ptr i\<rparr>)"
  "cs_stack (enter_call caller a i cs) = ctxt_push (cs_stack cs) (ctxt_new (cs_fresh cs) (func_ptr i))"
  by (simp_all add: enter_call_def alloc_call_def)

lemma cs_invD:
  assumes "cs_inv cs"
  shows "dh_inv (cs_dh cs)" "\<forall>i \<in> ran (dh_map (cs_dh cs)). entry_has_func i" "cs_state cs = CS_STATE_INITIALIZED"
    "known_insn (dh_elts (cs_dh cs)) (cs_prev cs)" "distinct (map ct_call (cs_stack cs))"
    "\<forall>c \<in> set (cs_stack cs). ct_call c < cs_fresh cs"
    "map ct_level (cs_stack cs) = rev (map int [0..<length (cs_stack cs)])"
    "\<exists>up en bo. cs_stack cs = up @ [en, bo] \<and> (\<forall>c \<in> set up. called cs c) \<and> ct_func en \<noteq> None \<and> ct_func bo = None"
  using assms unfolding cs_inv_def by blast+

lemma enter_inv:
  assumes inv: "cs_inv cs" and "known_insn (dh_elts (cs_dh cs)) (Some a)" "func_ptr i \<noteq> None"
  shows "cs_inv (enter_call (cs_prev cs) a i cs)"
proof -
  let ?cs' = "enter_call (cs_prev cs) a i cs"
  obtain up en bo where st: "cs_stack cs = up @ [en, bo]" "\<forall>c \<in> set up. called cs c" "ct_func en \<noteq> None" "ct_func bo = None"
    using cs_invD(8) [OF inv] by blast
  have lv: "map ct_level (cs_stack cs) = rev (map int [0..<length (cs_stack cs)])"
    and lt: "\<forall>c \<in> set (cs_stack cs). ct_call c < cs_fresh cs"
    by (rule cs_invD(7) [OF inv], rule cs_invD(6) [OF inv])
  obtain t ts where ts: "cs_stack cs = t # ts" using st(1) by (cases up) auto
  define nc where "nc = (ctxt_new (cs_fresh cs) (func_ptr i))\<lparr>ct_level := int (length (cs_stack cs))\<rparr>"
  have nc: "ct_call nc = cs_fresh cs" "ct_func nc = func_ptr i" "ct_level nc = int (length (cs_stack cs))"
    by (simp_all add: nc_def ctxt_new_def)
  have "ct_level t = int (length ts)" using lv ts by simp
  then have stk: "cs_stack ?cs' = nc # cs_stack cs" using ts by (simp add: ctxt_push_def nc_def)
  have "known_insn (dh_elts (cs_dh cs)) (cs_prev cs)" by (rule cs_invD(4) [OF inv])
  then have prev: "cs_prev cs \<noteq> None" by (cases "cs_prev cs") (simp_all add: known_insn_def insn_ptr_def)
  have "called ?cs' nc" using assms(2,3) prev by (simp add: called_def nc call_new_def)
  moreover have "\<forall>c \<in> set up. called ?cs' c"
  proof
    fix c assume c: "c \<in> set up"
    then have "ct_call c < cs_fresh cs" using lt st(1) by simp
    then show "called ?cs' c" using c st(2) by (simp add: called_def)
  qed
  ultimately have ex: "\<exists>up en bo. cs_stack ?cs' = up @ [en, bo] \<and> (\<forall>c \<in> set up. called ?cs' c) \<and> ct_func en \<noteq> None \<and> ct_func bo = None"
    using st(1,3,4) stk by (intro exI [of _ "nc # up"] exI [of _ en] exI [of _ bo]) (simp del: enter_call_simps)
  have lv': "map ct_level (cs_stack ?cs') = rev (map int [0..<length (cs_stack ?cs')])"
    using lv stk nc(3) by (simp del: enter_call_simps)
  have d': "distinct (map ct_call (cs_stack ?cs'))" "\<forall>c \<in> set (cs_stack ?cs'). ct_call c < cs_fresh ?cs'"
    unfolding stk using cs_invD(5) [OF inv] lt nc(1) by auto
  have "dh_inv (cs_dh ?cs')" "\<forall>i \<in> ran (dh_map (cs_dh ?cs')). entry_has_func i" "cs_state ?cs' = CS_STATE_INITIALIZED"
      "known_insn (dh_elts (cs_dh ?cs')) (cs_prev ?cs')"
    using cs_invD(1-3) [OF inv] assms(2) by simp_all
  with lv' ex d' show ?thesis unfolding cs_inv_def by blast
qed

lemma pop_inv:
  assumes inv: "cs_inv cs" and "known_insn (dh_elts (cs_dh cs)) (Some a)"
    and st: "cs_stack cs = pre @ mid @ [en, bo]" "\<forall>c \<in> set (pre @ mid). called cs c" "ct_func en \<noteq> None" "ct_func bo = None"
    and calls: "\<forall>x. x \<notin> ct_call ` set pre \<longrightarrow> calls x = cs_calls cs x"
  shows "cs_inv (cs\<lparr>cs_stack := mid @ [en, bo], cs_calls := calls, cs_prev := Some a\<rparr>)"
proof -
  let ?cs' = "cs\<lparr>cs_stack := mid @ [en, bo], cs_calls := calls, cs_prev := Some a\<rparr>"
  have d: "distinct (map ct_call (cs_stack cs))" and lv: "map ct_level (cs_stack cs) = rev (map int [0..<length (cs_stack cs)])"
    by (rule cs_invD(5) [OF inv], rule cs_invD(7) [OF inv])
  have n: "length (cs_stack cs) - length pre = length (mid @ [en, bo])" by (simp add: st(1))
  have "map ct_level (mid @ [en, bo]) = drop (length pre) (map ct_level (cs_stack cs))" by (simp add: st(1))
  also have "\<dots> = rev (map int (take (length (mid @ [en, bo])) [0..<length (cs_stack cs)]))"
    by (simp only: lv drop_rev length_map length_upt diff_zero n take_map)
  also have "\<dots> = rev (map int [0..<length (mid @ [en, bo])])"
    using n by (subst take_upt) (simp_all del: upt_Suc length_append)
  finally have lv': "map ct_level (cs_stack ?cs') = rev (map int [0..<length (cs_stack ?cs')])" by simp
  have "\<forall>c \<in> set mid. called ?cs' c"
  proof
    fix c assume c: "c \<in> set mid"
    have "set (map ct_call pre) \<inter> set (map ct_call (mid @ [en, bo])) = {}"
      using d unfolding st(1) by (metis distinct_append map_append)
    then have "ct_call c \<notin> ct_call ` set pre" using c by auto
    then have "calls (ct_call c) = cs_calls cs (ct_call c)" using calls by blast
    then show "called ?cs' c" using c st(2) by (simp add: called_def)
  qed
  then have ex: "\<exists>up e b. cs_stack ?cs' = up @ [e, b] \<and> (\<forall>c \<in> set up. called ?cs' c) \<and> ct_func e \<noteq> None \<and> ct_func b = None"
    using st(3,4) by (intro exI [of _ mid] exI [of _ en] exI [of _ bo]) simp
  have d': "distinct (map ct_call (cs_stack ?cs'))" using d st(1) by simp
  have lt': "\<forall>c \<in> set (cs_stack ?cs'). ct_call c < cs_fresh ?cs'" using cs_invD(6) [OF inv] st(1) by simp
  have "dh_inv (cs_dh ?cs')" "\<forall>i \<in> ran (dh_map (cs_dh ?cs')). entry_has_func i" "cs_state ?cs' = CS_STATE_INITIALIZED"
      "known_insn (dh_elts (cs_dh ?cs')) (cs_prev ?cs')"
    using cs_invD(1-3) [OF inv] assms(2) by simp_all
  with lv' ex d' lt' show ?thesis unfolding cs_inv_def by blast
qed

lemma branch_ok:
  assumes inv: "cs_inv cs" and "k \<in> dom (dh_map (cs_dh cs))" "k \<le> addr"
  shows "\<exists>r call cs'. lookup_branch addr cs = Ok (r, call, cs') \<and> cs_inv cs' \<and> cs_dh cs' = cs_dh cs
    \<and> (r, map ct_func (cs_stack cs')) = cs_spec (dh_map (cs_dh cs)) addr (map ct_func (cs_stack cs))"
proof -
  let ?dh = "cs_dh cs" and ?st = "cs_stack cs"
  have dh: "dh_inv ?dh" using inv by (simp add: cs_inv_def)
  obtain a i where a: "dh_search ?dh addr = Some a" "insn_at (dh_elts ?dh) a = Ok i" "dh_map ?dh (i_addr i) = Some i"
      "addr \<in> dom (dh_map ?dh) \<longrightarrow> i_addr i = addr"
    using search_known [OF dh assms(2,3)] by blast
  have ptr: "insn_ptr (dh_elts ?dh) (Some a) = Ok i" using a(2) by (simp add: insn_ptr_def)
  have known: "known_insn (dh_elts ?dh) (Some a)" using ptr by (auto simp: known_insn_def)
  obtain up en bo where st: "?st = up @ [en, bo]" "\<forall>c \<in> set up. called cs c" "ct_func en \<noteq> None" "ct_func bo = None"
    using inv by (auto simp: cs_inv_def)
  obtain ip where ip: "insn_ptr (dh_elts ?dh) (cs_prev cs) = Ok ip" using inv by (auto simp: cs_inv_def known_insn_def)
  have ne: "?st \<noteq> []" using st by simp
  consider (entry) "i_addr i = addr" "i_flags i AND INSN_FLAGS_FUNC_ENTRY \<noteq> 0"
    | (other) "\<not> (i_addr i = addr \<and> i_flags i AND INSN_FLAGS_FUNC_ENTRY \<noteq> 0)" by blast
  then show ?thesis
  proof cases
    case entry
    have "entry_has_func i" using inv a(3) by (auto simp: cs_inv_def ran_def)
    then obtain f where f: "func_ptr i = Some f" using entry_func entry(2) by blast
    let ?cs' = "enter_call (cs_prev cs) a i cs"
    have run: "lookup_branch addr cs = Ok (CALLSTACK_CALL, [cs_fresh cs], ?cs')"
      using a(1) ptr ip entry f by (simp add: lookup_branch_def Let_def del: bind_result_eq_Ok)
    have "func_at (dh_map ?dh) addr = Some f" using a(3) entry f by (simp add: func_at_def)
    moreover have "map ct_func (cs_stack ?cs') = Some f # map ct_func ?st"
      using ne f by (cases ?st) (auto simp: enter_call_def alloc_call_def ctxt_push_def ctxt_new_def)
    moreover have "cs_inv ?cs'" using enter_inv [OF inv known] f by simp
    moreover have "cs_dh ?cs' = ?dh" by (simp add: enter_call_def alloc_call_def)
    ultimately show ?thesis using run by (auto simp: cs_spec_def)
  next
    case other
    then have nf: "func_at (dh_map ?dh) addr = None" using a(3,4) by (auto simp: func_at_def split: option.splits)
    have run: "lookup_branch addr cs = (if in_scope addr (hd ?st) then Ok (CALLSTACK_JUMP, [], cs\<lparr>cs_prev := Some a\<rparr>)
      else case scope_depth addr ?st of None \<Rightarrow> Ok (CALLSTACK_NONE, [], cs)
      | Some depth \<Rightarrow>
          bind_result (pop_loop (dh_elts ?dh) depth ?st ([], cs_calls cs)) (\<lambda>(r, calls, stack). case r of
            None \<Rightarrow> Ok (CALLSTACK_ERROR, [], cs\<lparr>cs_stack := stack, cs_calls := calls, cs_state := CS_STATE_ERROR\<rparr>)
          | Some (ret_call, calls) \<Rightarrow>
              Ok (CALLSTACK_RET, ret_call, cs\<lparr>cs_stack := stack, cs_calls := calls, cs_prev := Some a\<rparr>)))"
      using a(1) ptr other ne by (auto simp: lookup_branch_def Let_def simp del: bind_result_eq_Ok)
    show ?thesis
    proof (cases "in_scope addr (hd ?st)")
      case True
      then have "cs_spec (dh_map ?dh) addr (map ct_func ?st) = (CALLSTACK_JUMP, map ct_func ?st)"
        using nf ne by (simp add: cs_spec_def in_scope_hits hd_map)
      moreover have "cs_inv (cs\<lparr>cs_prev := Some a\<rparr>)" using inv known by (auto simp: cs_inv_def called_def)
      ultimately show ?thesis using True run by simp
    next
      case False
      have sp: "cs_spec (dh_map ?dh) addr (map ct_func ?st) = (if \<exists>c \<in> set ?st. in_scope addr c
          then (CALLSTACK_RET, map ct_func (dropWhile (\<lambda>c. \<not> in_scope addr c) ?st)) else (CALLSTACK_NONE, map ct_func ?st))"
        using False nf ne by (auto simp: cs_spec_def in_scope_hits hd_map dropWhile_map comp_def)
      show ?thesis
      proof (cases "\<exists>c \<in> set ?st. in_scope addr c")
        case True
        define pre where "pre = takeWhile (\<lambda>c. \<not> in_scope addr c) ?st"
        obtain mid where mid: "up = pre @ mid" "dropWhile (\<lambda>c. \<not> in_scope addr c) ?st = mid @ [en, bo]"
          using split_scope [OF st(1,4) True] by (auto simp: pre_def)
        have eq: "?st = pre @ mid @ [en, bo]" using st(1) mid(1) by simp
        have "\<forall>c \<in> set pre. \<exists>p. cs_calls cs (ct_call c) = Some p \<and> cl_caller p \<noteq> None
            \<and> known_insn (dh_elts ?dh) (cl_callee p) \<and> ct_func c \<noteq> None"
          using st(2) mid(1) by (auto simp: called_def)
        moreover have "distinct (map ct_call (pre @ mid @ [en, bo]) @ [])" using inv eq by (simp add: cs_inv_def)
        ultimately obtain r calls where l: "pop_loop (dh_elts ?dh) (length pre) ?st ([], cs_calls cs) = Ok (Some (r, calls), calls, mid @ [en, bo])"
            "\<forall>x. x \<notin> ct_call ` set pre \<longrightarrow> calls x = cs_calls cs x"
          using pop_loop_ok [of pre "cs_calls cs" "dh_elts ?dh" "mid @ [en, bo]" "[]"] eq by auto
        have "lookup_branch addr cs = Ok (CALLSTACK_RET, r, cs\<lparr>cs_stack := mid @ [en, bo], cs_calls := calls, cs_prev := Some a\<rparr>)"
          using run False True l(1) by (simp add: scope_depth_takeWhile pre_def)
        then show ?thesis
          using pop_inv [OF inv known eq _ st(3,4) l(2)] st(2) mid sp True by auto
      next
        case no: False
        then show ?thesis using run False inv sp by (simp add: scope_depth_takeWhile)
      qed
    qed
  qed
qed

lemma lookup_ok:
  assumes "cs_inv cs" "flags AND INSN_FLAGS_NSEQ \<noteq> 0" "k \<in> dom (dh_map (cs_dh cs))" "k \<le> addr"
  shows "\<exists>r call cs'. callstack_lookup cs addr flags = Ok (r, call, cs') \<and> cs_inv cs' \<and> cs_dh cs' = cs_dh cs
    \<and> (r, map ct_func (cs_stack cs')) = cs_spec (dh_map (cs_dh cs)) addr (map ct_func (cs_stack cs))"
  using branch_ok [OF assms(1,3,4)] cs_invD(3) [OF assms(1)] assms(2) by (simp add: callstack_lookup_def)

text \<open>C33: Following a branch to an address above the first known one returns and acts on the stack of
  functions: a branch to a function's entry pushes the function, a branch inside the function on top
  leaves the stack, a branch into a function further down pops exactly the functions above it, and any
  other changes nothing. In particular the first context is never popped.\<close>

theorem callstack_follows:
  assumes "cs_inv cs" "flags AND INSN_FLAGS_NSEQ \<noteq> 0" "k \<in> dom (dh_map (cs_dh cs))" "k \<le> addr"
  shows "\<exists>r call cs'. callstack_lookup cs addr flags = Ok (r, call, cs') \<and> cs_inv cs'
    \<and> (r, map ct_func (cs_stack cs')) = cs_spec (dh_map (cs_dh cs)) addr (map ct_func (cs_stack cs))"
  using lookup_ok [OF assms] by blast

text \<open>The first instruction.\<close>

lemma first_ok:
  assumes "dh_inv dh" "\<forall>i \<in> ran (dh_map dh). entry_has_func i" "dh_map dh addr = Some i" "func_ptr i = Some f"
  shows "\<exists>call cs'. callstack_lookup (callstack_new dh) addr flags = Ok (CALLSTACK_CALL, call, cs') \<and> cs_inv cs'
    \<and> cs_dh cs' = dh \<and> map ct_func (cs_stack cs') = [Some f, None]"
proof -
  let ?cs = "callstack_new dh"
  have "addr \<in> dom (dh_map dh)" using assms(3) by auto
  then obtain a j where a: "dh_search dh addr = Some a" "insn_at (dh_elts dh) a = Ok j" "dh_map dh (i_addr j) = Some j" "i_addr j = addr"
    using search_known [OF assms(1), of addr addr] by auto
  then have j: "j = i" using assms(3) by simp
  let ?cs' = "(enter_call None a i ?cs)\<lparr>cs_state := CS_STATE_INITIALIZED\<rparr>"
  have run: "callstack_lookup ?cs addr flags = Ok (CALLSTACK_CALL, [1], ?cs')"
    using a(1,2) j assms(4) by (simp add: callstack_lookup_def lookup_first_def callstack_new_def Let_def del: bind_result_eq_Ok)
  have stk: "cs_stack ?cs' = [(ctxt_new 1 (Some f))\<lparr>ct_level := 1\<rparr>, ctxt_new 0 None]"
    using assms(4) by (simp add: callstack_new_def ctxt_push_def ctxt_new_def)
  have kn: "known_insn (dh_elts dh) (Some a)" using a(2) by (simp add: known_insn_def insn_ptr_def)
  have "cs_inv ?cs'"
    unfolding cs_inv_def stk using assms(1,2) kn
    by (intro conjI exI [of _ "[]"] exI [of _ "(ctxt_new 1 (Some f))\<lparr>ct_level := 1\<rparr>"] exI [of _ "ctxt_new 0 None"]) (simp_all add: callstack_new_def ctxt_new_def)
  then show ?thesis using run stk by (auto simp: callstack_new_def ctxt_new_def)
qed

definition demo_callee :: function_t where
  "demo_callee = function_new\<lparr>f_type := FUNCTION_TYPE_FUNC, f_lowpc := 0x200, f_highpc := 0x220, f_name := Some ''sub''\<rparr>"

definition demo_map :: "u32 \<rightharpoonup> insn_t" where
  "demo_map = [0x100 \<mapsto> enter INSN_FLAGS_FUNC_ENTRY demo_func (insn_new 0x100), 0x140 \<mapsto> mark INSN_FLAGS_FUNC_END (insn_new 0x140),
     0x200 \<mapsto> enter INSN_FLAGS_FUNC_ENTRY demo_callee (insn_new 0x200), 0x220 \<mapsto> mark INSN_FLAGS_FUNC_END (insn_new 0x220)]"

lemma demo_map_eq: "foldr func_spec [demo_func, demo_callee] Map.empty = demo_map"
  by (simp add: func_spec_def amend_def demo_func_def demo_callee_def function_new_def demo_map_def fun_eq_iff)

lemma demo_sized: "i \<in> ran demo_map \<Longrightarrow> \<not> unsized_insn i"
  by (auto simp: demo_map_def ran_def unsized_insn_def enter_def mark_def flist_add_head_def insn_new_def function_copy_def
      demo_func_def demo_callee_def function_new_def INSN_FLAGS_UNUSED_def INSN_FLAGS_FUNC_END_def INSN_FLAGS_FUNC_ENTRY_def
      split: if_splits)

lemma demo_index:
  "\<exists>dh. dh_init [demo_func, demo_callee] [] = ret dh \<and> dh_inv dh \<and> (\<forall>i \<in> ran (dh_map dh). entry_has_func i) \<and> dh_map dh = demo_map"
proof -
  have r: "\<forall>f \<in> set [demo_func, demo_callee]. f_ranges f \<noteq> None"
    by (simp add: demo_func_def demo_callee_def function_new_def)
  obtain dh where dh: "dh_init [demo_func, demo_callee] [] = ret dh" "dh_inv dh" "dh_map dh = lines_spec [] (fix_spec demo_map)"
    using init_ok [OF r, of "[]"] demo_map_eq by auto
  have "fix_spec demo_map k = demo_map k" for k
    using demo_sized by (cases "demo_map k") (auto simp: fix_spec_def ran_def)
  then have "dh_map dh = demo_map" using dh(3) by (simp add: lines_spec_def fun_eq_iff)
  moreover have "\<forall>i \<in> ran demo_map. entry_has_func i"
    using func_spec_entries [of "func_spec demo_callee Map.empty" demo_func] func_spec_entries [of Map.empty demo_callee]
    by (auto simp: demo_map_eq [symmetric])
  ultimately show ?thesis using dh(1,2) by auto
qed

lemma demo_started:
  "\<exists>dh call cs. dh_init [demo_func, demo_callee] [] = ret dh \<and> callstack_lookup (callstack_new dh) 0x100 1 = Ok (CALLSTACK_CALL, call, cs)
    \<and> cs_inv cs \<and> dh_map (cs_dh cs) = demo_map \<and> map ct_func (cs_stack cs) = [Some (function_copy demo_func), None]"
proof -
  obtain dh where dh: "dh_init [demo_func, demo_callee] [] = ret dh" "dh_inv dh" "\<forall>i \<in> ran (dh_map dh). entry_has_func i"
      "dh_map dh = demo_map" using demo_index by blast
  have i: "dh_map dh 0x100 = Some (enter INSN_FLAGS_FUNC_ENTRY demo_func (insn_new 0x100))" by (simp add: dh(4) demo_map_def)
  have f: "func_ptr (enter INSN_FLAGS_FUNC_ENTRY demo_func (insn_new 0x100)) = Some (function_copy demo_func)"
    by (simp add: func_ptr_def enter_def flist_add_head_def)
  from first_ok [OF dh(2,3) i f, of 1] dh(1,4) show ?thesis by auto
qed

theorem callstack_follows_witness:
  "\<exists>dh call1 cs1 call2 cs2. dh_init [demo_func, demo_callee] [] = ret dh
    \<and> callstack_lookup (callstack_new dh) 0x100 1 = Ok (CALLSTACK_CALL, call1, cs1)
    \<and> callstack_lookup cs1 0x104 1 = Ok (CALLSTACK_JUMP, call2, cs2) \<and> map ct_func (cs_stack cs2) = map ct_func (cs_stack cs1)"
proof -
  obtain dh call1 cs1 where 1: "dh_init [demo_func, demo_callee] [] = ret dh"
      "callstack_lookup (callstack_new dh) 0x100 1 = Ok (CALLSTACK_CALL, call1, cs1)" "cs_inv cs1"
      "dh_map (cs_dh cs1) = demo_map" "map ct_func (cs_stack cs1) = [Some (function_copy demo_func), None]"
    using demo_started by auto
  have "0x100 \<in> dom (dh_map (cs_dh cs1))" using 1(4) by (simp add: demo_map_def)
  then obtain r call2 cs2 where 2: "callstack_lookup cs1 0x104 1 = Ok (r, call2, cs2)"
      "(r, map ct_func (cs_stack cs2)) = cs_spec (dh_map (cs_dh cs1)) 0x104 (map ct_func (cs_stack cs1))"
    using callstack_follows [OF 1(3), of 1 "0x100" "0x104"] by (auto simp: INSN_FLAGS_NSEQ_def)
  have "cs_spec (dh_map (cs_dh cs1)) 0x104 (map ct_func (cs_stack cs1)) = (CALLSTACK_JUMP, map ct_func (cs_stack cs1))"
    using 1(4,5)
    by (simp add: demo_map_def cs_spec_def func_at_def hits_def IS_IN_FUNCTION_RANGE_def function_copy_def demo_func_def function_new_def)
  then show ?thesis using 1(1,2) 2 by auto
qed



section \<open>The costs of merged calls\<close>

text \<open>When a popped call is merged into an earlier one to the same function, what it cost is lost: the
  result is the same whatever its counters are.\<close>

lemma merged_costs_lost:
  assumes "clist_search (calls(c \<mapsto> p)) h r (i_addr i) = Ok (Some f)" "insn_ptr h (cl_callee p) = Ok i" "c \<notin> set r" "f \<in> set r"
  shows "merge_call h func c (r, calls(c \<mapsto> p\<lparr>cl_costs := x\<rparr>)) = merge_call h func c (r, calls(c \<mapsto> p))"
proof -
  have "clist_search (calls(c \<mapsto> q)) h r a = clist_search calls h r a" if "c \<notin> set r" for q r a
    using that by (induction r) (auto simp: call_at_def bind_result_def split: sum.splits)
  then have "clist_search (calls(c \<mapsto> q)) h r (i_addr i) = Ok (Some f)" for q using assms(1,3) by metis
  moreover obtain r1 rs where r: "r = r1 # rs" using assms(4) by (cases r) auto
  ultimately show ?thesis
    using assms(2-4) by (auto simp: merge_call_def call_at_def Let_def simp del: bind_result_eq_Ok clist_search.simps)
qed

end
