(* ===== verification/Hwe_Handle.thy ===== *)
theory Hwe_Handle
  imports Hwe_Events Olist
begin

text \<open>
  The handler of trace events, \<open>lib/decopus/trace/include/hwe_handle_implem.h\<close> with the types of
  \<open>hwe_handle_def.h\<close> and \<open>hwe_handle_header.h\<close>. Each event passes through the stages \<open>init\<close>,
  \<open>go\<close> and \<open>ret\<close>, and a callback of the tool is called at each of them. Counters hold a stage back
  until the events it waits for have passed theirs: the events it refers to, the events that
  refer to it, and its predecessors in the fifos the tool has put it into.

  Events are named by their address: the pool's \<open>k\<close>-th element is the event \<open>k\<close>. An event owns its
  linked lists (\<open>followers\<close>, \<open>usrfol\<close>), so they are lists. The containers linked by
  \<open>refnext\<close> are a list too, with the event's own container first. A fifo is named by the component whose
  member it is. The functions of the tool are an argument, the record \<open>client\<close>. The fields that start with
  \<open>aux\<close> are not in the code: \<open>aux_serial\<close> tells the events apart that use the same memory one
  after the other, \<open>aux_log\<close> is the history of commits, fifo entries and callbacks, latest first.

  The options of the file are those of \<open>tool/sherlock\<close>: both stages are used, no safe mode, no
  report, no dump.
\<close>

section \<open>Types\<close>

datatype stage_t = STAGE_TRACE | STAGE_INIT | STAGE_GO | STAGE_RET

text \<open>\<open>comp_t.init_fifo\<close> and the fifo in the tool's data of a component.\<close>

datatype fifo_id = Init_fifo nat | Data_fifo nat

record evfifo_t =
  ff_queue :: "nat option"
  ff_stage :: stage_t

text \<open>An element of a list blocks a stage of an event, or (\<open>event == NULL\<close>) stands for membership in a fifo.\<close>

datatype evptr_t = Blocked nat stage_t | In_fifo fifo_id

text \<open>The callback \<open>cb_epicfail\<close> is \<open>None\<close>.\<close>

record 'cb event_stage =
  st_cb :: "'cb option"
  st_cnt :: int
  st_done :: bool
  st_usrfol :: "evptr_t list"

record container =
  ct_hwe :: hwe_cont
  ct_self :: nat
  ct_refs :: "nat option list"

record ('cb, 'd) event_t =
  e_hwe :: "container list"
  e_comp :: "nat option"
  e_nrefs :: int
  e_commited :: bool
  e_missref :: int
  e_missfol :: int
  e_followers :: "nat list"
  e_init :: "'cb event_stage"
  e_go :: "'cb event_stage"
  e_ret :: "'cb event_stage"
  e_data :: 'd
  aux_serial :: nat

record ('cb, 'c) comp_t =
  cm_id :: nat
  cm_type :: u8
  cm_init :: "'cb option"
  cm_data :: 'c

datatype entry = L_commit nat "nat list" | L_put fifo_id stage_t nat | L_call stage_t nat

record ('cb, 'd, 'c, 'w) handle =
  h_maxcomp :: nat
  h_comp :: "nat \<Rightarrow> ('cb, 'c) comp_t option"
  h_events :: "nat \<Rightarrow> ('cb, 'd) event_t option"
  h_nb :: nat
  h_list :: "nat list"
  h_fifo :: "fifo_id \<Rightarrow> evfifo_t"
  h_start_done :: bool
  h_world :: 'w
  aux_next :: nat
  aux_log :: "entry list"

record ('cb, 'd, 'c, 'w) client =
  cl_call :: "'cb \<Rightarrow> nat \<Rightarrow> ('cb, 'd, 'c, 'w) handle \<Rightarrow> ('cb, 'd, 'c, 'w) handle run"
  cl_component :: "nat \<Rightarrow> nat \<Rightarrow> ('cb, 'd, 'c, 'w) handle \<Rightarrow> ('cb, 'd, 'c, 'w) handle run"
  cl_zero :: 'd

section \<open>Accesses\<close>

definition get_event :: "nat \<Rightarrow> ('cb, 'd, 'c, 'w) handle \<Rightarrow> ('cb, 'd) event_t run" where
  "get_event e h = (case h_events h e of None \<Rightarrow> undef_run | Some ev \<Rightarrow> ret ev)"

definition upd_event ::
  "nat \<Rightarrow> (('cb, 'd) event_t \<Rightarrow> ('cb, 'd) event_t) \<Rightarrow> ('cb, 'd, 'c, 'w) handle \<Rightarrow> ('cb, 'd, 'c, 'w) handle" where
  "upd_event e f h = h\<lparr>h_events := (h_events h)(e := map_option f (h_events h e))\<rparr>"

definition stage_of :: "stage_t \<Rightarrow> ('cb, 'd) event_t \<Rightarrow> 'cb event_stage" where
  "stage_of s ev = (case s of STAGE_INIT \<Rightarrow> e_init ev | STAGE_GO \<Rightarrow> e_go ev | _ \<Rightarrow> e_ret ev)"

definition map_stage ::
  "stage_t \<Rightarrow> ('cb event_stage \<Rightarrow> 'cb event_stage) \<Rightarrow> ('cb, 'd) event_t \<Rightarrow> ('cb, 'd) event_t" where
  "map_stage s f ev = (case s of STAGE_TRACE \<Rightarrow> ev | STAGE_INIT \<Rightarrow> ev\<lparr>e_init := f (e_init ev)\<rparr>
     | STAGE_GO \<Rightarrow> ev\<lparr>e_go := f (e_go ev)\<rparr> | STAGE_RET \<Rightarrow> ev\<lparr>e_ret := f (e_ret ev)\<rparr>)"

definition add_cnt :: "int \<Rightarrow> 'cb event_stage \<Rightarrow> 'cb event_stage" where
  "add_cnt n st = st\<lparr>st_cnt := st_cnt st + n\<rparr>"

definition add_log :: "entry \<Rightarrow> ('cb, 'd, 'c, 'w) handle \<Rightarrow> ('cb, 'd, 'c, 'w) handle" where
  "add_log x h = h\<lparr>aux_log := x # aux_log h\<rparr>"

text \<open>The references of a container, all of them of an event, and \<open>event_ref\<close>. Following a null
  reference and reading behind the array are undefined.\<close>

definition hwe_getnref :: "container \<Rightarrow> nat" where
  "hwe_getnref c = unat (hd_nrefs (hc_head (ct_hwe c)))"

definition cont_refs :: "container \<Rightarrow> nat list run" where
  "cont_refs c =
     (let rs = take (hwe_getnref c) (ct_refs c)
      in if length rs < hwe_getnref c \<or> None \<in> set rs then undef_run else ret (map the rs))"

definition event_ref :: "('cb, 'd) event_t \<Rightarrow> nat \<Rightarrow> nat option run" where
  "event_ref ev i =
     (if int i \<ge> e_nrefs ev then ret None
      else case drop (i div HWE_REF_MAX) (e_hwe ev) of [] \<Rightarrow> undef_run
        | ct # _ \<Rightarrow> if i mod HWE_REF_MAX < length (ct_refs ct) then ret (ct_refs ct ! (i mod HWE_REF_MAX)) else undef_run)"

section \<open>Allocation\<close>

definition no_stage :: "'cb event_stage" where
  "no_stage = \<lparr>st_cb = None, st_cnt = 0, st_done = False, st_usrfol = []\<rparr>"

definition event_init :: "nat \<Rightarrow> ('cb, 'd) event_t \<Rightarrow> ('cb, 'd) event_t" where
  "event_init n ev = ev\<lparr>e_comp := None, e_nrefs := - 1, e_commited := False, e_missref := 0, e_missfol := 0,
     e_followers := [], e_init := no_stage, e_go := no_stage, e_ret := no_stage, aux_serial := n\<rparr>"

text \<open>The contents of a new element of the pools are the argument \<open>new\<close>.\<close>

definition event_new ::
  "('cb, 'd) event_t \<Rightarrow> ('cb, 'd, 'c, 'w) handle \<Rightarrow> nat \<times> ('cb, 'd, 'c, 'w) handle" where
  "event_new new h =
     (let (e, h) = (case h_list h of
            e # r \<Rightarrow> (e, h\<lparr>h_list := r\<rparr>)
          | [] \<Rightarrow> (h_nb h, h\<lparr>h_nb := h_nb h + 1, h_events := (h_events h)(h_nb h := Some new)\<rparr>))
      in (e, (upd_event e (event_init (aux_next h)) h)\<lparr>aux_next := aux_next h + 1\<rparr>))"

definition event_recycle :: "nat \<Rightarrow> ('cb, 'd, 'c, 'w) handle \<Rightarrow> ('cb, 'd, 'c, 'w) handle" where
  "event_recycle e h = h\<lparr>h_list := e # h_list h\<rparr>"

text \<open>The trace reader fills the containers of an event before it commits the event.\<close>

definition set_content :: "nat \<Rightarrow> container list \<Rightarrow> ('cb, 'd, 'c, 'w) handle \<Rightarrow> ('cb, 'd, 'c, 'w) handle" where
  "set_content e cs = upd_event e (\<lambda>ev. ev\<lparr>e_hwe := cs\<rparr>)"

text \<open>The state at the beginning. The components, with their fifos, are allocated by \<open>calloc\<close>.\<close>

definition handle_start :: "'w \<Rightarrow> ('cb, 'd, 'c, 'w) handle" where
  "handle_start w = \<lparr>h_maxcomp = 16, h_comp = Map.empty, h_events = Map.empty, h_nb = 0, h_list = [],
     h_fifo = (\<lambda>_. \<lparr>ff_queue = None, ff_stage = STAGE_TRACE\<rparr>), h_start_done = False, h_world = w, aux_next = 0, aux_log = []\<rparr>"

section \<open>Barriers and fifos\<close>

definition evfifo_init :: "fifo_id \<Rightarrow> ('cb, 'd, 'c, 'w) handle \<Rightarrow> ('cb, 'd, 'c, 'w) handle" where
  "evfifo_init f h = h\<lparr>h_fifo := (h_fifo h)(f := (h_fifo h f)\<lparr>ff_queue := None\<rparr>)\<rparr>"

definition set_barrier ::
  "nat \<Rightarrow> stage_t \<Rightarrow> nat \<Rightarrow> stage_t \<Rightarrow> ('cb, 'd, 'c, 'w) handle \<Rightarrow> ('cb, 'd, 'c, 'w) handle run" where
  "set_barrier evsrc stsrc evdst stdst h =
     bind_run (get_event evdst h) (\<lambda>_.
     bind_run (get_event evsrc h) (\<lambda>_.
       ret (upd_event evsrc (map_stage stsrc (\<lambda>st. st\<lparr>st_usrfol := Blocked evdst stdst # st_usrfol st\<rparr>))
         (upd_event evdst (map_stage stdst (add_cnt 1)) h))))"

definition put_infifo ::
  "fifo_id \<Rightarrow> nat \<Rightarrow> stage_t \<Rightarrow> ('cb, 'd, 'c, 'w) handle \<Rightarrow> ('cb, 'd, 'c, 'w) handle run" where
  "put_infifo f e stg h =
     bind_run (case ff_queue (h_fifo h f) of None \<Rightarrow> ret h
       | Some q \<Rightarrow> set_barrier q (ff_stage (h_fifo h f)) e stg h) (\<lambda>h.
     bind_run (get_event e h) (\<lambda>ev.
       ret (add_log (L_put f stg (aux_serial ev))
         (upd_event e (map_stage stg (\<lambda>st. st\<lparr>st_usrfol := In_fifo f # st_usrfol st\<rparr>))
           (h\<lparr>h_fifo := (h_fifo h)(f := \<lparr>ff_queue = Some e, ff_stage = stg\<rparr>)\<rparr>)))))"

definition rm_frfifo :: "fifo_id \<Rightarrow> nat \<Rightarrow> ('cb, 'd, 'c, 'w) handle \<Rightarrow> ('cb, 'd, 'c, 'w) handle" where
  "rm_frfifo f e h =
     (if ff_queue (h_fifo h f) = Some e then h\<lparr>h_fifo := (h_fifo h)(f := (h_fifo h f)\<lparr>ff_queue := None\<rparr>)\<rparr> else h)"

definition set_cb_go :: "nat \<Rightarrow> 'cb \<Rightarrow> ('cb, 'd, 'c, 'w) handle \<Rightarrow> ('cb, 'd, 'c, 'w) handle" where
  "set_cb_go e cb = upd_event e (map_stage STAGE_GO (\<lambda>st. st\<lparr>st_cb := Some cb\<rparr>))"

definition set_cb_ret :: "nat \<Rightarrow> 'cb \<Rightarrow> ('cb, 'd, 'c, 'w) handle \<Rightarrow> ('cb, 'd, 'c, 'w) handle" where
  "set_cb_ret e cb = upd_event e (map_stage STAGE_RET (\<lambda>st. st\<lparr>st_cb := Some cb\<rparr>))"

definition set_cb_init :: "nat \<Rightarrow> 'cb \<Rightarrow> ('cb, 'd, 'c, 'w) handle \<Rightarrow> ('cb, 'd, 'c, 'w) handle" where
  "set_cb_init c cb h = h\<lparr>h_comp := (h_comp h)(c := map_option (\<lambda>x. x\<lparr>cm_init := Some cb\<rparr>) (h_comp h c))\<rparr>"

section \<open>The stages\<close>

text \<open>The functions call each other; \<open>chk\<close> stands for the calls of \<open>check_init\<close>, \<open>check_go\<close> and
  \<open>check_ret\<close>, by stage. A callback that is not set ends the program.\<close>

definition run_cb ::
  "('cb, 'd, 'c, 'w) client \<Rightarrow> stage_t \<Rightarrow> nat \<Rightarrow> ('cb, 'd, 'c, 'w) handle \<Rightarrow> ('cb, 'd, 'c, 'w) handle run" where
  "run_cb c s e h = bind_run (get_event e h) (\<lambda>ev. case st_cb (stage_of s ev) of
       None \<Rightarrow> Some (Stop (Exit 1))
     | Some cb \<Rightarrow> cl_call c cb e (add_log (L_call s (aux_serial ev)) h))"

type_synonym ('cb, 'd, 'c, 'w) checks =
  "stage_t \<Rightarrow> nat \<Rightarrow> ('cb, 'd, 'c, 'w) handle \<Rightarrow> ('cb, 'd, 'c, 'w) handle run"

definition free_barrier ::
  "('cb, 'd, 'c, 'w) checks \<Rightarrow> nat \<Rightarrow> stage_t \<Rightarrow> ('cb, 'd, 'c, 'w) handle \<Rightarrow> ('cb, 'd, 'c, 'w) handle run" where
  "free_barrier chk e stg h = bind_run (get_event e h) (\<lambda>_.
     if stg = STAGE_TRACE then ret h else chk stg e (upd_event e (map_stage stg (add_cnt (- 1))) h))"

definition unlock ::
  "('cb, 'd, 'c, 'w) checks \<Rightarrow> nat \<Rightarrow> evptr_t list \<Rightarrow> ('cb, 'd, 'c, 'w) handle \<Rightarrow> ('cb, 'd, 'c, 'w) handle run" where
  "unlock chk e = fold_run (\<lambda>p h. case p of Blocked x stg \<Rightarrow> free_barrier chk x stg h
     | In_fifo f \<Rightarrow> ret (rm_frfifo f e h))"

definition unlock_stage ::
  "('cb, 'd, 'c, 'w) checks \<Rightarrow> stage_t \<Rightarrow> nat \<Rightarrow> ('cb, 'd, 'c, 'w) handle \<Rightarrow> ('cb, 'd, 'c, 'w) handle run" where
  "unlock_stage chk s e h =
     bind_run (get_event e h) (\<lambda>ev.
     bind_run (unlock chk e (st_usrfol (stage_of s ev)) h) (\<lambda>h.
       ret (upd_event e (map_stage s (\<lambda>st. st\<lparr>st_usrfol := []\<rparr>)) h)))"

definition check_init ::
  "('cb, 'd, 'c, 'w) client \<Rightarrow> ('cb, 'd, 'c, 'w) checks \<Rightarrow> nat \<Rightarrow> ('cb, 'd, 'c, 'w) handle \<Rightarrow> ('cb, 'd, 'c, 'w) handle run" where
  "check_init c chk e h =
     bind_run (get_event e h) (\<lambda>ev.
     if \<not> e_commited ev \<or> e_missref ev \<noteq> 0 then ret h
     else if st_cnt (e_init ev) \<noteq> 0 then ret h
     else
       bind_run (run_cb c STAGE_INIT e h) (\<lambda>h.
       bind_run (unlock_stage chk STAGE_INIT e h) (\<lambda>h.
         chk STAGE_GO e (upd_event e (map_stage STAGE_INIT (\<lambda>st. st\<lparr>st_done := True\<rparr>)) h))))"

definition check_go ::
  "('cb, 'd, 'c, 'w) client \<Rightarrow> ('cb, 'd, 'c, 'w) checks \<Rightarrow> nat \<Rightarrow> ('cb, 'd, 'c, 'w) handle \<Rightarrow> ('cb, 'd, 'c, 'w) handle run" where
  "check_go c chk e h =
     bind_run (get_event e h) (\<lambda>ev.
     if \<not> st_done (e_init ev) then ret h
     else if st_cnt (e_go ev) \<noteq> 0 then ret h
     else
       bind_run (run_cb c STAGE_GO e h) (\<lambda>h.
       bind_run (unlock_stage chk STAGE_GO e h) (\<lambda>h.
       bind_run (get_event e h) (\<lambda>ev.
       bind_run (fold_run (\<lambda>x h. bind_run (get_event x h) (\<lambda>_.
           chk STAGE_GO x (upd_event x (map_stage STAGE_GO (add_cnt (- 1))) h))) (e_followers ev) h) (\<lambda>h.
         chk STAGE_RET e
           (upd_event e (\<lambda>ev. map_stage STAGE_GO (\<lambda>st. st\<lparr>st_done := True\<rparr>) (ev\<lparr>e_followers := []\<rparr>)) h))))))"

definition check_ret ::
  "('cb, 'd, 'c, 'w) client \<Rightarrow> ('cb, 'd, 'c, 'w) checks \<Rightarrow> nat \<Rightarrow> ('cb, 'd, 'c, 'w) handle \<Rightarrow> ('cb, 'd, 'c, 'w) handle run" where
  "check_ret c chk e h =
     bind_run (get_event e h) (\<lambda>ev.
     if \<not> st_done (e_go ev) \<or> e_missfol ev \<noteq> 0 then ret h
     else if st_cnt (e_ret ev) \<noteq> 0 then ret h
     else
       bind_run (run_cb c STAGE_RET e h) (\<lambda>h.
       bind_run (get_event e h) (\<lambda>ev.
       bind_run (fold_run (\<lambda>ct h. bind_run (cont_refs ct) (\<lambda>rs.
           bind_run (fold_run (\<lambda>r h. bind_run (get_event r h) (\<lambda>_.
             chk STAGE_RET r (upd_event r (map_stage STAGE_RET (add_cnt (- 1))) h))) rs h) (\<lambda>h.
             ret (event_recycle (ct_self ct) h)))) (e_hwe ev) h)
         (unlock_stage chk STAGE_RET e))))"

primrec check :: "('cb, 'd, 'c, 'w) client \<Rightarrow> nat \<Rightarrow> ('cb, 'd, 'c, 'w) checks" where
  "check c 0 = (\<lambda>s e h. None)"
| "check c (Suc n) = (\<lambda>s e h. case s of
     STAGE_INIT \<Rightarrow> check_init c (check c n) e h
   | STAGE_GO \<Rightarrow> check_go c (check c n) e h
   | STAGE_RET \<Rightarrow> check_ret c (check c n) e h
   | STAGE_TRACE \<Rightarrow> ret h)"

section \<open>Events\<close>

text \<open>An \<open>HWE_INFO\<close> event at the beginning of the trace registers a component.\<close>

definition handle_info ::
  "('cb, 'd, 'c, 'w) client \<Rightarrow> 'c \<Rightarrow> nat \<Rightarrow> hwe_cont \<Rightarrow> ('cb, 'd, 'c, 'w) handle \<Rightarrow> ('cb, 'd, 'c, 'w) handle run" where
  "handle_info c cd e hwe h =
     (let id = unat (id_devid (hc_id hwe));
          h = (if h_maxcomp h \<le> id then h\<lparr>h_maxcomp := 2 * h_maxcomp h\<rparr> else h)
      in if h_maxcomp h \<le> id then undef_run
         else case h_comp h id of
           Some _ \<Rightarrow> Some (Stop (Exit 1))
         | None \<Rightarrow> (case hc_body hwe of
             B_info i \<Rightarrow>
               let h = evfifo_init (Init_fifo id) (h\<lparr>h_comp := (h_comp h)(id \<mapsto>
                     \<lparr>cm_id = id, cm_type = if_device (fc_body i), cm_init = None, cm_data = cd\<rparr>)\<rparr>);
                   h = upd_event e (\<lambda>ev. ev\<lparr>e_comp := Some id\<rparr>) h
               in bind_run (cl_component c id e h) (\<lambda>h. ret (event_recycle e h))
           | _ \<Rightarrow> undef_run))"

text \<open>One step of the loop over the references of \<open>e\<close>.\<close>

definition link_ref :: "nat \<Rightarrow> nat \<Rightarrow> ('cb, 'd, 'c, 'w) handle \<Rightarrow> ('cb, 'd, 'c, 'w) handle run" where
  "link_ref e r h =
     bind_run (get_event r h) (\<lambda>rv.
     let h = (if \<not> e_commited rv then upd_event e (\<lambda>ev. ev\<lparr>e_missref := e_missref ev + 1\<rparr>) h else h);
         h = (if \<not> st_done (e_go rv)
              then upd_event e (map_stage STAGE_GO (add_cnt 1)) (upd_event r (\<lambda>ev. ev\<lparr>e_followers := e # e_followers ev\<rparr>) h)
              else h)
     in ret (upd_event r (\<lambda>ev. map_stage STAGE_RET (add_cnt 1) (ev\<lparr>e_missfol := e_missfol ev - 1\<rparr>)) h))"

definition check_fuel :: "('cb, 'd, 'c, 'w) handle \<Rightarrow> nat" where
  "check_fuel h = 3 * h_nb h + 1"

definition get_serial :: "('cb, 'd, 'c, 'w) handle \<Rightarrow> nat \<Rightarrow> nat" where
  "get_serial h e = (case h_events h e of None \<Rightarrow> 0 | Some ev \<Rightarrow> aux_serial ev)"

text \<open>The commit of an event: its data are set, it enters the fifo of its component and is linked with
  the events it refers to; then the events that have waited for it are checked, and the event itself.\<close>

definition register_event ::
  "'d \<Rightarrow> ('cb, 'c) comp_t \<Rightarrow> nat \<Rightarrow> nat \<Rightarrow> ('cb, 'd, 'c, 'w) handle \<Rightarrow> ('cb, 'd, 'c, 'w) handle" where
  "register_event z cm d e = upd_event e (\<lambda>ev. ev\<lparr>e_comp := Some d, e_nrefs := int (sum_list (map hwe_getnref (e_hwe ev))),
     e_data := z, e_init := (e_init ev)\<lparr>st_cb := cm_init cm\<rparr>\<rparr>)"

definition link_event ::
  "nat \<Rightarrow> nat \<Rightarrow> hwe_cont \<Rightarrow> container list \<Rightarrow> ('cb, 'd, 'c, 'w) handle \<Rightarrow> ('cb, 'd, 'c, 'w) handle run" where
  "link_event d e hwe cs h =
     bind_run (put_infifo (Init_fifo d) e STAGE_INIT h) (\<lambda>h.
     let h = upd_event e (\<lambda>ev. ev\<lparr>e_missfol := e_missfol ev + uint (hd_expected (hc_head hwe))\<rparr>) h in
     bind_run (fold_run (\<lambda>ct h. bind_run (cont_refs ct) (\<lambda>rs. fold_run (link_ref e) rs h)) cs h) (\<lambda>h.
       ret (add_log (L_commit (get_serial h e)
         (map (get_serial h) (map the (concat (map (\<lambda>ct. take (hwe_getnref ct) (ct_refs ct)) cs))))) h)))"

definition wake_event ::
  "('cb, 'd, 'c, 'w) client \<Rightarrow> nat \<Rightarrow> ('cb, 'd, 'c, 'w) handle \<Rightarrow> ('cb, 'd, 'c, 'w) handle run" where
  "wake_event c e h =
     bind_run (get_event e h) (\<lambda>ev.
     bind_run (fold_run (\<lambda>x h. bind_run (get_event x h) (\<lambda>_.
         check c (check_fuel h) STAGE_INIT x (upd_event x (\<lambda>v. v\<lparr>e_missref := e_missref v - 1\<rparr>) h)))
       (e_followers ev) h) (\<lambda>h.
       check c (check_fuel h) STAGE_INIT e (upd_event e (\<lambda>ev. ev\<lparr>e_commited := True\<rparr>) h)))"

definition handle_commit ::
  "('cb, 'd, 'c, 'w) client \<Rightarrow> nat \<Rightarrow> hwe_cont \<Rightarrow> ('cb, 'd, 'c, 'w) handle \<Rightarrow> ('cb, 'd, 'c, 'w) handle run" where
  "handle_commit c e hwe h =
     (let d = unat (id_devid (hc_id hwe)) in
      if h_maxcomp h \<le> d then undef_run
      else case h_comp h d of None \<Rightarrow> undef_run
      | Some cm \<Rightarrow>
          bind_run (get_event e h) (\<lambda>ev.
          bind_run (link_event d e hwe (e_hwe ev) (register_event (cl_zero c) cm d e h)) (wake_event c e)))"

definition handle_event ::
  "('cb, 'd, 'c, 'w) client \<Rightarrow> 'c \<Rightarrow> nat \<Rightarrow> ('cb, 'd, 'c, 'w) handle \<Rightarrow> ('cb, 'd, 'c, 'w) handle run" where
  "handle_event c cd e h =
     bind_run (get_event e h) (\<lambda>ev. case e_hwe ev of [] \<Rightarrow> undef_run
     | ct # _ \<Rightarrow>
         if \<not> h_start_done h \<and> hd_type (hc_head (ct_hwe ct)) = HWE_INFO then handle_info c cd e (ct_hwe ct) h
         else handle_commit c e (ct_hwe ct) (h\<lparr>h_start_done := True\<rparr>))"

end
