(* ===== verification/Hwe_Schedule.thy ===== *)
theory Hwe_Schedule
  imports Hwe_Handle "HOL-Library.Multiset"
begin

text \<open>
  The order of the callbacks.
\<close>

section \<open>The counters and lists of all events\<close>

text \<open>For \<open>STAGE_TRACE\<close> the counter is \<open>missref\<close> and the flag is \<open>commited\<close>.\<close>

record sched =
  sc_cnt :: "stage_t \<Rightarrow> nat \<Rightarrow> int"
  sc_done :: "stage_t \<Rightarrow> nat \<Rightarrow> bool"
  sc_usr :: "stage_t \<Rightarrow> nat \<Rightarrow> evptr_t list"
  sc_fol :: "nat \<Rightarrow> nat list"
  sc_mfol :: "nat \<Rightarrow> int"
  sc_refs :: "nat \<Rightarrow> nat list"
  sc_ser :: "nat \<Rightarrow> nat"
  sc_fifo :: "fifo_id \<Rightarrow> evfifo_t"
  sc_nb :: nat
  sc_free :: "nat list"
  sc_next :: nat
  sc_log :: "entry list"

definition upd2 :: "('a \<Rightarrow> 'b \<Rightarrow> 'c) \<Rightarrow> 'a \<Rightarrow> 'b \<Rightarrow> 'c \<Rightarrow> 'a \<Rightarrow> 'b \<Rightarrow> 'c" where
  "upd2 f a b y = f(a := (f a)(b := y))"

lemma upd2_apply [simp]: "upd2 f a b y a' b' = (if a' = a \<and> b' = b then y else f a' b')"
  by (simp add: upd2_def)

definition called :: "sched \<Rightarrow> stage_t \<Rightarrow> nat \<Rightarrow> bool" where
  "called v s e \<longleftrightarrow> L_call s (sc_ser v e) \<in> set (sc_log v)"

definition linked :: "sched \<Rightarrow> nat \<Rightarrow> bool" where
  "linked v e \<longleftrightarrow> (\<exists>rs. L_commit (sc_ser v e) rs \<in> set (sc_log v))"

section \<open>Tokens\<close>

text \<open>A token is an element of a list that stands for one unit of a counter. The lists are the
  slots; a loop that has worked off a part of a list before it clears the list is described by a context, which gives
  the rest of the list.\<close>

datatype slot = S_usr stage_t nat | S_fol nat | S_com nat | S_ret nat

type_synonym ctx = "slot \<Rightarrow> evptr_t list option"

definition raw :: "sched \<Rightarrow> slot \<Rightarrow> evptr_t list" where
  "raw v q = (case q of S_usr s e \<Rightarrow> sc_usr v s e
     | S_fol e \<Rightarrow> map (\<lambda>x. Blocked x STAGE_GO) (sc_fol v e)
     | S_com e \<Rightarrow> if sc_done v STAGE_TRACE e then [] else map (\<lambda>x. Blocked x STAGE_TRACE) (sc_fol v e)
     | S_ret e \<Rightarrow> if linked v e \<and> \<not> called v STAGE_RET e then map (\<lambda>r. Blocked r STAGE_RET) (sc_refs v e) else [])"

definition eff :: "ctx \<Rightarrow> sched \<Rightarrow> slot \<Rightarrow> evptr_t list" where
  "eff c v q = (case c q of None \<Rightarrow> raw v q | Some l \<Rightarrow> l)"

fun slot_event :: "slot \<Rightarrow> nat" where
  "slot_event (S_usr s e) = e"
| "slot_event (S_fol e) = e"
| "slot_event (S_com e) = e"
| "slot_event (S_ret e) = e"

definition slots :: "nat \<Rightarrow> slot set" where
  "slots n = {q. slot_event q < n}"

lemma UNIV_stage: "(UNIV :: stage_t set) = {STAGE_TRACE, STAGE_INIT, STAGE_GO, STAGE_RET}"
  using stage_t.exhaust by blast

lemma slots_subset: "slots n \<subseteq> (\<lambda>(s, e). S_usr s e) ` (UNIV \<times> {..<n}) \<union> S_fol ` {..<n} \<union> S_com ` {..<n} \<union> S_ret ` {..<n}"
proof
  fix q assume "q \<in> slots n"
  then show "q \<in> (\<lambda>(s, e). S_usr s e) ` (UNIV \<times> {..<n}) \<union> S_fol ` {..<n} \<union> S_com ` {..<n} \<union> S_ret ` {..<n}"
    by (cases q) (auto simp: slots_def)
qed

lemma finite_slots [simp]: "finite (slots n)"
  by (rule finite_subset [OF slots_subset]) (simp add: UNIV_stage)

definition tokens :: "ctx \<Rightarrow> sched \<Rightarrow> evptr_t \<Rightarrow> nat" where
  "tokens c v t = (\<Sum>q\<in>slots (sc_nb v). count_list (eff c v q) t)"

lemma tokens_pos: "t \<in> set (eff c v q) \<Longrightarrow> slot_event q < sc_nb v \<Longrightarrow> 0 < tokens c v t"
  unfolding tokens_def by (rule sum_pos2 [of _ q]) (auto simp: slots_def count_list_0_iff intro!: gr0I simp del: finite_slots intro: finite_slots [unfolded slots_def])

lemma tokens_cong: "(\<And>q. slot_event q < sc_nb v \<Longrightarrow> eff c' v' q = eff c v q) \<Longrightarrow> sc_nb v' = sc_nb v \<Longrightarrow> tokens c' v' = tokens c v"
  unfolding tokens_def fun_eq_iff by (auto simp: slots_def intro: sum.cong)

lemma tokens_upd:
  assumes "\<And>q'. q' \<noteq> q \<Longrightarrow> slot_event q' < sc_nb v \<Longrightarrow> eff c' v' q' = eff c v q'" "slot_event q < sc_nb v" "sc_nb v' = sc_nb v"
  shows "tokens c' v' t + count_list (eff c v q) t = tokens c v t + count_list (eff c' v' q) t"
proof -
  have q: "q \<in> slots (sc_nb v)" using assms(2) by (simp add: slots_def)
  have "(\<Sum>q'\<in>slots (sc_nb v) - {q}. count_list (eff c' v' q') t) = (\<Sum>q'\<in>slots (sc_nb v) - {q}. count_list (eff c v q') t)"
    using assms(1) by (intro sum.cong) (auto simp: slots_def)
  then show ?thesis
    using sum.remove [OF finite_slots q, of "\<lambda>q. count_list (eff c v q) t"]
      sum.remove [OF finite_slots q, of "\<lambda>q. count_list (eff c' v' q) t"] assms(3)
    by (simp add: tokens_def)
qed

section \<open>Histories\<close>

fun puts :: "fifo_id \<Rightarrow> entry list \<Rightarrow> (stage_t \<times> nat) list" where
  "puts f [] = []"
| "puts f (L_put g s x # l) = (if g = f then (s, x) # puts f l else puts f l)"
| "puts f (L_commit x rs # l) = puts f l"
| "puts f (L_call s x # l) = puts f l"

lemma in_puts: "(s, x) \<in> set (puts f l) \<longleftrightarrow> L_put f s x \<in> set l"
  by (induction f l rule: puts.induct) auto

definition fifo_ok :: "entry list \<Rightarrow> stage_t \<Rightarrow> nat \<Rightarrow> bool" where
  "fifo_ok l s x \<longleftrightarrow> (\<forall>f P Q s' y. puts f l = P @ (s, x) # Q \<longrightarrow> (s', y) \<in> set Q \<longrightarrow> L_call s' y \<in> set l)"

definition stage_ok :: "entry list \<Rightarrow> stage_t \<Rightarrow> nat \<Rightarrow> bool" where
  "stage_ok l s x = (case s of STAGE_TRACE \<Rightarrow> False
     | STAGE_INIT \<Rightarrow> \<exists>rs. L_commit x rs \<in> set l \<and> (\<forall>r \<in> set rs. \<exists>rs'. L_commit r rs' \<in> set l)
     | STAGE_GO \<Rightarrow> L_call STAGE_INIT x \<in> set l \<and> (\<forall>rs. L_commit x rs \<in> set l \<longrightarrow> (\<forall>r \<in> set rs. L_call STAGE_GO r \<in> set l))
     | STAGE_RET \<Rightarrow> L_call STAGE_GO x \<in> set l \<and> (\<forall>y rs. L_commit y rs \<in> set l \<and> x \<in> set rs \<longrightarrow> L_call STAGE_RET y \<in> set l))"

fun step_ok :: "entry list \<Rightarrow> entry \<Rightarrow> bool" where
  "step_ok l (L_commit x rs) \<longleftrightarrow> (\<forall>rs'. L_commit x rs' \<notin> set l) \<and> (\<forall>r \<in> set rs. L_call STAGE_RET r \<notin> set l)"
| "step_ok l (L_put f s x) \<longleftrightarrow> L_call s x \<notin> set l \<and> x \<notin> snd ` set (puts f l)"
| "step_ok l (L_call s x) \<longleftrightarrow> L_call s x \<notin> set l \<and> fifo_ok l s x \<and> stage_ok l s x"

fun ordered :: "entry list \<Rightarrow> bool" where
  "ordered [] \<longleftrightarrow> True"
| "ordered (x # l) \<longleftrightarrow> ordered l \<and> step_ok l x"

lemma ordered_append: "ordered (l1 @ x # l2) \<Longrightarrow> step_ok l2 x"
  by (induction l1) auto

lemma ordered_distinct_puts: "ordered l \<Longrightarrow> distinct (map snd (puts f l))"
  by (induction f l rule: puts.induct) auto

section \<open>The invariant\<close>

definition counts :: "ctx \<Rightarrow> sched \<Rightarrow> bool" where
  "counts c v \<longleftrightarrow> (\<forall>x k. x < sc_nb v \<longrightarrow> int (tokens c v (Blocked x k)) \<le> sc_cnt v k x)
     \<and> (\<forall>q x k. slot_event q < sc_nb v \<longrightarrow> Blocked x k \<in> set (eff c v q) \<longrightarrow> x < sc_nb v)"

definition stages :: "sched \<Rightarrow> bool" where
  "stages v \<longleftrightarrow> (\<forall>x < sc_nb v.
       (sc_done v STAGE_TRACE x \<longrightarrow> linked v x)
     \<and> (called v STAGE_INIT x \<longrightarrow> sc_done v STAGE_TRACE x \<and> sc_cnt v STAGE_TRACE x = 0 \<and> sc_cnt v STAGE_INIT x = 0)
     \<and> (sc_done v STAGE_INIT x \<longrightarrow> called v STAGE_INIT x)
     \<and> (called v STAGE_GO x \<longrightarrow> sc_done v STAGE_INIT x \<and> sc_cnt v STAGE_GO x = 0)
     \<and> (sc_done v STAGE_GO x \<longrightarrow> called v STAGE_GO x)
     \<and> (called v STAGE_RET x \<longrightarrow> sc_done v STAGE_GO x \<and> sc_mfol v x = 0 \<and> sc_cnt v STAGE_RET x = 0))"

fun opened :: "sched \<Rightarrow> slot \<Rightarrow> bool" where
  "opened v (S_usr s e) \<longleftrightarrow> called v s e"
| "opened v (S_fol e) \<longleftrightarrow> called v STAGE_GO e"
| "opened v (S_com e) \<longleftrightarrow> linked v e \<and> \<not> sc_done v STAGE_TRACE e"
| "opened v (S_ret e) \<longleftrightarrow> called v STAGE_RET e \<or> \<not> linked v e"

definition ctx_ok :: "ctx \<Rightarrow> sched \<Rightarrow> bool" where
  "ctx_ok c v \<longleftrightarrow> (\<forall>q. c q \<noteq> None \<longrightarrow> opened v q)"

definition links :: "ctx \<Rightarrow> sched \<Rightarrow> bool" where
  "links c v \<longleftrightarrow> (\<forall>x < sc_nb v. \<not> called v STAGE_RET x \<longrightarrow> (\<forall>rs. L_commit (sc_ser v x) rs \<in> set (sc_log v) \<longrightarrow>
       rs = map (sc_ser v) (sc_refs v x)
     \<and> (\<forall>r \<in> set (sc_refs v x). r < sc_nb v
          \<and> (called v STAGE_GO x \<or> called v STAGE_GO r \<or> Blocked x STAGE_GO \<in> set (eff c v (S_fol r)))
          \<and> (called v STAGE_INIT x \<or> linked v r \<or> Blocked x STAGE_TRACE \<in> set (eff c v (S_com r))))))"

text \<open>A free event has been called at its last stage, or it has never been used.\<close>

definition blank :: "sched \<Rightarrow> nat \<Rightarrow> bool" where
  "blank v x \<longleftrightarrow> \<not> linked v x \<and> (\<forall>k. sc_cnt v k x = 0) \<and> (\<forall>f s. L_put f s (sc_ser v x) \<notin> set (sc_log v))"

definition serials :: "sched \<Rightarrow> bool" where
  "serials v \<longleftrightarrow> inj_on (sc_ser v) {..<sc_nb v} \<and> (\<forall>x < sc_nb v. sc_ser v x < sc_next v)
     \<and> (\<forall>x rs. L_commit x rs \<in> set (sc_log v) \<longrightarrow> x < sc_next v \<and> (L_call STAGE_RET x \<in> set (sc_log v) \<or> x \<in> sc_ser v ` {..<sc_nb v}))
     \<and> (\<forall>f s x. L_put f s x \<in> set (sc_log v) \<longrightarrow> s \<noteq> STAGE_TRACE \<and> x < sc_next v \<and> (L_call s x \<in> set (sc_log v) \<or> x \<in> sc_ser v ` {..<sc_nb v}))
     \<and> (\<forall>s x. L_call s x \<in> set (sc_log v) \<longrightarrow> x < sc_next v)
     \<and> distinct (sc_free v) \<and> (\<forall>x \<in> set (sc_free v). x < sc_nb v \<and> (called v STAGE_RET x \<or> blank v x))"

definition f_queue :: "sched \<Rightarrow> bool" where
  "f_queue v \<longleftrightarrow> (\<forall>f q. ff_queue (sc_fifo v f) = Some q \<longrightarrow> q < sc_nb v \<and> ff_stage (sc_fifo v f) \<noteq> STAGE_TRACE)"

definition f_last :: "sched \<Rightarrow> bool" where
  "f_last v \<longleftrightarrow> (\<forall>f s x Q. puts f (sc_log v) = (s, x) # Q \<longrightarrow> L_call s x \<in> set (sc_log v)
     \<or> (\<exists>a < sc_nb v. sc_ser v a = x \<and> sc_fifo v f = \<lparr>ff_queue = Some a, ff_stage = s\<rparr>))"

definition f_chain :: "ctx \<Rightarrow> sched \<Rightarrow> bool" where
  "f_chain c v \<longleftrightarrow> (\<forall>f P s2 y s1 x Q. puts f (sc_log v) = P @ (s2, y) # (s1, x) # Q \<longrightarrow> L_call s1 x \<in> set (sc_log v)
     \<or> (\<exists>a b. a < sc_nb v \<and> b < sc_nb v \<and> sc_ser v a = x \<and> sc_ser v b = y \<and> Blocked b s2 \<in> set (eff c v (S_usr s1 a))))"

definition f_closed :: "entry list \<Rightarrow> bool" where
  "f_closed l \<longleftrightarrow> (\<forall>f P s y Q s' x. puts f l = P @ (s, y) # Q \<longrightarrow> L_call s y \<in> set l \<longrightarrow> (s', x) \<in> set Q \<longrightarrow> L_call s' x \<in> set l)"

definition f_member :: "ctx \<Rightarrow> sched \<Rightarrow> bool" where
  "f_member c v \<longleftrightarrow> (\<forall>f s a. a < sc_nb v \<longrightarrow> In_fifo f \<in> set (eff c v (S_usr s a)) \<longrightarrow> L_put f s (sc_ser v a) \<in> set (sc_log v))"

definition fifos :: "ctx \<Rightarrow> sched \<Rightarrow> bool" where
  "fifos c v \<longleftrightarrow> f_queue v \<and> f_last v \<and> f_chain c v \<and> f_closed (sc_log v) \<and> f_member c v"

lemmas fifos_defs = fifos_def f_queue_def f_last_def f_chain_def f_closed_def f_member_def

definition sinv :: "ctx \<Rightarrow> sched \<Rightarrow> bool" where
  "sinv c v \<longleftrightarrow> counts c v \<and> stages v \<and> ctx_ok c v \<and> links c v \<and> serials v \<and> fifos c v \<and> ordered (sc_log v)"

lemma inv_cnt: "sinv c v \<Longrightarrow> x < sc_nb v \<Longrightarrow> 0 \<le> sc_cnt v k x"
  unfolding sinv_def counts_def by (meson of_nat_0_le_iff order_trans)

lemma inv_token:
  assumes "sinv c v" "Blocked x k \<in> set (eff c v q)" "slot_event q < sc_nb v"
  shows "x < sc_nb v \<and> 0 < sc_cnt v k x"
proof -
  have x: "x < sc_nb v" using assms unfolding sinv_def counts_def by blast
  then have "int (tokens c v (Blocked x k)) \<le> sc_cnt v k x" using assms(1) by (auto simp: sinv_def counts_def)
  then show ?thesis using x tokens_pos [OF assms(2,3)] by linarith
qed

definition target :: "stage_t \<Rightarrow> stage_t" where
  "target k = (if k = STAGE_TRACE then STAGE_INIT else k)"

lemma cnt_uncalled: "sinv c v \<Longrightarrow> x < sc_nb v \<Longrightarrow> 0 < sc_cnt v k x \<Longrightarrow> \<not> called v (target k) x"
  by (cases k) (auto simp: sinv_def stages_def target_def)

lemma all_called:
  assumes "sinv c v" "x < sc_nb v" "called v STAGE_RET x"
  shows "called v STAGE_GO x" "called v STAGE_INIT x" "linked v x" "sc_cnt v k x = 0"
proof -
  show "called v STAGE_GO x" "called v STAGE_INIT x" "linked v x" using assms by (auto simp: sinv_def stages_def)
  then show "sc_cnt v k x = 0" using assms by (cases k) (auto simp: sinv_def stages_def)
qed

section \<open>One token or fifo entry is worked off\<close>

lemma eff_some [simp]: "eff (c(q \<mapsto> l)) v q = l"
  by (simp add: eff_def)

lemma eff_other [simp]: "q' \<noteq> q \<Longrightarrow> eff (c(q := y)) v q' = eff c v q'"
  by (simp add: eff_def)

lemma raw_upd_cnt [simp]: "raw (v\<lparr>sc_cnt := y\<rparr>) = raw v"
  by (rule ext) (simp add: raw_def called_def linked_def split: slot.split)

lemma eff_upd_cnt [simp]: "eff c (v\<lparr>sc_cnt := y\<rparr>) = eff c v"
  by (rule ext) (simp add: eff_def split: option.split)

lemma tokens_upd_cnt [simp]: "tokens c (v\<lparr>sc_cnt := y\<rparr>) = tokens c v"
  by (rule ext) (simp add: tokens_def)

lemma called_upd_cnt [simp]: "called (v\<lparr>sc_cnt := y\<rparr>) = called v" "linked (v\<lparr>sc_cnt := y\<rparr>) = linked v"
  by (auto simp: called_def linked_def fun_eq_iff)

lemma opened_upd_cnt [simp]: "opened (v\<lparr>sc_cnt := y\<rparr>) q = opened v q"
  by (cases q) auto

lemma inv_opened: "sinv (c(q \<mapsto> l)) v \<Longrightarrow> opened v q"
  unfolding sinv_def ctx_ok_def by (metis fun_upd_same option.distinct(1))

text \<open>Shortening the list of an opened slot keeps what the rest of the invariant needs of it.\<close>

lemma shorter:
  assumes "ctx_ok (c(q \<mapsto> l)) v" "set l' \<subseteq> set l" "links (c(q \<mapsto> l)) v"
  shows "links (c(q \<mapsto> l')) v"
proof -
  have o: "opened v q" using assms(1) by (auto simp: ctx_ok_def)
  have "Blocked x STAGE_GO \<in> set (eff (c(q \<mapsto> l)) v (S_fol r)) \<Longrightarrow>
      called v STAGE_GO r \<or> Blocked x STAGE_GO \<in> set (eff (c(q \<mapsto> l')) v (S_fol r))" for x r
    using o by (cases "q = S_fol r") (auto simp: eff_def)
  moreover have "Blocked x STAGE_TRACE \<in> set (eff (c(q \<mapsto> l)) v (S_com r)) \<Longrightarrow>
      linked v r \<or> Blocked x STAGE_TRACE \<in> set (eff (c(q \<mapsto> l')) v (S_com r))" for x r
    using o by (cases "q = S_com r") (auto simp: eff_def)
  ultimately show ?thesis using assms(3) unfolding links_def by blast
qed

lemma shorter_fifos:
  assumes "ctx_ok (c(q \<mapsto> l)) v" "set l' \<subseteq> set l" "fifos (c(q \<mapsto> l)) v"
  shows "fifos (c(q \<mapsto> l')) v"
proof -
  have o: "opened v q" using assms(1) by (auto simp: ctx_ok_def)
  have a: "Blocked b s2 \<in> set (eff (c(q \<mapsto> l)) v (S_usr s1 a)) \<Longrightarrow>
      called v s1 a \<or> Blocked b s2 \<in> set (eff (c(q \<mapsto> l')) v (S_usr s1 a))" for b s1 s2 a
    using o by (cases "q = S_usr s1 a") (auto simp: eff_def)
  have b: "In_fifo f \<in> set (eff (c(q \<mapsto> l')) v (S_usr s a)) \<Longrightarrow> In_fifo f \<in> set (eff (c(q \<mapsto> l)) v (S_usr s a))" for f s a
    using assms(2) by (cases "q = S_usr s a") (auto simp: eff_def)
  have "f_chain (c(q \<mapsto> l')) v" using assms(3) a unfolding fifos_def f_chain_def called_def by blast
  moreover have "f_member (c(q \<mapsto> l')) v" using assms(3) b unfolding fifos_def f_member_def by blast
  ultimately show ?thesis using assms(3) by (simp add: fifos_def)
qed

lemma counts_D: "counts c v \<Longrightarrow> x < sc_nb v \<Longrightarrow> int (tokens c v (Blocked x k)) \<le> sc_cnt v k x"
  by (simp add: counts_def)

lemma release_inv:
  assumes i: "sinv (c(q \<mapsto> Blocked x k # l)) v" and q: "slot_event q < sc_nb v"
  shows "x < sc_nb v" "\<not> called v (target k) x"
    "sinv (c(q \<mapsto> l)) (v\<lparr>sc_cnt := upd2 (sc_cnt v) k x (sc_cnt v k x - 1)\<rparr>)"
proof -
  have tok: "x < sc_nb v \<and> 0 < sc_cnt v k x" using inv_token [OF i, of x k q] q by simp
  then show x: "x < sc_nb v" and nc: "\<not> called v (target k) x" using cnt_uncalled [OF i] by auto
  have t: "tokens (c(q \<mapsto> l)) v t + (if t = Blocked x k then 1 else 0) = tokens (c(q \<mapsto> Blocked x k # l)) v t" for t
    using tokens_upd [of q v "c(q \<mapsto> l)" v "c(q \<mapsto> Blocked x k # l)" t] q by auto
  have ic: "counts (c(q \<mapsto> Blocked x k # l)) v" using i by (simp add: sinv_def)
  have "counts (c(q \<mapsto> l)) (v\<lparr>sc_cnt := upd2 (sc_cnt v) k x (sc_cnt v k x - 1)\<rparr>)"
    unfolding counts_def
  proof (intro conjI allI impI)
    fix y j assume "y < sc_nb (v\<lparr>sc_cnt := upd2 (sc_cnt v) k x (sc_cnt v k x - 1)\<rparr>)"
    then have "int (tokens (c(q \<mapsto> Blocked x k # l)) v (Blocked y j)) \<le> sc_cnt v j y" using counts_D [OF ic] by simp
    then show "int (tokens (c(q \<mapsto> l)) (v\<lparr>sc_cnt := upd2 (sc_cnt v) k x (sc_cnt v k x - 1)\<rparr>) (Blocked y j))
        \<le> sc_cnt (v\<lparr>sc_cnt := upd2 (sc_cnt v) k x (sc_cnt v k x - 1)\<rparr>) j y"
      using t [of "Blocked y j"] by (auto split: if_splits)
  next
    fix q' y j
    assume "slot_event q' < sc_nb (v\<lparr>sc_cnt := upd2 (sc_cnt v) k x (sc_cnt v k x - 1)\<rparr>)"
      "Blocked y j \<in> set (eff (c(q \<mapsto> l)) (v\<lparr>sc_cnt := upd2 (sc_cnt v) k x (sc_cnt v k x - 1)\<rparr>) q')"
    then have "slot_event q' < sc_nb v" "Blocked y j \<in> set (eff (c(q \<mapsto> Blocked x k # l)) v q')"
      by (cases "q' = q"; simp)+
    then show "y < sc_nb (v\<lparr>sc_cnt := upd2 (sc_cnt v) k x (sc_cnt v k x - 1)\<rparr>)" using ic unfolding counts_def by simp blast
  qed
  moreover have "stages (v\<lparr>sc_cnt := upd2 (sc_cnt v) k x (sc_cnt v k x - 1)\<rparr>)"
    using i nc unfolding sinv_def stages_def target_def by (cases k) auto
  moreover have "links (c(q \<mapsto> l)) v" "fifos (c(q \<mapsto> l)) v"
    using shorter [of c q "Blocked x k # l" v l] shorter_fifos [of c q "Blocked x k # l" v l] i by (auto simp: sinv_def)
  moreover have "serials (v\<lparr>sc_cnt := upd2 (sc_cnt v) k x (sc_cnt v k x - 1)\<rparr>)"
    using i tok by (auto simp: sinv_def serials_def blank_def)
  ultimately show "sinv (c(q \<mapsto> l)) (v\<lparr>sc_cnt := upd2 (sc_cnt v) k x (sc_cnt v k x - 1)\<rparr>)"
    using i by (simp add: sinv_def ctx_ok_def links_def fifos_defs)
qed

lemma rm_upd [simp]: "raw (v\<lparr>sc_fifo := y\<rparr>) = raw v" "called (v\<lparr>sc_fifo := y\<rparr>) = called v" "linked (v\<lparr>sc_fifo := y\<rparr>) = linked v"
  "eff c (v\<lparr>sc_fifo := y\<rparr>) = eff c v" "tokens c (v\<lparr>sc_fifo := y\<rparr>) = tokens c v" "opened (v\<lparr>sc_fifo := y\<rparr>) = opened v"
proof -
  show c: "called (v\<lparr>sc_fifo := y\<rparr>) = called v" "linked (v\<lparr>sc_fifo := y\<rparr>) = linked v"
    by (auto simp: called_def linked_def fun_eq_iff)
  show r: "raw (v\<lparr>sc_fifo := y\<rparr>) = raw v" by (rule ext) (simp add: raw_def c split: slot.split)
  show e: "eff c (v\<lparr>sc_fifo := y\<rparr>) = eff c v" by (rule ext) (simp add: eff_def r split: option.split)
  show "tokens c (v\<lparr>sc_fifo := y\<rparr>) = tokens c v" by (rule ext) (simp add: tokens_def e)
  show "opened (v\<lparr>sc_fifo := y\<rparr>) = opened v"
  proof
    show "opened (v\<lparr>sc_fifo := y\<rparr>) q = opened v q" for q by (cases q) (simp_all add: c)
  qed
qed

definition rm_queue :: "fifo_id \<Rightarrow> nat \<Rightarrow> sched \<Rightarrow> sched" where
  "rm_queue f e v = (if ff_queue (sc_fifo v f) = Some e then v\<lparr>sc_fifo := (sc_fifo v)(f := (sc_fifo v f)\<lparr>ff_queue := None\<rparr>)\<rparr> else v)"

lemma distinct_puts: "ordered l \<Longrightarrow> (s, x) \<in> set (puts f l) \<Longrightarrow> (s', x) \<in> set (puts f l) \<Longrightarrow> s' = s"
  using ordered_distinct_puts [of l f] by (force simp: distinct_map inj_on_def)

lemma rm_inv:
  assumes i: "sinv (c(S_usr s e \<mapsto> In_fifo f # l)) v" and e: "e < sc_nb v"
  shows "sinv (c(S_usr s e \<mapsto> l)) (rm_queue f e v)"
proof -
  let ?c = "c(S_usr s e \<mapsto> In_fifo f # l)"
  have t: "tokens (c(S_usr s e \<mapsto> l)) v (Blocked x k) = tokens ?c v (Blocked x k)" for x k
    using tokens_upd [of "S_usr s e" v "c(S_usr s e \<mapsto> l)" v ?c "Blocked x k"] e by auto
  have sub: "set (eff (c(S_usr s e \<mapsto> l)) v q) \<subseteq> set (eff ?c v q)" for q
    by (cases "q = S_usr s e") (auto simp: eff_def)
  have cs: "called v s e" using inv_opened [OF i] by simp
  have pe: "(s, sc_ser v e) \<in> set (puts f (sc_log v))"
    using i e unfolding sinv_def fifos_def f_member_def by (force simp: in_puts)
  have last: "f_last (rm_queue f e v)" unfolding f_last_def
  proof (intro allI impI)
    fix g s' x Q assume p: "puts g (sc_log (rm_queue f e v)) = (s', x) # Q"
    then have p': "puts g (sc_log v) = (s', x) # Q" by (simp add: rm_queue_def split: if_splits)
    then consider "L_call s' x \<in> set (sc_log v)"
      | a where "a < sc_nb v" "sc_ser v a = x" "sc_fifo v g = \<lparr>ff_queue = Some a, ff_stage = s'\<rparr>"
      using i unfolding sinv_def fifos_def f_last_def by blast
    then show "L_call s' x \<in> set (sc_log (rm_queue f e v)) \<or> (\<exists>a < sc_nb (rm_queue f e v). sc_ser (rm_queue f e v) a = x
        \<and> sc_fifo (rm_queue f e v) g = \<lparr>ff_queue = Some a, ff_stage = s'\<rparr>)"
    proof cases
      case 2
      show ?thesis
      proof (cases "g = f \<and> a = e")
        case True
        then have "s' = s" using distinct_puts [OF _ pe, of s'] i p' 2 by (auto simp: sinv_def)
        then show ?thesis using cs True 2 by (simp add: called_def rm_queue_def)
      qed (use 2 in \<open>auto simp: rm_queue_def\<close>)
    qed (simp add: rm_queue_def)
  qed
  have "links (c(S_usr s e \<mapsto> l)) v" "fifos (c(S_usr s e \<mapsto> l)) v"
    using shorter [of c _ "In_fifo f # l" v l] shorter_fifos [of c _ "In_fifo f # l" v l] i by (auto simp: sinv_def)
  then have "links (c(S_usr s e \<mapsto> l)) (rm_queue f e v)" "fifos (c(S_usr s e \<mapsto> l)) (rm_queue f e v)"
    using last by (auto simp: links_def fifos_def f_queue_def f_chain_def f_member_def rm_queue_def)
  moreover have "counts (c(S_usr s e \<mapsto> l)) (rm_queue f e v)"
    using i sub by (fastforce simp: sinv_def counts_def t rm_queue_def)
  ultimately show ?thesis using i cs
    by (auto simp: sinv_def stages_def ctx_ok_def serials_def blank_def rm_queue_def)
qed

section \<open>A callback is called\<close>

definition ready :: "sched \<Rightarrow> stage_t \<Rightarrow> nat \<Rightarrow> bool" where
  "ready v s e = (case s of STAGE_TRACE \<Rightarrow> False
     | STAGE_INIT \<Rightarrow> sc_done v STAGE_TRACE e \<and> sc_cnt v STAGE_TRACE e = 0 \<and> sc_cnt v STAGE_INIT e = 0
     | STAGE_GO \<Rightarrow> sc_done v STAGE_INIT e \<and> sc_cnt v STAGE_GO e = 0
     | STAGE_RET \<Rightarrow> sc_done v STAGE_GO e \<and> sc_mfol v e = 0 \<and> sc_cnt v STAGE_RET e = 0)"

definition open_for :: "stage_t \<Rightarrow> nat \<Rightarrow> sched \<Rightarrow> ctx \<Rightarrow> ctx" where
  "open_for s e v c = (if s = STAGE_RET then c(S_ret e \<mapsto> raw v (S_ret e)) else c)"

abbreviation log_call :: "stage_t \<Rightarrow> nat \<Rightarrow> sched \<Rightarrow> sched" where
  "log_call s e v \<equiv> v\<lparr>sc_log := L_call s (sc_ser v e) # sc_log v\<rparr>"

lemma called_log_call:
  assumes "sinv c v" "e < sc_nb v" "x < sc_nb v"
  shows "called (log_call s e v) s' x \<longleftrightarrow> s' = s \<and> x = e \<or> called v s' x"
  using assms by (auto simp: called_def sinv_def serials_def inj_on_def)

lemma linked_log_call [simp]: "linked (log_call s e v) = linked v"
  by (simp add: linked_def fun_eq_iff)

lemma ctx_none: "sinv c v \<Longrightarrow> \<not> opened v q \<Longrightarrow> c q = None"
  by (auto simp: sinv_def ctx_ok_def)

lemma eff_open:
  assumes i: "sinv c v" and e: "e < sc_nb v" and n: "\<not> called v s e" "s = STAGE_RET \<Longrightarrow> linked v e" and q: "slot_event q < sc_nb v"
  shows "eff (open_for s e v c) (log_call s e v) q = eff c v q"
proof (cases "s = STAGE_RET \<and> q = S_ret e")
  case True
  then have "\<not> opened v q" using n by auto
  then show ?thesis using True ctx_none [OF i] by (auto simp: eff_def open_for_def)
next
  case False
  then have "raw (log_call s e v) q = raw v q"
    using called_log_call [OF i e, of "slot_event q" s STAGE_RET] q by (cases q) (auto simp: raw_def)
  then show ?thesis using False by (auto simp: eff_def open_for_def split: option.split)
qed

lemma ready_linked: "sinv c v \<Longrightarrow> e < sc_nb v \<Longrightarrow> ready v s e \<Longrightarrow> linked v e"
  by (cases s) (auto simp: sinv_def stages_def ready_def)

lemma ready_no_token:
  assumes "sinv c v" "ready v s e" "slot_event q < sc_nb v"
  shows "Blocked e s \<notin> set (eff c v q)"
  using inv_token [OF assms(1) _ assms(3), of e s] assms(2) by (cases s) (auto simp: ready_def)

lemma call_fifo_ok:
  assumes i: "sinv c v" and e: "e < sc_nb v" and r: "ready v s e"
  shows "fifo_ok (sc_log v) s (sc_ser v e)"
  unfolding fifo_ok_def
proof (intro allI impI)
  fix f P Q s' y assume p: "puts f (sc_log v) = P @ (s, sc_ser v e) # Q" and y: "(s', y) \<in> set Q"
  then obtain s1 x Q' where Q: "Q = (s1, x) # Q'" by (cases Q) auto
  have x: "L_call s1 x \<in> set (sc_log v)"
  proof (rule ccontr)
    assume "L_call s1 x \<notin> set (sc_log v)"
    then obtain a b where "a < sc_nb v" "b < sc_nb v" "sc_ser v b = sc_ser v e" "Blocked b s \<in> set (eff c v (S_usr s1 a))"
      using i p unfolding Q sinv_def fifos_def f_chain_def by blast
    moreover then have "b = e" using i e by (auto simp: sinv_def serials_def inj_on_def)
    ultimately show False using ready_no_token [OF i r, of "S_usr s1 a"] by simp
  qed
  have "puts f (sc_log v) = (P @ [(s, sc_ser v e)]) @ (s1, x) # Q'" using p Q by simp
  then show "L_call s' y \<in> set (sc_log v)" using i x y Q unfolding sinv_def fifos_def f_closed_def by (metis prod.inject set_ConsD)
qed

lemma no_token: "sinv c v \<Longrightarrow> sc_cnt v k e = 0 \<Longrightarrow> slot_event q < sc_nb v \<Longrightarrow> Blocked e k \<notin> set (eff c v q)"
  using inv_token [of c v e k q] by auto

lemma inj_ser: "sinv c v \<Longrightarrow> a < sc_nb v \<Longrightarrow> b < sc_nb v \<Longrightarrow> sc_ser v a = sc_ser v b \<Longrightarrow> a = b"
  by (auto simp: sinv_def serials_def inj_on_def)

lemma inv_links:
  assumes "sinv c v" "x < sc_nb v" "\<not> called v STAGE_RET x" "L_commit (sc_ser v x) rs \<in> set (sc_log v)"
  shows "rs = map (sc_ser v) (sc_refs v x)"
    "r \<in> set (sc_refs v x) \<Longrightarrow> r < sc_nb v"
    "r \<in> set (sc_refs v x) \<Longrightarrow> called v STAGE_GO x \<or> called v STAGE_GO r \<or> Blocked x STAGE_GO \<in> set (eff c v (S_fol r))"
    "r \<in> set (sc_refs v x) \<Longrightarrow> called v STAGE_INIT x \<or> linked v r \<or> Blocked x STAGE_TRACE \<in> set (eff c v (S_com r))"
  using assms unfolding sinv_def links_def by blast+

lemma ret_token:
  assumes i: "sinv c v" and a: "a < sc_nb v" "\<not> called v STAGE_RET a" "linked v a" "r \<in> set (sc_refs v a)"
  shows "r < sc_nb v" "0 < sc_cnt v STAGE_RET r" "\<not> called v STAGE_RET r"
proof -
  have "c (S_ret a) = None" using ctx_none [OF i, of "S_ret a"] a by simp
  then have "Blocked r STAGE_RET \<in> set (eff c v (S_ret a))" using a by (simp add: eff_def raw_def)
  then have "r < sc_nb v \<and> 0 < sc_cnt v STAGE_RET r" using inv_token [OF i] a(1) by (metis slot_event.simps(4))
  then show "r < sc_nb v" "0 < sc_cnt v STAGE_RET r" "\<not> called v STAGE_RET r"
    using cnt_uncalled [OF i, of r STAGE_RET] by (auto simp: target_def)
qed

lemma call_stage_ok:
  assumes i: "sinv c v" and e: "e < sc_nb v" and n: "\<not> called v s e" and r: "ready v s e"
  shows "stage_ok (sc_log v) s (sc_ser v e)"
proof (cases s)
  case STAGE_INIT
  obtain rs where rs: "L_commit (sc_ser v e) rs \<in> set (sc_log v)" using ready_linked [OF i e r] by (auto simp: linked_def)
  have nr: "\<not> called v STAGE_RET e" using all_called(2) [OF i e] n STAGE_INIT by blast
  have "linked v y" if "y \<in> set (sc_refs v e)" for y
    using inv_links(2,4) [OF i e nr rs that] n no_token [OF i, of STAGE_TRACE e "S_com y"] r STAGE_INIT by (auto simp: ready_def)
  then have "\<forall>y \<in> set rs. \<exists>rs'. L_commit y rs' \<in> set (sc_log v)"
    using inv_links(1) [OF i e nr rs] by (auto simp: linked_def)
  then show ?thesis using rs STAGE_INIT by (auto simp: stage_ok_def)
next
  case STAGE_GO
  have nr: "\<not> called v STAGE_RET e" using all_called(1) [OF i e] n STAGE_GO by blast
  have go: "called v STAGE_GO y" if "L_commit (sc_ser v e) rs \<in> set (sc_log v)" "y \<in> set (sc_refs v e)" for y rs
    using inv_links(2,3) [OF i e nr that] n no_token [OF i, of STAGE_GO e "S_fol y"] r STAGE_GO by (auto simp: ready_def)
  have "called v STAGE_INIT e" using i e r STAGE_GO by (auto simp: ready_def sinv_def stages_def)
  moreover have "L_call STAGE_GO y \<in> set (sc_log v)" if rs: "L_commit (sc_ser v e) rs \<in> set (sc_log v)" "y \<in> set rs" for y rs
  proof -
    obtain x where "x \<in> set (sc_refs v e)" "y = sc_ser v x" using rs inv_links(1) [OF i e nr rs(1)] by auto
    then show ?thesis using go [OF rs(1)] by (simp add: called_def)
  qed
  ultimately show ?thesis using STAGE_GO by (auto simp: stage_ok_def called_def)
next
  case STAGE_RET
  have "L_call STAGE_RET y \<in> set (sc_log v)" if y: "L_commit y rs \<in> set (sc_log v)" "sc_ser v e \<in> set rs" for y rs
  proof (rule ccontr)
    assume nc: "L_call STAGE_RET y \<notin> set (sc_log v)"
    then obtain a where a: "a < sc_nb v" "y = sc_ser v a" using i y unfolding sinv_def serials_def by blast
    have na: "\<not> called v STAGE_RET a" "linked v a" using nc a y by (auto simp: called_def linked_def)
    have "rs = map (sc_ser v) (sc_refs v a)" using inv_links(1) [OF i a(1) na(1)] y(1) a(2) by simp
    then obtain x where x: "x \<in> set (sc_refs v a)" "sc_ser v x = sc_ser v e" using y(2) by auto
    then have "x = e" using inj_ser [OF i] ret_token(1) [OF i a(1) na] e by metis
    then show False using ret_token(2) [OF i a(1) na x(1)] r STAGE_RET by (simp add: ready_def)
  qed
  moreover have "called v STAGE_GO e" using i e r STAGE_RET by (auto simp: ready_def sinv_def stages_def)
  ultimately show ?thesis using STAGE_RET by (auto simp: stage_ok_def called_def)
qed (use r in \<open>simp add: ready_def\<close>)

lemma called_mono: "called v s' x \<Longrightarrow> called (log_call s e v) s' x"
  by (simp add: called_def)

lemma call_links:
  assumes i: "sinv c v" and e: "e < sc_nb v" and n: "\<not> called v s e" and r: "ready v s e"
  shows "links (open_for s e v c) (log_call s e v)"
  unfolding links_def
proof (intro allI impI conjI ballI)
  let ?v = "log_call s e v"
  fix x rs assume x: "x < sc_nb ?v" "\<not> called ?v STAGE_RET x" "L_commit (sc_ser ?v x) rs \<in> set (sc_log ?v)"
  then have x': "x < sc_nb v" "\<not> called v STAGE_RET x" "L_commit (sc_ser v x) rs \<in> set (sc_log v)"
    using called_mono by auto
  show "rs = map (sc_ser ?v) (sc_refs ?v x)" using inv_links(1) [OF i x'] by simp
  have f: "eff (open_for s e v c) ?v q = eff c v q" if "slot_event q < sc_nb v" for q
    using eff_open [OF i e n] ready_linked [OF i e r] that by blast
  fix y assume "y \<in> set (sc_refs ?v x)"
  then have y: "y \<in> set (sc_refs v x)" by simp
  then show "y < sc_nb ?v" using inv_links(2) [OF i x'] by simp
  show "called ?v STAGE_GO x \<or> called ?v STAGE_GO y \<or> Blocked x STAGE_GO \<in> set (eff (open_for s e v c) ?v (S_fol y))"
    using inv_links(2,3) [OF i x' y] f [of "S_fol y"] called_mono [of v] by (metis slot_event.simps(2))
  show "called ?v STAGE_INIT x \<or> linked ?v y \<or> Blocked x STAGE_TRACE \<in> set (eff (open_for s e v c) ?v (S_com y))"
    using inv_links(2,4) [OF i x' y] f [of "S_com y"] called_mono [of v] by (metis slot_event.simps(3) linked_log_call)
qed

lemma call_fifos:
  assumes i: "sinv c v" and e: "e < sc_nb v" and n: "\<not> called v s e" and r: "ready v s e"
  shows "fifos (open_for s e v c) (log_call s e v)"
proof -
  have f: "eff (open_for s e v c) (log_call s e v) q = eff c v q" if "slot_event q < sc_nb v" for q
    using eff_open [OF i e n] ready_linked [OF i e r] that by blast
  have "f_queue (log_call s e v)" using i by (simp add: sinv_def fifos_def f_queue_def)
  moreover have "f_last (log_call s e v)" using i unfolding sinv_def fifos_def f_last_def by fastforce
  moreover have "f_chain (open_for s e v c) (log_call s e v)"
    using i f unfolding sinv_def fifos_def f_chain_def by (simp, metis slot_event.simps(1))
  moreover have "f_member (open_for s e v c) (log_call s e v)"
    using i f unfolding sinv_def fifos_def f_member_def by simp
  moreover have "f_closed (L_call s (sc_ser v e) # sc_log v)" unfolding f_closed_def
  proof (intro allI impI)
    fix f P s1 y Q s' x
    assume p: "puts f (L_call s (sc_ser v e) # sc_log v) = P @ (s1, y) # Q" "L_call s1 y \<in> set (L_call s (sc_ser v e) # sc_log v)"
      and x: "(s', x) \<in> set Q"
    have "L_call s' x \<in> set (sc_log v)"
    proof (cases "L_call s1 y \<in> set (sc_log v)")
      case True
      then show ?thesis using p(1) x i unfolding sinv_def fifos_def f_closed_def by (metis puts.simps(4))
    next
      case False
      then have "(s1, y) = (s, sc_ser v e)" using p(2) by auto
      then show ?thesis using p(1) x call_fifo_ok [OF i e r] unfolding fifo_ok_def by (metis puts.simps(4))
    qed
    then show "L_call s' x \<in> set (L_call s (sc_ser v e) # sc_log v)" by simp
  qed
  ultimately show ?thesis by (simp add: fifos_def)
qed

lemma call_inv:
  assumes i: "sinv c v" and e: "e < sc_nb v" and n: "\<not> called v s e" and r: "ready v s e"
  shows "sinv (open_for s e v c) (log_call s e v)"
proof -
  have f: "eff (open_for s e v c) (log_call s e v) q = eff c v q" if "slot_event q < sc_nb v" for q
    using eff_open [OF i e n] ready_linked [OF i e r] that by blast
  have "tokens (open_for s e v c) (log_call s e v) = tokens c v" using f by (intro tokens_cong) auto
  then have "counts (open_for s e v c) (log_call s e v)" using i f by (simp add: sinv_def counts_def)
  moreover have "stages (log_call s e v)"
    using i r called_log_call [OF i e] unfolding sinv_def stages_def ready_def
    by (cases s) (auto split: if_splits)
  moreover have "ctx_ok (open_for s e v c) (log_call s e v)" unfolding ctx_ok_def
  proof (intro allI impI)
    fix q assume "open_for s e v c q \<noteq> None"
    then have "s = STAGE_RET \<and> q = S_ret e \<or> opened v q"
      using i by (auto simp: open_for_def sinv_def ctx_ok_def split: if_splits)
    then show "opened (log_call s e v) q" by (cases q) (auto simp: called_def)
  qed
  moreover have "serials (log_call s e v)" using i e unfolding sinv_def serials_def by (auto simp: called_def blank_def)
  ultimately show ?thesis
    using i n call_links [OF assms] call_fifos [OF assms] call_fifo_ok [OF i e r] call_stage_ok [OF assms]
    by (simp add: sinv_def called_def)
qed

section \<open>A loop or a stage is finished\<close>

lemma same_inv:
  assumes i: "sinv c v" and f: "\<And>q. slot_event q < sc_nb v \<Longrightarrow> eff c' v' q = eff c v q"
    and s: "sc_log v' = sc_log v" "sc_ser v' = sc_ser v" "sc_nb v' = sc_nb v" "sc_fifo v' = sc_fifo v" "sc_refs v' = sc_refs v"
      "sc_cnt v' = sc_cnt v"
    and n: "stages v'" "ctx_ok c' v'" "serials v'"
  shows "sinv c' v'"
proof -
  have cl: "called v' = called v" "linked v' = linked v" by (simp_all add: called_def linked_def s fun_eq_iff)
  have "tokens c' v' = tokens c v" using f s by (intro tokens_cong) auto
  then have "counts c' v'" using i f s by (simp add: sinv_def counts_def)
  moreover have "links c' v'" unfolding links_def
  proof (intro allI impI, goal_cases)
    case (1 x rs)
    then have x: "x < sc_nb v" "\<not> called v STAGE_RET x" "L_commit (sc_ser v x) rs \<in> set (sc_log v)" by (simp_all add: s cl)
    show ?case using inv_links [OF i x] f by (auto simp: s cl)
  qed
  moreover have "f_last v'" "f_queue v'" "f_chain c' v'" "f_member c' v'" "f_closed (sc_log v')" using i f
    by (simp_all add: sinv_def fifos_def f_last_def f_queue_def s f_chain_def f_member_def cong: conj_cong)
  ultimately show ?thesis using n i by (simp add: sinv_def s fifos_def)
qed

lemma close_usr:
  assumes i: "sinv (c(S_usr s e \<mapsto> [])) v" and c: "c (S_usr s e) = None"
  shows "sinv c (v\<lparr>sc_usr := upd2 (sc_usr v) s e []\<rparr>)"
proof (rule same_inv [OF i])
  let ?v = "v\<lparr>sc_usr := upd2 (sc_usr v) s e []\<rparr>"
  have cl: "called ?v = called v" "linked ?v = linked v" by (simp_all add: called_def linked_def fun_eq_iff)
  have r: "raw ?v q = (if q = S_usr s e then [] else raw v q)" for q by (auto simp: raw_def cl split: slot.split)
  show "eff c ?v q = eff (c(S_usr s e \<mapsto> [])) v q" for q using c by (auto simp: eff_def r split: option.split)
  have "opened ?v q = opened v q" for q by (cases q) (simp_all add: cl)
  then show "ctx_ok c ?v" using i c by (auto simp: sinv_def ctx_ok_def split: if_splits)
  show "stages ?v" "serials ?v" using i by (simp_all add: sinv_def stages_def serials_def blank_def cl)
qed simp_all

lemma close_fol:
  assumes i: "sinv (c(S_fol e \<mapsto> [])) v" and e: "e < sc_nb v" and c: "c (S_fol e) = None"
  shows "sinv c (v\<lparr>sc_fol := (sc_fol v)(e := [])\<rparr>)"
proof (rule same_inv [OF i])
  let ?v = "v\<lparr>sc_fol := (sc_fol v)(e := [])\<rparr>"
  have cl: "called ?v = called v" "linked ?v = linked v" by (simp_all add: called_def linked_def fun_eq_iff)
  have "called v STAGE_GO e" using inv_opened [OF i] by simp
  then have d: "sc_done v STAGE_TRACE e" using i e by (auto simp: sinv_def stages_def)
  have r: "raw ?v q = (if q = S_fol e then [] else raw v q)" for q using d by (auto simp: raw_def cl split: slot.split)
  show "eff c ?v q = eff (c(S_fol e \<mapsto> [])) v q" for q using c by (auto simp: eff_def r split: option.split)
  have "opened ?v q = opened v q" for q by (cases q) (simp_all add: cl)
  then show "ctx_ok c ?v" using i c by (auto simp: sinv_def ctx_ok_def split: if_splits)
  show "stages ?v" "serials ?v" using i by (simp_all add: sinv_def stages_def serials_def blank_def cl)
qed simp_all

lemma close_ret:
  assumes i: "sinv (c(S_ret e \<mapsto> [])) v" and e: "called v STAGE_RET e" and c: "c (S_ret e) = None"
  shows "sinv c v"
proof (rule same_inv [OF i])
  show "eff c v q = eff (c(S_ret e \<mapsto> [])) v q" for q using c e by (cases "q = S_ret e") (auto simp: eff_def raw_def)
  show "ctx_ok c v" using i c by (auto simp: sinv_def ctx_ok_def split: if_splits)
qed (use i in \<open>simp_all add: sinv_def\<close>)

lemma close_com:
  assumes i: "sinv (c(S_com e \<mapsto> [])) v" and c: "c (S_com e) = None"
  shows "sinv c (v\<lparr>sc_done := upd2 (sc_done v) STAGE_TRACE e True\<rparr>)"
proof (rule same_inv [OF i])
  let ?v = "v\<lparr>sc_done := upd2 (sc_done v) STAGE_TRACE e True\<rparr>"
  have cl: "called ?v = called v" "linked ?v = linked v" by (simp_all add: called_def linked_def fun_eq_iff)
  have l: "linked v e" using inv_opened [OF i] by simp
  have r: "raw ?v q = (if q = S_com e then [] else raw v q)" for q by (auto simp: raw_def cl split: slot.split)
  show "eff c ?v q = eff (c(S_com e \<mapsto> [])) v q" for q using c by (auto simp: eff_def r split: option.split)
  have "opened ?v q = opened v q" if "q \<noteq> S_com e" for q using that by (cases q) (auto simp: cl)
  then show "ctx_ok c ?v" using i c unfolding sinv_def ctx_ok_def by (metis fun_upd_apply)
  show "stages ?v" "serials ?v" using i l by (auto simp: sinv_def stages_def serials_def blank_def cl)
qed simp_all

lemma done_inv:
  assumes i: "sinv c v" and s: "s = STAGE_INIT \<or> s = STAGE_GO" and e: "called v s e"
  shows "sinv c (v\<lparr>sc_done := upd2 (sc_done v) s e True\<rparr>)"
proof (rule same_inv [OF i])
  let ?v = "v\<lparr>sc_done := upd2 (sc_done v) s e True\<rparr>"
  have cl: "called ?v = called v" "linked ?v = linked v" by (simp_all add: called_def linked_def fun_eq_iff)
  have r: "raw ?v q = raw v q" for q using s by (auto simp: raw_def cl split: slot.split)
  show "eff c ?v q = eff c v q" for q by (auto simp: eff_def r split: option.split)
  have "opened ?v q = opened v q" for q using s by (cases q) (auto simp: cl)
  then show "ctx_ok c ?v" using i by (simp add: sinv_def ctx_ok_def)
  show "stages ?v" "serials ?v" using i s e by (auto simp: sinv_def stages_def serials_def blank_def cl)
qed simp_all

lemma recycle_inv:
  assumes i: "sinv c v" and e: "e < sc_nb v" "called v STAGE_RET e \<or> blank v e" "e \<notin> set (sc_free v)"
  shows "sinv c (v\<lparr>sc_free := e # sc_free v\<rparr>)"
proof (rule same_inv [OF i])
  let ?v = "v\<lparr>sc_free := e # sc_free v\<rparr>"
  have cl: "called ?v = called v" "linked ?v = linked v" by (simp_all add: called_def linked_def fun_eq_iff)
  have r: "raw ?v q = raw v q" for q by (auto simp: raw_def cl split: slot.split)
  show "eff c ?v q = eff c v q" for q by (auto simp: eff_def r split: option.split)
  have "opened ?v q = opened v q" for q by (cases q) (auto simp: cl)
  then show "ctx_ok c ?v" using i by (simp add: sinv_def ctx_ok_def)
  show "stages ?v" "serials ?v" using i e by (auto simp: sinv_def stages_def serials_def blank_def cl)
qed simp_all

lemma missfol_inv:
  assumes i: "sinv c v" and e: "\<not> called v STAGE_RET e"
  shows "sinv c (v\<lparr>sc_mfol := (sc_mfol v)(e := n)\<rparr>)"
proof (rule same_inv [OF i])
  let ?v = "v\<lparr>sc_mfol := (sc_mfol v)(e := n)\<rparr>"
  have cl: "called ?v = called v" "linked ?v = linked v" by (simp_all add: called_def linked_def fun_eq_iff)
  have r: "raw ?v q = raw v q" for q by (auto simp: raw_def cl split: slot.split)
  show "eff c ?v q = eff c v q" for q by (auto simp: eff_def r split: option.split)
  have "opened ?v q = opened v q" for q by (cases q) (auto simp: cl)
  then show "ctx_ok c ?v" using i by (simp add: sinv_def ctx_ok_def)
  show "stages ?v" "serials ?v" using i e by (auto simp: sinv_def stages_def serials_def blank_def cl)
qed simp_all

section \<open>An event is put into a fifo\<close>

definition barrier :: "nat \<Rightarrow> stage_t \<Rightarrow> nat \<Rightarrow> stage_t \<Rightarrow> sched \<Rightarrow> sched" where
  "barrier q s1 e s v = v\<lparr>sc_usr := upd2 (sc_usr v) s1 q (Blocked e s # sc_usr v s1 q),
     sc_cnt := upd2 (sc_cnt v) s e (sc_cnt v s e + 1)\<rparr>"

lemma barrier_simps [simp]:
  "sc_nb (barrier q s1 e s v) = sc_nb v" "sc_log (barrier q s1 e s v) = sc_log v" "sc_ser (barrier q s1 e s v) = sc_ser v"
  "sc_fifo (barrier q s1 e s v) = sc_fifo v" "called (barrier q s1 e s v) = called v" "linked (barrier q s1 e s v) = linked v"
  "sc_refs (barrier q s1 e s v) = sc_refs v" "sc_done (barrier q s1 e s v) = sc_done v" "sc_mfol (barrier q s1 e s v) = sc_mfol v"
  "sc_next (barrier q s1 e s v) = sc_next v" "sc_free (barrier q s1 e s v) = sc_free v" "sc_fol (barrier q s1 e s v) = sc_fol v"
  by (simp_all add: barrier_def called_def linked_def fun_eq_iff)

lemma barrier_eff: "eff c (barrier q s1 e s v) p = (if p = S_usr s1 q \<and> c p = None then Blocked e s # eff c v p else eff c v p)"
  by (auto simp: eff_def raw_def barrier_def called_def linked_def split: option.split slot.split)

lemma barrier_cnt: "sc_cnt (barrier q s1 e s v) k x = sc_cnt v k x + (if x = e \<and> k = s then 1 else 0)"
  by (simp add: barrier_def)

definition in_use :: "sched \<Rightarrow> nat \<Rightarrow> bool" where
  "in_use v e \<longleftrightarrow> linked v e \<or> e \<notin> set (sc_free v)"

lemma barrier_inv:
  assumes i: "sinv c v" and e: "e < sc_nb v" "\<not> called v s e" "s \<noteq> STAGE_TRACE" "in_use v e" and q: "q < sc_nb v"
  shows "sinv c (barrier q s1 e s v)"
proof -
  let ?v = "barrier q s1 e s v"
  have sub: "set (eff c v p) \<subseteq> set (eff c ?v p)" for p by (auto simp: barrier_eff)
  have t: "tokens c ?v t \<le> tokens c v t + (if t = Blocked e s then 1 else 0)" for t
    using tokens_upd [of "S_usr s1 q" v c ?v c t] q by (auto simp: barrier_eff split: if_splits)
  have ct: "counts c v" using i by (simp add: sinv_def)
  have "counts c ?v" unfolding counts_def
  proof (intro conjI allI impI)
    fix x k assume "x < sc_nb ?v"
    then have "int (tokens c v (Blocked x k)) \<le> sc_cnt v k x" using counts_D [OF ct] by simp
    then show "int (tokens c ?v (Blocked x k)) \<le> sc_cnt ?v k x" using t [of "Blocked x k"] by (auto simp: barrier_cnt split: if_splits)
  next
    fix p x k assume "slot_event p < sc_nb ?v" "Blocked x k \<in> set (eff c ?v p)"
    then have "slot_event p < sc_nb v" "x = e \<or> Blocked x k \<in> set (eff c v p)" by (auto simp: barrier_eff split: if_splits)
    then show "x < sc_nb ?v" using ct e(1) unfolding counts_def barrier_simps by blast
  qed
  moreover have "stages ?v" using i e(2,3) unfolding sinv_def stages_def by (cases s) (auto simp: barrier_cnt)
  moreover have "ctx_ok c ?v"
  proof -
    have "opened ?v p = opened v p" for p by (cases p) simp_all
    then show ?thesis using i by (simp add: sinv_def ctx_ok_def)
  qed
  moreover have "links c ?v" using i sub unfolding sinv_def links_def barrier_simps by blast
  moreover have "serials ?v" using i e(4) by (auto simp: sinv_def serials_def blank_def barrier_cnt in_use_def)
  moreover have "f_chain c ?v" using i sub unfolding sinv_def fifos_def f_chain_def barrier_simps by blast
  moreover have "f_member c ?v" using i unfolding sinv_def fifos_def f_member_def barrier_simps by (auto simp: barrier_eff split: if_splits)
  ultimately show ?thesis using i by (simp add: sinv_def fifos_def f_queue_def f_last_def)
qed

definition enter :: "fifo_id \<Rightarrow> nat \<Rightarrow> stage_t \<Rightarrow> sched \<Rightarrow> sched" where
  "enter f e s v = v\<lparr>sc_usr := upd2 (sc_usr v) s e (In_fifo f # sc_usr v s e),
     sc_fifo := (sc_fifo v)(f := \<lparr>ff_queue = Some e, ff_stage = s\<rparr>), sc_log := L_put f s (sc_ser v e) # sc_log v\<rparr>"

lemma enter_simps [simp]:
  "sc_nb (enter f e s v) = sc_nb v" "sc_log (enter f e s v) = L_put f s (sc_ser v e) # sc_log v" "sc_ser (enter f e s v) = sc_ser v"
  "sc_fifo (enter f e s v) = (sc_fifo v)(f := \<lparr>ff_queue = Some e, ff_stage = s\<rparr>)"
  "called (enter f e s v) = called v" "linked (enter f e s v) = linked v"
  "sc_refs (enter f e s v) = sc_refs v" "sc_done (enter f e s v) = sc_done v" "sc_mfol (enter f e s v) = sc_mfol v"
  "sc_next (enter f e s v) = sc_next v" "sc_free (enter f e s v) = sc_free v" "sc_fol (enter f e s v) = sc_fol v"
  "sc_cnt (enter f e s v) = sc_cnt v"
  by (simp_all add: enter_def called_def linked_def fun_eq_iff)

lemma enter_eff: "eff c (enter f e s v) p = (if p = S_usr s e \<and> c p = None then In_fifo f # eff c v p else eff c v p)"
  by (auto simp: eff_def raw_def enter_def called_def linked_def split: option.split slot.split)

lemma enter_fifos:
  assumes i: "sinv c v" and e: "e < sc_nb v" "\<not> called v s e" "s \<noteq> STAGE_TRACE"
    and l: "\<And>s1 x Q. puts f (sc_log v) = (s1, x) # Q \<Longrightarrow> L_call s1 x \<notin> set (sc_log v) \<Longrightarrow>
      \<exists>a < sc_nb v. sc_ser v a = x \<and> Blocked e s \<in> set (eff c v (S_usr s1 a))"
  shows "fifos c (enter f e s v)"
proof -
  let ?v = "enter f e s v"
  have sub: "set (eff c v p) \<subseteq> set (eff c ?v p)" for p by (auto simp: enter_eff)
  have ip: "f_queue v" "f_last v" "f_chain c v" "f_closed (sc_log v)" "f_member c v" using i by (simp_all add: sinv_def fifos_def)
  have "f_queue ?v" using ip(1) e by (auto simp: f_queue_def)
  moreover have "f_last ?v" using ip(2) e(1) unfolding f_last_def by (auto split: if_splits)
  moreover have "f_chain c ?v" unfolding f_chain_def
  proof (intro allI impI)
    fix g P s2 y s1 x Q assume p: "puts g (sc_log ?v) = P @ (s2, y) # (s1, x) # Q"
    show "L_call s1 x \<in> set (sc_log ?v) \<or> (\<exists>a b. a < sc_nb ?v \<and> b < sc_nb ?v \<and> sc_ser ?v a = x \<and> sc_ser ?v b = y
        \<and> Blocked b s2 \<in> set (eff c ?v (S_usr s1 a)))"
    proof (cases "g = f \<and> P = []")
      case True
      then have q: "s2 = s" "y = sc_ser v e" "puts f (sc_log v) = (s1, x) # Q" using p by auto
      show ?thesis
      proof (cases "L_call s1 x \<in> set (sc_log v)")
        case False
        then obtain a where "a < sc_nb v" "sc_ser v a = x" "Blocked e s \<in> set (eff c ?v (S_usr s1 a))"
          using l [OF q(3)] sub by blast
        then show ?thesis using q e(1) by auto
      qed simp
    next
      case False
      then obtain P' where "puts g (sc_log v) = P' @ (s2, y) # (s1, x) # Q" using p by (cases P) (auto split: if_splits)
      then have "L_call s1 x \<in> set (sc_log v) \<or> (\<exists>a b. a < sc_nb v \<and> b < sc_nb v \<and> sc_ser v a = x \<and> sc_ser v b = y
          \<and> Blocked b s2 \<in> set (eff c ?v (S_usr s1 a)))" using ip(3) sub unfolding f_chain_def by blast
      then show ?thesis by simp
    qed
  qed
  moreover have "f_closed (sc_log ?v)" unfolding f_closed_def
  proof (intro allI impI)
    fix g P s1 y Q s' x
    assume p: "puts g (sc_log ?v) = P @ (s1, y) # Q" "L_call s1 y \<in> set (sc_log ?v)" "(s', x) \<in> set Q"
    then have "\<not> (g = f \<and> P = [])" using e(2) by (auto simp: called_def)
    then obtain P' where "puts g (sc_log v) = P' @ (s1, y) # Q" using p(1) by (cases P) (auto split: if_splits)
    then show "L_call s' x \<in> set (sc_log ?v)" using ip(4) p(2,3) unfolding f_closed_def by auto
  qed
  moreover have "f_member c ?v" using ip(5) unfolding f_member_def by (auto simp: enter_eff split: if_splits)
  ultimately show ?thesis by (simp add: fifos_def)
qed

lemma fifo_enter_inv:
  assumes i: "sinv c v" and e: "e < sc_nb v" "\<not> called v s e" "s \<noteq> STAGE_TRACE" and u: "in_use v e" and n: "sc_ser v e \<notin> snd ` set (puts f (sc_log v))"
    and l: "\<And>s1 x Q. puts f (sc_log v) = (s1, x) # Q \<Longrightarrow> L_call s1 x \<notin> set (sc_log v) \<Longrightarrow>
      \<exists>a < sc_nb v. sc_ser v a = x \<and> Blocked e s \<in> set (eff c v (S_usr s1 a))"
  shows "sinv c (enter f e s v)"
proof -
  let ?v = "enter f e s v"
  have t: "tokens c ?v (Blocked x k) = tokens c v (Blocked x k)" for x k
    using tokens_upd [of "S_usr s e" v c ?v c "Blocked x k"] e(1) by (auto simp: enter_eff split: if_splits)
  have b: "Blocked x k \<in> set (eff c ?v p) \<longleftrightarrow> Blocked x k \<in> set (eff c v p)" for x k p by (simp add: enter_eff)
  have "counts c ?v" using i unfolding sinv_def counts_def enter_simps b t by blast
  moreover have "ctx_ok c ?v"
  proof -
    have "opened ?v p = opened v p" for p by (cases p) simp_all
    then show ?thesis using i by (simp add: sinv_def ctx_ok_def)
  qed
  moreover have "links c ?v"
  proof -
    have "L_commit x rs \<in> set (sc_log ?v) \<longleftrightarrow> L_commit x rs \<in> set (sc_log v)" for x rs by simp
    then show ?thesis using i unfolding sinv_def links_def b by simp
  qed
  moreover have "blank ?v x" if "x \<in> set (sc_free v)" "blank v x" for x
  proof -
    have "x < sc_nb v" "x \<noteq> e" using i u that by (auto simp: sinv_def serials_def blank_def in_use_def)
    then show ?thesis using that inj_ser [OF i _ e(1), of x] by (auto simp: blank_def)
  qed
  then have "serials ?v" using i e unfolding sinv_def serials_def by auto
  moreover have "stages ?v" using i by (simp add: sinv_def stages_def)
  ultimately show ?thesis using i e(2) n enter_fifos [OF i e l] by (simp add: sinv_def called_def)
qed

definition fifo_put :: "fifo_id \<Rightarrow> nat \<Rightarrow> stage_t \<Rightarrow> sched \<Rightarrow> sched" where
  "fifo_put f e s v = enter f e s (case ff_queue (sc_fifo v f) of None \<Rightarrow> v | Some q \<Rightarrow> barrier q (ff_stage (sc_fifo v f)) e s v)"

lemma put_inv:
  assumes i: "sinv c v" and e: "e < sc_nb v" "\<not> called v s e" "s \<noteq> STAGE_TRACE" "in_use v e" and n: "sc_ser v e \<notin> snd ` set (puts f (sc_log v))"
  shows "sinv c (fifo_put f e s v)"
proof (cases "ff_queue (sc_fifo v f)")
  case None
  have "L_call s1 x \<in> set (sc_log v)" if "puts f (sc_log v) = (s1, x) # Q" for s1 x Q
    using i that None unfolding sinv_def fifos_def f_last_def by fastforce
  then show ?thesis using fifo_enter_inv [OF i e n] None unfolding fifo_put_def by fastforce
next
  case (Some q)
  let ?v = "barrier q (ff_stage (sc_fifo v f)) e s v"
  have q: "q < sc_nb v" using i Some by (auto simp: sinv_def fifos_def f_queue_def)
  note j = barrier_inv [OF i e q, of "ff_stage (sc_fifo v f)"]
  have "\<exists>a < sc_nb v. sc_ser v a = x \<and> Blocked e s \<in> set (eff c ?v (S_usr s1 a))"
    if p: "puts f (sc_log v) = (s1, x) # Q" "L_call s1 x \<notin> set (sc_log v)" for s1 x Q
  proof -
    obtain a where a: "a < sc_nb v" "sc_ser v a = x" "sc_fifo v f = \<lparr>ff_queue = Some a, ff_stage = s1\<rparr>"
      using i p unfolding sinv_def fifos_def f_last_def by blast
    then have "c (S_usr s1 a) = None" using ctx_none [OF i, of "S_usr s1 a"] p(2) by (simp add: called_def)
    then show ?thesis using a Some by (intro exI [of _ a]) (simp add: barrier_eff)
  qed
  then show ?thesis using fifo_enter_inv [OF j, of e s f] e n Some by (simp add: fifo_put_def in_use_def)
qed

section \<open>A new event\<close>

definition renew :: "nat \<Rightarrow> nat list \<Rightarrow> nat list \<Rightarrow> sched \<Rightarrow> sched" where
  "renew e rs fr v = v\<lparr>sc_cnt := (\<lambda>k x. if x = e then 0 else sc_cnt v k x), sc_done := (\<lambda>k x. x \<noteq> e \<and> sc_done v k x),
     sc_usr := (\<lambda>k x. if x = e then [] else sc_usr v k x), sc_fol := (sc_fol v)(e := []), sc_mfol := (sc_mfol v)(e := 0),
     sc_refs := (sc_refs v)(e := rs), sc_ser := (sc_ser v)(e := sc_next v), sc_next := sc_next v + 1,
     sc_nb := max (sc_nb v) (Suc e), sc_free := fr\<rparr>"

abbreviation no_ctx :: ctx where "no_ctx \<equiv> \<lambda>_. None"

lemma renew_called:
  assumes "sinv c v" shows "called (renew e rs fr v) s x \<longleftrightarrow> x \<noteq> e \<and> called v s x" "linked (renew e rs fr v) x \<longleftrightarrow> x \<noteq> e \<and> linked v x"
  using assms by (auto simp: renew_def called_def linked_def sinv_def serials_def)

lemma renew_eff:
  assumes "sinv no_ctx v" shows "eff no_ctx (renew e rs fr v) q = (if slot_event q = e then [] else eff no_ctx v q)"
  using renew_called [OF assms, of e rs fr] by (cases q) (auto simp: eff_def raw_def renew_def)

lemma renew_tokens:
  assumes i: "sinv no_ctx v" and e: "e \<le> sc_nb v" shows "tokens no_ctx (renew e rs fr v) t \<le> tokens no_ctx v t"
proof -
  let ?n = "sc_nb (renew e rs fr v)"
  have "tokens no_ctx (renew e rs fr v) t = (\<Sum>q \<in> slots ?n - {q. slot_event q = e}. count_list (eff no_ctx v q) t)"
    unfolding tokens_def by (rule sum.mono_neutral_cong_right) (auto simp: renew_eff [OF i])
  also have "\<dots> \<le> tokens no_ctx v t"
    unfolding tokens_def using e by (intro sum_mono2 finite_slots) (auto simp: slots_def renew_def)
  finally show ?thesis .
qed

definition reusable :: "sched \<Rightarrow> nat \<Rightarrow> bool" where
  "reusable v e \<longleftrightarrow> e = sc_nb v \<or> e < sc_nb v \<and> (called v STAGE_RET e \<or> blank v e)"

lemma reuse_no_token: "sinv no_ctx v \<Longrightarrow> reusable v e \<Longrightarrow> slot_event q < sc_nb v \<Longrightarrow> Blocked e k \<notin> set (eff no_ctx v q)"
  unfolding reusable_def blank_def by (metis all_called(4) inv_token less_irrefl)

lemma reuse_called: "sinv no_ctx v \<Longrightarrow> reusable v e \<Longrightarrow> e < sc_nb v \<Longrightarrow> s \<noteq> STAGE_TRACE \<Longrightarrow> called v s e \<or> blank v e"
  using all_called [of no_ctx v e] by (cases s) (auto simp: reusable_def)

lemma renew_nb: "reusable v e \<Longrightarrow> sc_nb (renew e rs fr v) = (if e < sc_nb v then sc_nb v else Suc (sc_nb v))"
  by (auto simp: renew_def reusable_def)

lemma renew_old: "reusable v e \<Longrightarrow> x < sc_nb (renew e rs fr v) \<Longrightarrow> x = e \<or> x < sc_nb v"
  by (auto simp: renew_def reusable_def)

lemma new_counts:
  assumes i: "sinv no_ctx v" and e: "reusable v e" shows "counts no_ctx (renew e rs fr v)"
  unfolding counts_def
proof (intro conjI allI impI)
  fix x k assume x: "x < sc_nb (renew e rs fr v)"
  have t: "tokens no_ctx (renew e rs fr v) (Blocked x k) \<le> tokens no_ctx v (Blocked x k)" using renew_tokens [OF i] e by (auto simp: reusable_def)
  show "int (tokens no_ctx (renew e rs fr v) (Blocked x k)) \<le> sc_cnt (renew e rs fr v) k x"
  proof (cases "x = e")
    case True
    then have "tokens no_ctx v (Blocked x k) = 0" using reuse_no_token [OF i e] by (auto simp: tokens_def slots_def count_list_0_iff)
    then show ?thesis using t True by (simp add: renew_def)
  next
    case False
    then have "x < sc_nb v" using renew_old [OF e x] by simp
    then show ?thesis using t False i counts_D [of no_ctx v x k] by (auto simp: sinv_def renew_def)
  qed
next
  fix q x k assume q: "slot_event q < sc_nb (renew e rs fr v)" "Blocked x k \<in> set (eff no_ctx (renew e rs fr v) q)"
  then have "slot_event q < sc_nb v" "Blocked x k \<in> set (eff no_ctx v q)"
    using renew_old [OF e q(1)] by (auto simp: renew_eff [OF i] split: if_splits)
  then have "x < sc_nb v" using i unfolding sinv_def counts_def by blast
  then show "x < sc_nb (renew e rs fr v)" by (simp add: renew_nb [OF e])
qed

lemma new_stages:
  assumes i: "sinv no_ctx v" and e: "reusable v e" shows "stages (renew e rs fr v)"
  unfolding stages_def
proof (intro allI impI)
  fix x assume "x < sc_nb (renew e rs fr v)"
  then have "x = e \<or> x < sc_nb v" by (rule renew_old [OF e])
  then show "(sc_done (renew e rs fr v) STAGE_TRACE x \<longrightarrow> linked (renew e rs fr v) x)
     \<and> (called (renew e rs fr v) STAGE_INIT x \<longrightarrow> sc_done (renew e rs fr v) STAGE_TRACE x \<and> sc_cnt (renew e rs fr v) STAGE_TRACE x = 0 \<and> sc_cnt (renew e rs fr v) STAGE_INIT x = 0)
     \<and> (sc_done (renew e rs fr v) STAGE_INIT x \<longrightarrow> called (renew e rs fr v) STAGE_INIT x)
     \<and> (called (renew e rs fr v) STAGE_GO x \<longrightarrow> sc_done (renew e rs fr v) STAGE_INIT x \<and> sc_cnt (renew e rs fr v) STAGE_GO x = 0)
     \<and> (sc_done (renew e rs fr v) STAGE_GO x \<longrightarrow> called (renew e rs fr v) STAGE_GO x)
     \<and> (called (renew e rs fr v) STAGE_RET x \<longrightarrow> sc_done (renew e rs fr v) STAGE_GO x \<and> sc_mfol (renew e rs fr v) x = 0 \<and> sc_cnt (renew e rs fr v) STAGE_RET x = 0)"
    using i unfolding sinv_def stages_def renew_called [OF i] by (auto simp: renew_def)
qed

lemma new_links:
  assumes i: "sinv no_ctx v" and e: "reusable v e" shows "links no_ctx (renew e rs fr v)"
  unfolding links_def
proof (intro allI impI, goal_cases)
  case (1 x ss)
  then have x: "x \<noteq> e" "x < sc_nb v" "\<not> called v STAGE_RET x"
    using renew_called [OF i] renew_old [OF e 1(1)] linked_def [of "renew e rs fr v" x] by auto
  then have l: "L_commit (sc_ser v x) ss \<in> set (sc_log v)" "linked v x" using 1(3) by (auto simp: renew_def linked_def)
  have r: "r \<noteq> e" if "r \<in> set (sc_refs v x)" for r
    using ret_token [OF i x(2,3) l(2) that] e by (auto simp: reusable_def blank_def)
  show ?case
    using x r inv_links [OF i x(2,3) l(1)] unfolding renew_called [OF i] renew_eff [OF i]
    by (auto simp: renew_def less_max_iff_disj)
qed

lemma new_serials:
  assumes i: "sinv no_ctx v" and e: "reusable v e" and fr: "set fr \<subseteq> set (sc_free v)" "distinct fr" "e \<notin> set fr"
  shows "serials (renew e rs fr v)"
proof -
  have s: "serials v" using i by (simp add: sinv_def)
  have keep: "x \<in> sc_ser (renew e rs fr v) ` {..<sc_nb (renew e rs fr v)}"
    if m: "x \<in> sc_ser v ` {..<sc_nb v}" "e < sc_nb v \<Longrightarrow> x \<noteq> sc_ser v e" for x
  proof -
    obtain a where a: "a < sc_nb v" "x = sc_ser v a" using m(1) by auto
    then have "a \<noteq> e" using m(2) by auto
    then show ?thesis using a by (auto simp: renew_def image_iff intro!: bexI [of _ a])
  qed
  have "inj_on (sc_ser (renew e rs fr v)) {..<sc_nb (renew e rs fr v)}"
  proof (rule inj_onI)
    fix x y assume "x \<in> {..<sc_nb (renew e rs fr v)}" "y \<in> {..<sc_nb (renew e rs fr v)}"
      and q: "sc_ser (renew e rs fr v) x = sc_ser (renew e rs fr v) y"
    then have "x = e \<or> x < sc_nb v" "y = e \<or> y < sc_nb v" using renew_old [OF e] by auto
    moreover have "sc_ser (renew e rs fr v) z = (if z = e then sc_next v else sc_ser v z)" for z by (simp add: renew_def)
    moreover have "sc_ser v z \<noteq> sc_next v" if "z < sc_nb v" for z using s that by (auto simp: serials_def)
    ultimately show "x = y" using q inj_ser [OF i, of x y] by (auto split: if_splits)
  qed
  moreover have "\<forall>x < sc_nb (renew e rs fr v). sc_ser (renew e rs fr v) x < sc_next (renew e rs fr v)"
  proof (intro allI impI)
    fix x assume "x < sc_nb (renew e rs fr v)"
    then show "sc_ser (renew e rs fr v) x < sc_next (renew e rs fr v)"
      using s renew_old [OF e, of x rs fr] unfolding serials_def by (auto simp: renew_def less_Suc_eq)
  qed
  moreover have "x < sc_next v \<and> (L_call STAGE_RET x \<in> set (sc_log v) \<or> x \<in> sc_ser (renew e rs fr v) ` {..<sc_nb (renew e rs fr v)})"
    if "L_commit x ss \<in> set (sc_log v)" for x ss
    using s that keep [of x] reuse_called [OF i e, of STAGE_RET] unfolding serials_def called_def blank_def linked_def by blast
  moreover have "s \<noteq> STAGE_TRACE \<and> x < sc_next v \<and> (L_call s x \<in> set (sc_log v) \<or> x \<in> sc_ser (renew e rs fr v) ` {..<sc_nb (renew e rs fr v)})"
    if "L_put f s x \<in> set (sc_log v)" for f s x
    using s that keep [of x] reuse_called [OF i e, of s] unfolding serials_def called_def blank_def by blast
  moreover have "x < sc_nb (renew e rs fr v) \<and> (called (renew e rs fr v) STAGE_RET x \<or> blank (renew e rs fr v) x)" if "x \<in> set fr" for x
  proof -
    have x: "x \<noteq> e" "x < sc_nb v" "called v STAGE_RET x \<or> blank v x" using s that fr by (auto simp: serials_def)
    then show ?thesis using renew_called [OF i, of e rs fr] by (auto simp: renew_def less_max_iff_disj blank_def)
  qed
  ultimately show ?thesis using s fr(2) unfolding serials_def by (auto simp: renew_def less_Suc_eq)
qed

lemma new_fifos:
  assumes i: "sinv no_ctx v" and e: "reusable v e"
  shows "fifos no_ctx (renew e rs fr v)"
proof -
  let ?v = "renew e rs fr v"
  have p: "f_queue v" "f_last v" "f_chain no_ctx v" "f_closed (sc_log v)" "f_member no_ctx v" "serials v"
    using i by (simp_all add: sinv_def fifos_def)
  have lg: "sc_log ?v = sc_log v" "sc_fifo ?v = sc_fifo v" by (simp_all add: renew_def)
  have ne: "a \<noteq> e" if "L_put f s (sc_ser v a) \<in> set (sc_log v)" "L_call s (sc_ser v a) \<notin> set (sc_log v)" "a < sc_nb v" for f s a
    using that reuse_called [OF i e, of s] p(6) unfolding called_def serials_def blank_def by blast
  have keep: "a < sc_nb ?v \<and> sc_ser ?v a = sc_ser v a" if "a < sc_nb v" "a \<noteq> e" for a using that by (simp add: renew_def less_max_iff_disj)
  have "f_queue ?v" using p(1) unfolding f_queue_def by (auto simp: renew_def less_max_iff_disj)
  moreover have "f_last ?v" unfolding f_last_def lg
  proof (intro allI impI)
    fix f s x Q assume q: "puts f (sc_log v) = (s, x) # Q"
    show "L_call s x \<in> set (sc_log v) \<or> (\<exists>a < sc_nb ?v. sc_ser ?v a = x \<and> sc_fifo v f = \<lparr>ff_queue = Some a, ff_stage = s\<rparr>)"
    proof (cases "L_call s x \<in> set (sc_log v)")
      case False
      then obtain a where "a < sc_nb v" "sc_ser v a = x" "sc_fifo v f = \<lparr>ff_queue = Some a, ff_stage = s\<rparr>"
        using p(2) q unfolding f_last_def by blast
      moreover then have "a \<noteq> e" using ne False q in_puts [of s x f "sc_log v"] by fastforce
      ultimately show ?thesis using keep [of a] by blast
    qed simp
  qed
  moreover have "f_chain no_ctx ?v" unfolding f_chain_def lg
  proof (intro allI impI)
    fix f P s2 y s1 x Q assume q: "puts f (sc_log v) = P @ (s2, y) # (s1, x) # Q"
    show "L_call s1 x \<in> set (sc_log v) \<or> (\<exists>a b. a < sc_nb ?v \<and> b < sc_nb ?v \<and> sc_ser ?v a = x \<and> sc_ser ?v b = y
        \<and> Blocked b s2 \<in> set (eff no_ctx ?v (S_usr s1 a)))"
    proof (cases "L_call s1 x \<in> set (sc_log v)")
      case False
      then obtain a b where a: "a < sc_nb v" "b < sc_nb v" "sc_ser v a = x" "sc_ser v b = y" "Blocked b s2 \<in> set (eff no_ctx v (S_usr s1 a))"
        using p(3) q unfolding f_chain_def by blast
      have "a \<noteq> e" using ne False q a in_puts [of s1 x f "sc_log v"] by fastforce
      moreover have "b \<noteq> e" using reuse_no_token [OF i e, of "S_usr s1 a" s2] a by auto
      ultimately show ?thesis using keep a renew_eff [OF i, of e rs fr "S_usr s1 a"] by (intro disjI2 exI [of _ a] exI [of _ b]) auto
    qed simp
  qed
  moreover have "f_member no_ctx ?v" unfolding f_member_def lg renew_eff [OF i]
    using p(5) renew_old [OF e] unfolding f_member_def by (auto simp: renew_def split: if_splits)
  ultimately show ?thesis using p(4) by (simp add: fifos_def lg)
qed

lemma renew_inv:
  assumes i: "sinv no_ctx v" and e: "reusable v e" and fr: "set fr \<subseteq> set (sc_free v)" "distinct fr" "e \<notin> set fr"
  shows "sinv no_ctx (renew e rs fr v)"
  using new_counts [OF i e] new_stages [OF i e] new_links [OF i e] new_serials [OF i e fr] new_fifos [OF i e] i
  by (simp add: sinv_def ctx_ok_def renew_def)

lemma content_inv:
  assumes i: "sinv no_ctx v" and e: "\<not> linked v e"
  shows "sinv no_ctx (v\<lparr>sc_refs := (sc_refs v)(e := rs)\<rparr>)"
proof -
  let ?v = "v\<lparr>sc_refs := (sc_refs v)(e := rs)\<rparr>"
  have cl: "called ?v = called v" "linked ?v = linked v" by (simp_all add: called_def linked_def fun_eq_iff)
  have f: "eff no_ctx ?v q = eff no_ctx v q" for q using e by (cases q) (auto simp: eff_def raw_def cl)
  have t: "tokens no_ctx ?v = tokens no_ctx v" by (rule ext) (simp add: tokens_def f)
  have "links no_ctx ?v" unfolding links_def
  proof (intro allI impI, goal_cases)
    case (1 x ss)
    then have "x \<noteq> e" using e by (auto simp: linked_def)
    then show ?case using 1 inv_links [OF i, of x ss] by (auto simp: cl f)
  qed
  moreover have "fifos no_ctx ?v" using i by (simp add: sinv_def fifos_defs f)
  ultimately show ?thesis using i by (simp add: sinv_def counts_def stages_def ctx_ok_def serials_def blank_def cl f t)
qed

section \<open>An event is committed\<close>

definition link :: "nat \<Rightarrow> nat \<Rightarrow> sched \<Rightarrow> sched" where
  "link e r v = v\<lparr>sc_cnt := (\<lambda>k x. sc_cnt v k x + (if k = STAGE_TRACE \<and> x = e \<and> \<not> sc_done v STAGE_TRACE r then 1 else 0)
       + (if k = STAGE_GO \<and> x = e \<and> \<not> sc_done v STAGE_GO r then 1 else 0) + (if k = STAGE_RET \<and> x = r then 1 else 0)),
     sc_fol := (if sc_done v STAGE_GO r then sc_fol v else (sc_fol v)(r := e # sc_fol v r)),
     sc_mfol := (sc_mfol v)(r := sc_mfol v r - 1)\<rparr>"

lemma link_simps [simp]:
  "sc_nb (link e r v) = sc_nb v" "sc_log (link e r v) = sc_log v" "sc_ser (link e r v) = sc_ser v" "sc_fifo (link e r v) = sc_fifo v"
  "called (link e r v) = called v" "linked (link e r v) = linked v" "sc_refs (link e r v) = sc_refs v" "sc_done (link e r v) = sc_done v"
  "sc_next (link e r v) = sc_next v" "sc_free (link e r v) = sc_free v" "sc_usr (link e r v) = sc_usr v"
  "sc_mfol (link e r v) = (sc_mfol v)(r := sc_mfol v r - 1)"
  by (simp_all add: link_def called_def linked_def fun_eq_iff)

text \<open>While the references of \<open>e\<close> are linked, its tokens for them are in the context.\<close>

definition linking :: "nat \<Rightarrow> nat list \<Rightarrow> ctx" where
  "linking e rs = no_ctx(S_ret e \<mapsto> map (\<lambda>r. Blocked r STAGE_RET) rs)"

lemma link_eff:
  "eff (linking e (r # rs)) (link e r v) q = (if q = S_ret e then Blocked r STAGE_RET # eff (linking e rs) v q
     else if q = S_fol r \<and> \<not> sc_done v STAGE_GO r then Blocked e STAGE_GO # eff (linking e rs) v q
     else if q = S_com r \<and> \<not> sc_done v STAGE_GO r \<and> \<not> sc_done v STAGE_TRACE r then Blocked e STAGE_TRACE # eff (linking e rs) v q
     else eff (linking e rs) v q)"
  by (cases q) (auto simp: eff_def raw_def link_def called_def linked_def linking_def)

lemma link_tokens:
  assumes "e < sc_nb v" "r < sc_nb v"
  shows "tokens (linking e (r # rs)) (link e r v) t \<le> tokens (linking e rs) v t
    + (if t = Blocked r STAGE_RET then 1 else 0)
    + (if t = Blocked e STAGE_GO \<and> \<not> sc_done v STAGE_GO r then 1 else 0)
    + (if t = Blocked e STAGE_TRACE \<and> \<not> sc_done v STAGE_TRACE r then 1 else 0)"
proof -
  let ?n = "slots (sc_nb v)"
  have "tokens (linking e (r # rs)) (link e r v) t \<le> (\<Sum>q\<in>?n. count_list (eff (linking e rs) v q) t
      + (if q = S_ret e then if t = Blocked r STAGE_RET then 1 else 0 else 0)
      + (if q = S_fol r then if t = Blocked e STAGE_GO \<and> \<not> sc_done v STAGE_GO r then 1 else 0 else 0)
      + (if q = S_com r then if t = Blocked e STAGE_TRACE \<and> \<not> sc_done v STAGE_TRACE r then 1 else 0 else 0))"
    unfolding tokens_def link_simps by (intro sum_mono) (auto simp: link_eff)
  also have "\<dots> = tokens (linking e rs) v t
    + (if t = Blocked r STAGE_RET then 1 else 0)
    + (if t = Blocked e STAGE_GO \<and> \<not> sc_done v STAGE_GO r then 1 else 0)
    + (if t = Blocked e STAGE_TRACE \<and> \<not> sc_done v STAGE_TRACE r then 1 else 0)"
    using assms unfolding sum.distrib tokens_def sum.delta [OF finite_slots] by (simp add: slots_def)
  finally show ?thesis .
qed

lemma unlinked_uncalled: "sinv c v \<Longrightarrow> e < sc_nb v \<Longrightarrow> \<not> linked v e \<Longrightarrow> \<not> called v s e \<or> s = STAGE_TRACE"
  by (cases s) (auto simp: sinv_def stages_def)

lemma link_inv:
  assumes i: "sinv (linking e rs) v" and e: "e < sc_nb v" "\<not> linked v e" "e \<notin> set (sc_free v)"
    and r: "r < sc_nb v" "r \<noteq> e" "\<not> called v STAGE_RET r" "r \<notin> set (sc_free v)"
  shows "sinv (linking e (r # rs)) (link e r v)"
proof -
  let ?c = "linking e (r # rs)" and ?v = "link e r v"
  have sub: "set (eff (linking e rs) v p) \<subseteq> set (eff ?c ?v p)" for p by (auto simp: link_eff)
  have ct: "counts (linking e rs) v" using i by (simp add: sinv_def)
  have "counts ?c ?v" unfolding counts_def
  proof (intro conjI allI impI)
    fix x k assume "x < sc_nb ?v"
    then have "int (tokens (linking e rs) v (Blocked x k)) \<le> sc_cnt v k x" using counts_D [OF ct] by simp
    then show "int (tokens ?c ?v (Blocked x k)) \<le> sc_cnt ?v k x"
      using link_tokens [OF e(1) r(1), of rs "Blocked x k"] by (auto simp: link_def split: if_splits)
  next
    fix q x k assume "slot_event q < sc_nb ?v" "Blocked x k \<in> set (eff ?c ?v q)"
    then have "slot_event q < sc_nb v" "x = e \<or> x = r \<or> Blocked x k \<in> set (eff (linking e rs) v q)" by (auto simp: link_eff split: if_splits)
    then show "x < sc_nb ?v" using ct e(1) r(1) unfolding counts_def link_simps by blast
  qed
  moreover have "stages ?v"
    using i unlinked_uncalled [OF i e(1,2)] r(3) unfolding sinv_def stages_def link_simps by (auto simp: link_def)
  moreover have "ctx_ok ?c ?v" using e(2) by (auto simp: ctx_ok_def linking_def split: if_splits)
  moreover have "links ?c ?v" using i sub unfolding sinv_def links_def link_simps by blast
  moreover have "blank ?v x" if "x \<in> set (sc_free v)" "blank v x" for x
    using that e(3) r(4) by (auto simp: blank_def link_def called_def linked_def)
  then have "serials ?v" using i unfolding sinv_def serials_def by auto
  moreover have "eff ?c ?v (S_usr s a) = eff (linking e rs) v (S_usr s a)" for s a by (simp add: link_eff)
  then have "fifos ?c ?v" using i unfolding sinv_def fifos_def by (simp add: f_queue_def f_last_def f_chain_def f_member_def)
  ultimately show ?thesis using i by (simp add: sinv_def)
qed

definition linked_to :: "ctx \<Rightarrow> sched \<Rightarrow> nat \<Rightarrow> nat \<Rightarrow> bool" where
  "linked_to c v e r \<longleftrightarrow> (called v STAGE_GO r \<or> Blocked e STAGE_GO \<in> set (eff c v (S_fol r)))
     \<and> (linked v r \<or> Blocked e STAGE_TRACE \<in> set (eff c v (S_com r)))"

lemma link_linked_to:
  assumes i: "sinv (linking e rs) v" and r: "r < sc_nb v"
  shows "linked_to (linking e (r # rs)) (link e r v) e r"
    "linked_to (linking e rs) v e x \<Longrightarrow> linked_to (linking e (r # rs)) (link e r v) e x"
  using i r by (auto simp: linked_to_def link_eff sinv_def stages_def)

abbreviation log_commit :: "nat \<Rightarrow> sched \<Rightarrow> sched" where
  "log_commit e v \<equiv> v\<lparr>sc_log := L_commit (sc_ser v e) (map (sc_ser v) (sc_refs v e)) # sc_log v\<rparr>"

lemma commit_simps:
  assumes "sinv c v" "e < sc_nb v" "x < sc_nb v"
  shows "linked (log_commit e v) x \<longleftrightarrow> x = e \<or> linked v x" "called (log_commit e v) s x \<longleftrightarrow> called v s x"
  using assms by (auto simp: linked_def called_def dest: inj_ser)

lemma commit_inv:
  assumes i: "sinv (linking e rs) v" and e: "e < sc_nb v" "\<not> linked v e" "e \<notin> set (sc_free v)" and m: "mset rs = mset (sc_refs v e)"
    and r: "\<And>r. r \<in> set rs \<Longrightarrow> r < sc_nb v \<and> \<not> called v STAGE_RET r \<and> linked_to (linking e rs) v e r"
  shows "sinv no_ctx (log_commit e v)"
proof -
  let ?v = "log_commit e v"
  note cm = commit_simps [OF i e(1)]
  have nc: "\<not> called v STAGE_RET e" using unlinked_uncalled [OF i e(1,2), of STAGE_RET] by simp
  have fo: "eff no_ctx ?v q = eff (linking e rs) v q" if "q \<noteq> S_ret e" "slot_event q < sc_nb v" for q
    using that by (cases q) (auto simp: eff_def raw_def cm linking_def)
  have fe: "eff no_ctx ?v (S_ret e) = map (\<lambda>r. Blocked r STAGE_RET) (sc_refs v e)" using nc e(1) by (simp add: eff_def raw_def cm)
  have sm: "set (sc_refs v e) = set rs" using m by (metis set_mset_mset)
  have tk: "tokens no_ctx ?v t = tokens (linking e rs) v t" for t
  proof -
    have "count_list (map (\<lambda>r. Blocked r STAGE_RET) (sc_refs v e)) t = count_list (map (\<lambda>r. Blocked r STAGE_RET) rs) t"
      using m by (metis count_mset mset_map)
    then show ?thesis using tokens_upd [of "S_ret e" v no_ctx ?v "linking e rs" t] fo fe e(1) by (simp add: linking_def)
  qed
  have es: "set (eff no_ctx ?v q) = set (eff (linking e rs) v q)" if "slot_event q < sc_nb v" for q
    using fo [of q] fe sm that by (cases "q = S_ret e") (auto simp: linking_def)
  have "counts no_ctx ?v" using i es unfolding sinv_def counts_def by (simp add: tk)
  moreover have "stages ?v" using i unfolding sinv_def stages_def by (simp add: cm)
  moreover have "links no_ctx ?v" unfolding links_def
  proof (intro allI impI, goal_cases)
    case (1 x ss)
    then have x: "x < sc_nb v" "\<not> called v STAGE_RET x" by (auto simp: cm)
    show ?case
    proof (cases "x = e")
      case True
      then have "ss = map (sc_ser v) (sc_refs v e)" using 1(3) e(2) by (auto simp: linked_def)
      then show ?thesis using r sm es True by (auto simp: linked_to_def cm)
    next
      case False
      then have l: "L_commit (sc_ser v x) ss \<in> set (sc_log v)" using 1(3) inj_ser [OF i x(1) e(1)] by auto
      show ?thesis using inv_links [OF i x l] x(1) es by (auto simp: cm)
    qed
  qed
  moreover have "blank ?v x" if "x \<in> set (sc_free v)" "blank v x" for x
  proof -
    have "x < sc_nb v" "x \<noteq> e" using i e(3) that by (auto simp: sinv_def serials_def)
    then show ?thesis using that cm(1) [of x] by (simp add: blank_def)
  qed
  then have "serials ?v" using i e(1) unfolding sinv_def serials_def by (auto simp: called_def)
  moreover have "fifos no_ctx ?v"
  proof -
    have f: "eff no_ctx ?v (S_usr s a) = eff (linking e rs) v (S_usr s a)" if "a < sc_nb v" for s a using fo that by simp
    have "f_chain no_ctx ?v" "f_member no_ctx ?v"
      using i f unfolding sinv_def fifos_def f_chain_def f_member_def by (simp_all cong: conj_cong)
    then show ?thesis using i unfolding sinv_def fifos_def by (simp add: f_queue_def f_last_def f_closed_def)
  qed
  moreover have "step_ok (sc_log v) (L_commit (sc_ser v e) (map (sc_ser v) (sc_refs v e)))"
    using e(2) r sm by (auto simp: linked_def called_def)
  ultimately show ?thesis using i by (simp add: sinv_def ctx_ok_def)
qed

lemma open_slot:
  assumes i: "sinv c v" and q: "opened v q" "c q = None"
  shows "sinv (c(q \<mapsto> raw v q)) v"
proof (rule same_inv [OF i])
  show "eff (c(q \<mapsto> raw v q)) v p = eff c v p" for p using q by (auto simp: eff_def)
  show "ctx_ok (c(q \<mapsto> raw v q)) v" using i q by (auto simp: sinv_def ctx_ok_def)
qed (use i in \<open>simp_all add: sinv_def\<close>)

lemma drop_inv:
  assumes i: "sinv (c(q \<mapsto> t # l)) v" and q: "slot_event q < sc_nb v"
  shows "sinv (c(q \<mapsto> l)) v"
proof -
  have t: "tokens (c(q \<mapsto> l)) v x \<le> tokens (c(q \<mapsto> t # l)) v x" for x
    using tokens_upd [of q v "c(q \<mapsto> l)" v "c(q \<mapsto> t # l)" x] q by (auto split: if_splits)
  have b: "set (eff (c(q \<mapsto> l)) v p) \<subseteq> set (eff (c(q \<mapsto> t # l)) v p)" for p by (cases "p = q") auto
  have "counts (c(q \<mapsto> l)) v" unfolding counts_def
  proof (intro conjI allI impI)
    show "int (tokens (c(q \<mapsto> l)) v (Blocked x k)) \<le> sc_cnt v k x" if "x < sc_nb v" for x k
      using counts_D [of "c(q \<mapsto> t # l)" v x k] i t [of "Blocked x k"] that by (auto simp: sinv_def)
    show "x < sc_nb v" if "slot_event p < sc_nb v" "Blocked x k \<in> set (eff (c(q \<mapsto> l)) v p)" for p x k
      using i b [of p] that unfolding sinv_def counts_def by blast
  qed
  moreover have "links (c(q \<mapsto> l)) v" "fifos (c(q \<mapsto> l)) v"
    using shorter [of c q "t # l" v l] shorter_fifos [of c q "t # l" v l] i by (auto simp: sinv_def)
  ultimately show ?thesis using i by (simp add: sinv_def ctx_ok_def)
qed

end
