(* ===== verification/Spec2Isabelle.thy ===== *)
theory Spec2Isabelle
  imports Sherlock_Prelude Core_Cpu Core_Mem Hwe_Events Delorean Delorean_Undo Delorean_Travel Delorean_Limits
    Watson Watson_Reports Watson_Protocol Gdb_Stub Gdb_Protocol Gdb_Debugger
    Avl_Tree Olist Debug_Helper Debug_Index Callstack Hwe_Handle Hwe_Schedule
begin

text \<open>
  A verification library for the trace-based debugging tools of this repository.

  \<^bold>\<open>The program.\<close> A simulated multiprocessor writes a trace of hardware events
  (\<open>lib/decopus\<close>). The tool \<open>tool/sherlock\<close> reads the trace and rebuilds processors,
  caches and memories from it (\<open>src/core\<close>). A plugin sees each rebuilt step: \<open>delorean\<close>
  records the execution and lets a debugger step it forwards and backwards over the remote protocol of gdb,
  \<open>watson\<close> checks that no processor reads stale data from its cache. The library
  \<open>lib/debughelper\<close> finds the source line of an address and follows calls and returns.

  \<^bold>\<open>Prelude.\<close> \<open>Sherlock_Prelude\<close> names the C integers (words of their width), the results of a
  computation (\<open>Ok\<close>, \<open>Stop Undefined\<close> for what C leaves undefined and the code does not guard
  against, \<open>Stop (Exit n)\<close> for \<open>exit\<close>), bounded array accesses, and little-endian images. The
  locale \<open>packed\<close> is the contract of a fixed-size binary layout. It is interpreted on the three word
  sizes and, in \<open>Hwe_Events\<close>, on each packed structure of the trace.

  \<^bold>\<open>Trace format.\<close> \<open>Hwe_Events\<close> models \<open>lib/decopus/trace/include/events\<close>: the
  headers and bodies as records with their bit fields as words, and \<open>sizeof\<close>, \<open>write\<close> and \<open>read\<close>
  of each kind of event. The theorems: reading what was written gives the event back, a proper
  prefix is never taken for an event, and the index of an event is recovered.

  \<^bold>\<open>Core.\<close> \<open>Core_Cpu\<close> is the register file with its banks (\<open>core_cpu.c\<close>): when executing an
  instruction is defined, and that a change of mode and back restores the visible registers.
  \<open>Core_Mem\<close> is the hash table of Judy arrays (\<open>util_hash.c\<close>) and the accesses through it
  (\<open>core_mem.c\<close>). The locale \<open>addr_store\<close> is the contract between the two, interpreted on the hash
  table; the theorems say which bytes an access changes, that the table is a function
  from keys to contents, what the initial image contains, and that the debugger looks under other keys.

  \<^bold>\<open>Recorder.\<close> \<open>Delorean\<close> is the state and every operation of \<open>delorean_main.c\<close> on the graph of
  executed instructions. \<open>Delorean_Undo\<close> is about one node of the graph, \<open>Delorean_Travel\<close> about whole
  runs, which are an inductive relation: the invariant, and that stepping back and forth over any recorded
  run restores the registers of all processors. The instructions of a run write each register once,
  no user-bank register, and keep the mode; \<open>Delorean_Limits\<close> shows on
  evaluated runs that the recorder does not undo the others.

  \<^bold>\<open>Debugger.\<close> \<open>Gdb_Stub\<close> is \<open>gdbstub.c\<close>: the packet layer, each command, the session and the loop
  that moves the recorder. \<open>Gdb_Protocol\<close> is about packets and sessions, \<open>Gdb_Debugger\<close> about
  breakpoints, registers and the movement through the recorded run. The locale \<open>command_frame\<close>
  collects what a relation needs so that every command keeps it; it is interpreted for the input that is left and for
  the line buffer.

  \<^bold>\<open>Coherence checker.\<close> \<open>Watson\<close> is \<open>watson_main.c\<close>: an automaton for each address, in its
  write-back and write-through forms, the pending reads of each cache and the plugin entry points.
  \<open>Watson_Reports\<close> proves invariants of all reachable states through the locale \<open>watson_invariant\<close>,
  \<open>Watson_Protocol\<close> that the bitmaps implement a protocol over sets of caches and when a read
  is reported.

  \<^bold>\<open>Debug information.\<close> \<open>Avl_Tree\<close> is the search tree (\<open>avl_tree.c\<close>, with the locale
  \<open>ordered_index\<close>), \<open>Olist\<close> the ordered list in a store (\<open>generic_olist.c\<close>), \<open>Debug_Helper\<close> the index
  of instructions that keeps both (\<open>debug_helper.c\<close> and the files it uses), \<open>Debug_Index\<close> the map that the
  index implements and what a lookup returns, \<open>Callstack\<close> the stack of functions followed from the
  branches of a program (\<open>cstacklib\<close>).

  \<^bold>\<open>Loops and bounds.\<close> Loops over arrays and lists are structural recursion. Loops over linked lists and the
  debugger's replay loop are \<open>partial_function (option)\<close>, with \<open>None\<close> for a loop that does not return; the theorems
  about them state that a result is returned. The session of the debugger recurses over its
  finite input: an empty input is a closed connection. Counters that the C code keeps in words are words; the counters of type
  \<open>int\<close> are integers, their values are bounded by sizes of structures in memory.

  \<^bold>\<open>Parameters.\<close> Judy arrays are a library outside the repository: a record of operations with the documented
  laws as the hypothesis \<open>judy_ok\<close>, which \<open>Core_Mem\<close> instantiates with a concrete function. What the sockets of the
  debugger deliver, the contents of uninitialised buffers and the output of libdwarf are arguments.

  \<^bold>\<open>Not modelled.\<close> Text output, statistics and the parsing of command lines; the reading of DWARF sections and the
  location of variables, which are calls of libdwarf. The trace reader and the scheduling of event
  callbacks (\<open>hwetrace_read.c\<close>, \<open>hwe_handle_implem.h\<close>) rest on pool and tree headers that are not in the repository. The simulated platform is
  not modelled either: \<open>platform/hardware/rabbits\<close> is QEMU and SystemC with local changes,
  \<open>platform/software\<close> is an operating system with assembly and device drivers (\<open>dnaos\<close>), a video decoder
  and the SPLASH-2 benchmarks. These programs produce the trace but take no part in its analysis.
\<close>

end
